(* ===== verification/Prelude.thy ===== *)
theory Prelude
  imports Main "HOL-Library.Word"
begin

text \<open>
  What every component of the development shares: the byte type, the
  little-endian encodings of \<^verbatim>\<open>src/crypto/common.h\<close> at any width, C's truncating
  division, and the generic list lemmas the component proofs use.  The fact
  collections \<open>codec_simps\<close> and \<open>const_defs\<close> gather the rewrite rules of the
  serializers and the definitions of named constants.
\<close>

unbundle bit_operations_syntax

named_theorems const_defs "definitions of the named constants of the source"
named_theorems codec_simps "rewrite rules of encoders and decoders"

type_synonym byte = "8 word"
type_synonym bytes = "8 word list"
type_synonym u32 = "32 word"
type_synonym u64 = "64 word"

text \<open>A \<^verbatim>\<open>uint256\<close> of the source is an opaque blob of 32 bytes.\<close>

type_synonym uint256 = "8 word list"

section \<open>Integers of C\<close>

text \<open>Signed division and remainder of C and C++ truncate towards zero.\<close>

definition c_div :: "int \<Rightarrow> int \<Rightarrow> int" where
  "c_div a b = sgn a * sgn b * (\<bar>a\<bar> div \<bar>b\<bar>)"

definition c_mod :: "int \<Rightarrow> int \<Rightarrow> int" where
  "c_mod a b = a - b * c_div a b"

lemma c_div_nonneg: "0 \<le> a \<Longrightarrow> 0 \<le> b \<Longrightarrow> c_div a b = a div b"
  by (auto simp: c_div_def sgn_if)

lemma c_mod_nonneg: "0 \<le> a \<Longrightarrow> 0 \<le> b \<Longrightarrow> c_mod a b = a mod b"
  by (simp add: c_mod_def c_div_nonneg minus_mult_div_eq_mod)

text \<open>The values an \<^verbatim>\<open>int64_t\<close> can hold; signed overflow is undefined in C++, so
  theorems state that the values of the model stay inside.\<close>

definition int64_ok :: "int \<Rightarrow> bool" where
  "int64_ok x \<longleftrightarrow> - (2 ^ 63) \<le> x \<and> x < 2 ^ 63"

section \<open>Little-endian bytes\<close>

text \<open>\<open>to_le n v\<close> writes the low \<open>n\<close> bytes of \<open>v\<close>, least significant first;
  \<open>from_le\<close> reads a byte list back.  \<^verbatim>\<open>ReadLE32\<close>, \<^verbatim>\<open>WriteLE64\<close> and the integer
  serializers are instances.\<close>

primrec to_le :: "nat \<Rightarrow> nat \<Rightarrow> bytes" where
  "to_le 0 v = []"
| "to_le (Suc n) v = of_nat v # to_le n (v div 256)"

primrec from_le :: "bytes \<Rightarrow> nat" where
  "from_le [] = 0"
| "from_le (b # bs) = unat b + 256 * from_le bs"

lemma length_to_le [simp]: "length (to_le n v) = n"
  by (induction n arbitrary: v) auto

lemma unat_byte_less [simp]: "unat (b :: byte) < 256"
  by (rule unsigned_less [of b, simplified])

lemma from_le_bound: "from_le bs < 256 ^ length bs"
proof (induction bs)
  case (Cons b bs)
  have "from_le (b # bs) < 256 + 256 * from_le bs"
    using unat_byte_less [of b] by simp
  also have "\<dots> \<le> 256 * 256 ^ length bs"
    using Cons.IH by linarith
  finally show ?case by simp
qed simp

lemma from_le_append: "from_le (xs @ ys) = from_le xs + 256 ^ length xs * from_le ys"
  by (induction xs) (simp_all add: algebra_simps)

lemma from_to_le [simp]: "from_le (to_le n v) = v mod 256 ^ n"
proof (induction n arbitrary: v)
  case (Suc n)
  have "unat (of_nat v :: byte) = v mod 256"
    by (simp add: unat_of_nat)
  then show ?case
    using Suc.IH [of "v div 256"] by (simp add: mod_mult2_eq)
qed simp

lemma to_from_le [simp]: "length bs = n \<Longrightarrow> to_le n (from_le bs) = bs"
proof (induction bs arbitrary: n)
  case (Cons b bs)
  have "(unat b + 256 * from_le bs) div 256 = from_le bs"
    using unat_byte_less [of b] by simp
  moreover have "of_nat (unat b + 256 * from_le bs) = b"
  proof -
    have "of_nat (256 * from_le bs) = (0 :: byte)"
      by (simp only: word_of_nat_eq_0_iff) simp
    then show ?thesis by simp
  qed
  ultimately show ?case using Cons by auto
qed simp

end
