(* ===== verification/Params.thy ===== *)
theory Params
  imports Prelude
begin

text \<open>
  Chain parameters: \<^verbatim>\<open>src/consensus/amount.h\<close>, \<^verbatim>\<open>src/consensus/consensus.h\<close>,
  \<^verbatim>\<open>src/consensus/params.h\<close> and the mainnet instance of
  \<^verbatim>\<open>src/kernel/chainparams.cpp\<close>.  Amounts and heights are C++ signed integers and
  are modelled by \<open>int\<close>; the theorems of the components that compute with them show
  that no value leaves the range of its C++ type.
\<close>

section \<open>Amounts\<close>

type_synonym CAmount = int

definition COIN :: CAmount where
  [const_defs]: "COIN = 100000000"

definition MAX_MONEY :: CAmount where
  [const_defs]: "MAX_MONEY = 100000000 * COIN"

definition MoneyRange :: "CAmount \<Rightarrow> bool" where
  "MoneyRange nValue \<longleftrightarrow> nValue \<ge> 0 \<and> nValue \<le> MAX_MONEY"

section \<open>Network-wide limits\<close>

definition MAX_BLOCK_SERIALIZED_SIZE :: int where
  [const_defs]: "MAX_BLOCK_SERIALIZED_SIZE = 64000000"

definition MAX_BLOCK_WEIGHT :: int where
  [const_defs]: "MAX_BLOCK_WEIGHT = 64000000"

definition MAX_BLOCK_SIGOPS_COST :: int where
  [const_defs]: "MAX_BLOCK_SIGOPS_COST = 1280000"

definition PQ_SIGOPS_COST :: int where
  [const_defs]: "PQ_SIGOPS_COST = 2"

definition DATACARRIER_ANCHOR_BYTES :: int where
  [const_defs]: "DATACARRIER_ANCHOR_BYTES = 80"

definition MAX_BLOCK_DATACARRIER_ANCHORS :: int where
  [const_defs]: "MAX_BLOCK_DATACARRIER_ANCHORS = 100"

definition MAX_BLOCK_DATACARRIER_BYTES :: int where
  [const_defs]: "MAX_BLOCK_DATACARRIER_BYTES = MAX_BLOCK_DATACARRIER_ANCHORS * DATACARRIER_ANCHOR_BYTES"

definition WITNESS_SCALE_FACTOR :: int where
  [const_defs]: "WITNESS_SCALE_FACTOR = 4"

definition LOCKTIME_VERIFY_SEQUENCE :: u32 where
  [const_defs]: "LOCKTIME_VERIFY_SEQUENCE = 1"

definition MAX_TIMEWARP :: int where
  [const_defs]: "MAX_TIMEWARP = 600"

section \<open>Emission eras\<close>

record EmissionEra =
  startHeight :: int
  endHeight :: int
  baseSubsidy :: CAmount

definition EMISSION_START_HEIGHT :: int where
  [const_defs]: "EMISSION_START_HEIGHT = 1"

definition MAX_SUPPLY_SAT :: int where
  [const_defs]: "MAX_SUPPLY_SAT = 10000000000000000"

text \<open>The loop of \<^verbatim>\<open>EmissionTableTotalSat\<close> adds row by row to \<open>total\<close>.\<close>

definition EmissionTableTotalSat :: "EmissionEra list \<Rightarrow> int" where
  "EmissionTableTotalSat table =
     foldl (\<lambda>total e. total + baseSubsidy e * (endHeight e - startHeight e + 1)) 0 table"

text \<open>\<open>EmissionTableRowsOk expected rows\<close> is the body of the loop of
  \<^verbatim>\<open>EmissionTableWellFormed\<close> from some row on, where \<open>expected\<close> is the value
  \<^verbatim>\<open>i == 0 ? start : table[i - 1].endHeight + 1\<close> of that row.\<close>

fun EmissionTableRowsOk :: "int \<Rightarrow> EmissionEra list \<Rightarrow> bool" where
  "EmissionTableRowsOk expected [] = True"
| "EmissionTableRowsOk expected (e # es) =
     (if startHeight e \<noteq> expected then False
      else if endHeight e < startHeight e then False
      else if baseSubsidy e \<le> 0 \<or> baseSubsidy e > MAX_SUPPLY_SAT then False
      else EmissionTableRowsOk (endHeight e + 1) es)"

definition EmissionTableWellFormed :: "EmissionEra list \<Rightarrow> int \<Rightarrow> bool" where
  "EmissionTableWellFormed table start =
     (if table = [] then False else EmissionTableRowsOk start table)"

abbreviation era :: "int \<Rightarrow> int \<Rightarrow> int \<Rightarrow> EmissionEra" where
  "era s e b \<equiv> \<lparr>startHeight = s, endHeight = e, baseSubsidy = b\<rparr>"

definition EMISSION_TABLE :: "EmissionEra list" where
  "EMISSION_TABLE =
  [era 1 20000 625000000,
   era 20001 40000 1250000000,
   era 40001 60000 2500000000,
   era 60001 220000 5000000000,
   era 220001 330000 4500000000,
   era 330001 440000 4050000000,
   era 440001 550000 3645000000,
   era 550001 660000 3281000000,
   era 660001 770000 2953000000,
   era 770001 880000 2658000000,
   era 880001 990000 2393000000,
   era 990001 1100000 2154000000,
   era 1100001 1210000 1939000000,
   era 1210001 1320000 1746000000,
   era 1320001 1430000 1572000000,
   era 1430001 1540000 1415000000,
   era 1540001 1650000 1274000000,
   era 1650001 1760000 1147000000,
   era 1760001 1870000 1033000000,
   era 1870001 1980000 930000000,
   era 1980001 2090000 837000000,
   era 2090001 2200000 754000000,
   era 2200001 2310000 679000000,
   era 2310001 2420000 612000000,
   era 2420001 2530000 551000000,
   era 2530001 2640000 496000000,
   era 2640001 2750000 447000000,
   era 2750001 2860000 403000000,
   era 2860001 2970000 363000000,
   era 2970001 3080000 327000000,
   era 3080001 3190000 295000000,
   era 3190001 3300000 266000000,
   era 3300001 3410000 240000000,
   era 3410001 3520000 216000000,
   era 3520001 3630000 195000000,
   era 3630001 3740000 176000000,
   era 3740001 3850000 159000000,
   era 3850001 31460000 150000000,
   era 31460001 31570000 148490909,
   era 31570001 31680000 133641818,
   era 31680001 31790000 120277636,
   era 31790001 31900000 108249872,
   era 31900001 32010000 97424885,
   era 32010001 32120000 87682397,
   era 32120001 32230000 78914157,
   era 32230001 32340000 71022741,
   era 32340001 32450000 63920467,
   era 32450001 32560000 57528420,
   era 32560001 32670000 51775578,
   era 32670001 32780000 46598021,
   era 32780001 32890000 41938218,
   era 32890001 33000000 37744397,
   era 33000001 33110000 33969957,
   era 33110001 33220000 30572961,
   era 33220001 33330000 27515665,
   era 33330001 33440000 24764099,
   era 33440001 33550000 22287689,
   era 33550001 33660000 20058920,
   era 33660001 33770000 18053028,
   era 33770001 33880000 16247725,
   era 33880001 33990000 14622953,
   era 33990001 34100000 13160657,
   era 34100001 34210000 11844592,
   era 34210001 34320000 10660132,
   era 34320001 35375353 10000000]"

definition EMISSION_CLOSING_DUST_SAT :: int where
  [const_defs]: "EMISSION_CLOSING_DUST_SAT = 1660000"

section \<open>The settlement levy's schedule\<close>

definition SETTLEMENT_LEVY_BP :: int where
  [const_defs]: "SETTLEMENT_LEVY_BP = 5"

definition SETTLEMENT_LEVY_BP_MAX :: int where
  [const_defs]: "SETTLEMENT_LEVY_BP_MAX = 10000"

definition SETTLEMENT_LEVY_CAP_SAT :: int where
  [const_defs]: "SETTLEMENT_LEVY_CAP_SAT = 10000"

record SettlementLevyRule =
  levyStartHeight :: int
  bp :: int
  capSat :: int

definition SETTLEMENT_LEVY_GENESIS_RULE :: SettlementLevyRule where
  "SETTLEMENT_LEVY_GENESIS_RULE = \<lparr>levyStartHeight = 0, bp = 0, capSat = 0\<rparr>"

text \<open>\<open>LevyRowsOk prev rows\<close> is the loop of
  \<^verbatim>\<open>SettlementLevyScheduleIsSoftForkOnly\<close>; \<open>prev\<close> is \<open>None\<close> at index 0.\<close>

fun LevyRowsOk :: "SettlementLevyRule option \<Rightarrow> SettlementLevyRule list \<Rightarrow> bool" where
  "LevyRowsOk prev [] = True"
| "LevyRowsOk prev (r # rs) =
     (if bp r < 0 \<or> bp r > SETTLEMENT_LEVY_BP_MAX \<or> capSat r < 0 then False
      else if (case prev of None \<Rightarrow> False
               | Some p \<Rightarrow> levyStartHeight r \<le> levyStartHeight p \<or> bp r < bp p \<or> capSat r < capSat p)
      then False
      else LevyRowsOk (Some r) rs)"

definition SettlementLevyScheduleIsSoftForkOnly :: "SettlementLevyRule list \<Rightarrow> bool" where
  "SettlementLevyScheduleIsSoftForkOnly schedule =
     (case schedule of [] \<Rightarrow> False
      | r # _ \<Rightarrow> if levyStartHeight r \<noteq> 0 then False else LevyRowsOk None schedule)"

definition MIN_OUTPUT_VALUE_SAT :: int where
  [const_defs]: "MIN_OUTPUT_VALUE_SAT = 10000"

definition COINBASE_MATURITY_MAINNET :: int where
  [const_defs]: "COINBASE_MATURITY_MAINNET = 1000"

section \<open>The proof-of-work algorithm id\<close>

definition POW_ALGO_ID_SHIFT :: nat where
  [const_defs]: "POW_ALGO_ID_SHIFT = 28"

definition POW_ALGO_ID_MASK :: u32 where
  [const_defs]: "POW_ALGO_ID_MASK = 0x30000000"

text \<open>A header's \<^verbatim>\<open>int32_t nVersion\<close> is kept as its 32 bits.\<close>

definition GetPowAlgoId :: "u32 \<Rightarrow> u32" where
  "GetPowAlgoId nVersion = drop_bit POW_ALGO_ID_SHIFT (nVersion AND POW_ALGO_ID_MASK)"

section \<open>Consensus parameters\<close>

datatype BuriedDeployment =
    DEPLOYMENT_HEIGHTINCB | DEPLOYMENT_CLTV | DEPLOYMENT_DERSIG | DEPLOYMENT_CSV | DEPLOYMENT_SEGWIT

record Params =
  hashGenesisBlock :: uint256
  BIP34Height :: int
  BIP34Hash :: uint256
  BIP65Height :: int
  BIP66Height :: int
  CSVHeight :: int
  SegwitHeight :: int
  powLimit :: uint256
  fPowAllowMinDifficultyBlocks :: bool
  enforce_BIP94 :: bool
  fPowNoRetargeting :: bool
  nPowTargetSpacing :: int
  nPowTargetTimespan :: int
  nASERTActivationHeight :: int
  nASERTHalfLife :: int
  metaldagBaseTime :: int
  metaldagEpochSeconds :: int
  metaldagDagInitBytes :: int
  metaldagDagGrowthBytes :: int
  metaldagCacheDivisor :: int
  emissionTable :: "EmissionEra list"
  emissionClosingDustSat :: CAmount
  permitV2Outputs :: bool
  settlementLevySchedule :: "SettlementLevyRule list"
  minOutputValueSat :: CAmount
  coinbaseMaturity :: int
  release_checkpoints :: "(int \<times> uint256) list"
  multi_algo_activation_height :: int

definition DifficultyAdjustmentInterval :: "Params \<Rightarrow> int" where
  "DifficultyAdjustmentInterval p = c_div (nPowTargetTimespan p) (nPowTargetSpacing p)"

definition EmissionEndHeight :: "Params \<Rightarrow> int" where
  "EmissionEndHeight p =
     (if emissionTable p = [] then EMISSION_START_HEIGHT - 1 else endHeight (last (emissionTable p)))"

fun levy_scan :: "int \<Rightarrow> SettlementLevyRule \<Rightarrow> SettlementLevyRule list \<Rightarrow> SettlementLevyRule" where
  "levy_scan height rule [] = rule"
| "levy_scan height rule (r # rs) =
     (if levyStartHeight r > height then rule else levy_scan height r rs)"

definition SettlementLevyAt :: "Params \<Rightarrow> int \<Rightarrow> SettlementLevyRule" where
  "SettlementLevyAt p height =
     levy_scan height \<lparr>levyStartHeight = 0, bp = 0, capSat = 0\<rparr> (settlementLevySchedule p)"

text \<open>The \<^verbatim>\<open>std::map\<close> of release checkpoints is an association list with distinct keys.\<close>

definition ReleaseCheckpointAllows :: "Params \<Rightarrow> int \<Rightarrow> uint256 \<Rightarrow> bool" where
  "ReleaseCheckpointAllows p height hash =
     (case map_of (release_checkpoints p) height of None \<Rightarrow> True | Some h \<Rightarrow> h = hash)"

definition MultiAlgoActiveAt :: "Params \<Rightarrow> int \<Rightarrow> bool" where
  "MultiAlgoActiveAt p height \<longleftrightarrow>
     multi_algo_activation_height p > 0 \<and> height \<ge> multi_algo_activation_height p"

fun DeploymentHeight :: "Params \<Rightarrow> BuriedDeployment \<Rightarrow> int" where
  "DeploymentHeight p DEPLOYMENT_HEIGHTINCB = BIP34Height p"
| "DeploymentHeight p DEPLOYMENT_CLTV = BIP65Height p"
| "DeploymentHeight p DEPLOYMENT_DERSIG = BIP66Height p"
| "DeploymentHeight p DEPLOYMENT_CSV = CSVHeight p"
| "DeploymentHeight p DEPLOYMENT_SEGWIT = SegwitHeight p"

section \<open>Mainnet\<close>

text \<open>\<^verbatim>\<open>uint256{"hex"}\<close> stores the bytes of the displayed hexadecimal number reversed.
  The genesis hash is the constant \<^verbatim>\<open>FINAL_GENESIS_HASH\<close> the constructor asserts.\<close>

definition FINAL_GENESIS_TIME :: int where
  [const_defs]: "FINAL_GENESIS_TIME = 1790380800"

definition FINAL_GENESIS_BITS :: u32 where
  [const_defs]: "FINAL_GENESIS_BITS = 0x1e0fffff"

definition FINAL_GENESIS_HASH :: uint256 where
  "FINAL_GENESIS_HASH =
     rev [0x3b, 0xc1, 0xa3, 0x6d, 0xf7, 0xd7, 0x86, 0xa5, 0xc4, 0x58, 0x4e, 0x21, 0xd2, 0x48, 0xe0, 0xa3, 
          0x78, 0x5a, 0x96, 0xaa, 0xa6, 0x0a, 0x5b, 0x39, 0x59, 0xdf, 0xad, 0x50, 0x28, 0x33, 0x79, 0xf2]"

definition CMainParams_consensus :: Params where
  "CMainParams_consensus = \<lparr>
     hashGenesisBlock = FINAL_GENESIS_HASH,
     BIP34Height = 1,
     BIP34Hash = replicate 32 0,
     BIP65Height = 0,
     BIP66Height = 0,
     CSVHeight = 0,
     SegwitHeight = 0,
     powLimit = rev ([0x00, 0x00, 0x0f] @ replicate 29 0xff),
     fPowAllowMinDifficultyBlocks = False,
     enforce_BIP94 = False,
     fPowNoRetargeting = False,
     nPowTargetSpacing = 300,
     nPowTargetTimespan = 300 * 50,
     nASERTActivationHeight = 1,
     nASERTHalfLife = 2 * 60 * 60,
     metaldagBaseTime = FINAL_GENESIS_TIME,
     metaldagEpochSeconds = 14 * 24 * 3600,
     metaldagDagInitBytes = 4 * 1024 * 1024 * 1024,
     metaldagDagGrowthBytes = 128 * 1024 * 1024,
     metaldagCacheDivisor = 128,
     emissionTable = EMISSION_TABLE,
     emissionClosingDustSat = EMISSION_CLOSING_DUST_SAT,
     permitV2Outputs = False,
     settlementLevySchedule = [SETTLEMENT_LEVY_GENESIS_RULE],
     minOutputValueSat = MIN_OUTPUT_VALUE_SAT,
     coinbaseMaturity = COINBASE_MATURITY_MAINNET,
     release_checkpoints = [],
     multi_algo_activation_height = 0\<rparr>"

lemma mainnet_emission [simp]:
  "emissionTable CMainParams_consensus = EMISSION_TABLE"
  "emissionClosingDustSat CMainParams_consensus = EMISSION_CLOSING_DUST_SAT"
  by (simp_all add: CMainParams_consensus_def)

lemma mainnet_levy_schedule:
  "settlementLevySchedule CMainParams_consensus = [SETTLEMENT_LEVY_GENESIS_RULE]"
  by (simp add: CMainParams_consensus_def)

end
