(* ===== verification/Emission.thy ===== *)
theory Emission
  imports Params
begin

text \<open>
  The block subsidy (\<^verbatim>\<open>GetBlockSubsidy\<close> of \<^verbatim>\<open>src/validation.cpp\<close>) over the era
  tables of \<^verbatim>\<open>src/consensus/params.h\<close>.  The main result is a closed form of the
  supply at any height for every well-formed table, and with it the exact cap of
  mainnet.
\<close>

fun subsidy_scan :: "Params \<Rightarrow> int \<Rightarrow> EmissionEra list \<Rightarrow> CAmount" where
  "subsidy_scan p nHeight [] = 0"
| "subsidy_scan p nHeight (e # es) =
     (if nHeight > endHeight e then subsidy_scan p nHeight es
      else if nHeight < startHeight e then 0
      else let subsidy = baseSubsidy e
           in if nHeight = EmissionEndHeight p then subsidy + emissionClosingDustSat p else subsidy)"

definition GetBlockSubsidy :: "int \<Rightarrow> Params \<Rightarrow> CAmount" where
  "GetBlockSubsidy nHeight p =
     (if nHeight < EMISSION_START_HEIGHT then 0 else subsidy_scan p nHeight (emissionTable p))"

text \<open>What all blocks up to and including height \<open>n\<close> have minted.\<close>

definition supply_at :: "int \<Rightarrow> Params \<Rightarrow> CAmount" where
  "supply_at n p = (\<Sum>h\<in>{0..n}. GetBlockSubsidy h p)"

section \<open>Well-formed tables\<close>

lemma EmissionTableTotalSat_Nil [simp]: "EmissionTableTotalSat [] = 0"
  by (simp add: EmissionTableTotalSat_def)

lemma foldl_add_acc:
  "foldl (\<lambda>t e. t + f e) (a :: int) xs = a + foldl (\<lambda>t e. t + f e) 0 xs"
  by (induction xs arbitrary: a) (simp, metis (no_types, lifting) add.assoc add_0 foldl_Cons)

lemma EmissionTableTotalSat_Cons [simp]:
  "EmissionTableTotalSat (e # es) =
     baseSubsidy e * (endHeight e - startHeight e + 1) + EmissionTableTotalSat es"
  unfolding EmissionTableTotalSat_def
  by (simp add: foldl_add_acc [where a = "baseSubsidy e * (endHeight e - startHeight e + 1)"])

text \<open>The subsidy of a height without the closing remainder, as a function of the table alone.\<close>

fun era_subsidy :: "int \<Rightarrow> EmissionEra list \<Rightarrow> CAmount" where
  "era_subsidy h [] = 0"
| "era_subsidy h (e # es) =
     (if h > endHeight e then era_subsidy h es else if h < startHeight e then 0 else baseSubsidy e)"

abbreviation table_end :: "int \<Rightarrow> EmissionEra list \<Rightarrow> int" where
  "table_end s es \<equiv> (if es = [] then s - 1 else endHeight (last es))"

lemma rows_ok_end: "EmissionTableRowsOk s es \<Longrightarrow> s - 1 \<le> table_end s es"
proof (induction s es rule: EmissionTableRowsOk.induct)
  case (2 s e es)
  then show ?case by (cases es) (auto split: if_splits)
qed simp

lemma rows_ok_nonempty_end: "EmissionTableRowsOk s (e # es) \<Longrightarrow> endHeight e \<le> endHeight (last (e # es))"
  using rows_ok_end [of "endHeight e + 1" es] by (auto split: if_splits)

lemma era_subsidy_nonneg: "EmissionTableRowsOk s es \<Longrightarrow> 0 \<le> era_subsidy h es"
  by (induction s es rule: EmissionTableRowsOk.induct) (auto split: if_splits)

lemma era_subsidy_past_end:
  "EmissionTableRowsOk s es \<Longrightarrow> table_end s es < h \<Longrightarrow> era_subsidy h es = 0"
proof (induction s es rule: EmissionTableRowsOk.induct)
  case (2 s e es)
  then show ?case
    using rows_ok_nonempty_end [OF "2.prems"(1)]
    by (cases es) (auto split: if_splits)
qed simp

lemma sum_era_subsidy:
  "EmissionTableRowsOk s es \<Longrightarrow>
   (\<Sum>h\<in>{s..table_end s es}. era_subsidy h es) = EmissionTableTotalSat es"
proof (induction s es rule: EmissionTableRowsOk.induct)
  case (2 s e es)
  let ?m = "endHeight e" and ?l = "endHeight (last (e # es))"
  from "2.prems" have s: "startHeight e = s" and le: "s \<le> ?m"
    and ok: "EmissionTableRowsOk (?m + 1) es"
    by (auto split: if_splits)
  have l: "?l = table_end (?m + 1) es" by simp
  have ml: "?m \<le> ?l" using rows_ok_nonempty_end [OF "2.prems"] .
  have split: "{s..?l} = {s..?m} \<union> {?m + 1..?l}" using le ml by auto
  have "(\<Sum>h\<in>{s..?l}. era_subsidy h (e # es))
      = (\<Sum>h\<in>{s..?m}. era_subsidy h (e # es)) + (\<Sum>h\<in>{?m + 1..?l}. era_subsidy h (e # es))"
    unfolding split by (rule sum.union_disjoint) auto
  also have "(\<Sum>h\<in>{s..?m}. era_subsidy h (e # es)) = (\<Sum>h\<in>{s..?m}. baseSubsidy e)"
    by (rule sum.cong) (auto simp: s)
  also have "\<dots> = baseSubsidy e * (?m - s + 1)"
    using le by simp
  also have "(\<Sum>h\<in>{?m + 1..?l}. era_subsidy h (e # es)) = (\<Sum>h\<in>{?m + 1..?l}. era_subsidy h es)"
    by (rule sum.cong) auto
  also have "\<dots> = EmissionTableTotalSat es"
    using "2.IH" "2.prems" ok unfolding l by (auto split: if_splits)
  finally show ?case by (simp add: s)
qed simp

lemma subsidy_scan_eq:
  assumes "EmissionTableRowsOk s es" and "s \<le> h" and "es \<noteq> [] \<Longrightarrow> EmissionEndHeight p = endHeight (last es)"
  shows "subsidy_scan p h es =
    era_subsidy h es + (if es \<noteq> [] \<and> h = EmissionEndHeight p then emissionClosingDustSat p else 0)"
  using assms
proof (induction s es rule: EmissionTableRowsOk.induct)
  case (2 s e es)
  show ?case
  proof (cases "h > endHeight e")
    case True
    then have "subsidy_scan p h es =
        era_subsidy h es + (if es \<noteq> [] \<and> h = EmissionEndHeight p then emissionClosingDustSat p else 0)"
      using "2.IH" "2.prems" by (auto split: if_splits)
    then show ?thesis
      using True "2.prems"(3) by (cases es) auto
  next
    case False
    then show ?thesis using "2.prems" by (auto simp: Let_def split: if_splits)
  qed
qed simp

section \<open>The supply\<close>

lemma GetBlockSubsidy_eq:
  assumes "EmissionTableWellFormed (emissionTable p) EMISSION_START_HEIGHT"
    and "EMISSION_START_HEIGHT \<le> h"
  shows "GetBlockSubsidy h p =
    era_subsidy h (emissionTable p) + (if h = EmissionEndHeight p then emissionClosingDustSat p else 0)"
proof -
  from assms have ok: "EmissionTableRowsOk EMISSION_START_HEIGHT (emissionTable p)"
    and ne: "emissionTable p \<noteq> []"
    by (auto simp: EmissionTableWellFormed_def split: if_splits)
  from subsidy_scan_eq [OF ok assms(2), of p] show ?thesis
    using assms(2) ne by (simp add: GetBlockSubsidy_def EmissionEndHeight_def)
qed

lemma supply_at_from_start:
  "0 \<le> n \<Longrightarrow> supply_at n p = (\<Sum>h\<in>{EMISSION_START_HEIGHT..n}. GetBlockSubsidy h p)"
proof -
  assume "0 \<le> n"
  then have "{0..n} = insert 0 {1..n}" by auto
  then show ?thesis by (simp add: supply_at_def GetBlockSubsidy_def EMISSION_START_HEIGHT_def)
qed

lemma supply_mono:
  assumes "EmissionTableWellFormed (emissionTable p) EMISSION_START_HEIGHT"
    and "0 \<le> emissionClosingDustSat p" and "m \<le> n"
  shows "supply_at m p \<le> supply_at n p"
  unfolding supply_at_def
proof (rule sum_mono2)
  fix h assume "h \<in> {0..n} - {0..m}"
  from assms(1) have "EmissionTableRowsOk EMISSION_START_HEIGHT (emissionTable p)"
    by (auto simp: EmissionTableWellFormed_def split: if_splits)
  then have "0 \<le> era_subsidy h (emissionTable p)" by (rule era_subsidy_nonneg)
  then show "0 \<le> GetBlockSubsidy h p"
    using GetBlockSubsidy_eq [OF assms(1), of h] assms(2)
    by (cases "EMISSION_START_HEIGHT \<le> h") (auto simp: GetBlockSubsidy_def)
qed (use assms(3) in auto)

text \<open>Once the last subsidy block is mined the sum of all block subsidies is the table's
  total plus the closing remainder, and no later block adds anything.\<close>

lemma supply_closed_form:
  assumes wf: "EmissionTableWellFormed (emissionTable p) EMISSION_START_HEIGHT"
    and n: "EmissionEndHeight p \<le> n"
  shows "supply_at n p = EmissionTableTotalSat (emissionTable p) + emissionClosingDustSat p"
proof -
  let ?t = "emissionTable p" and ?s = EMISSION_START_HEIGHT and ?e = "EmissionEndHeight p"
  from wf have ok: "EmissionTableRowsOk ?s ?t" and ne: "?t \<noteq> []"
    by (auto simp: EmissionTableWellFormed_def split: if_splits)
  have e: "?e = table_end ?s ?t" by (simp add: EmissionEndHeight_def)
  have se: "?s \<le> ?e"
    using rows_ok_nonempty_end [of ?s "hd ?t" "tl ?t"] ok ne
    by (cases ?t) (auto simp: e split: if_splits)
  have "supply_at n p = (\<Sum>h\<in>{?s..n}. GetBlockSubsidy h p)"
    using se n by (intro supply_at_from_start) (simp add: EMISSION_START_HEIGHT_def)
  also have "\<dots> = (\<Sum>h\<in>{?s..n}. era_subsidy h ?t + (if h = ?e then emissionClosingDustSat p else 0))"
    by (rule sum.cong) (auto simp: GetBlockSubsidy_eq [OF wf])
  also have "\<dots> = (\<Sum>h\<in>{?s..n}. era_subsidy h ?t) + emissionClosingDustSat p"
    using se n by (simp add: sum.distrib)
  also have "(\<Sum>h\<in>{?s..n}. era_subsidy h ?t) = (\<Sum>h\<in>{?s..?e}. era_subsidy h ?t)"
    by (rule sum.mono_neutral_right) (use n era_subsidy_past_end [OF ok] in \<open>auto simp: e\<close>)
  also have "\<dots> = EmissionTableTotalSat ?t"
    using sum_era_subsidy [OF ok] by (simp add: e)
  finally show ?thesis .
qed

section \<open>Mainnet\<close>

lemma mainnet_table_ok: "EmissionTableWellFormed EMISSION_TABLE EMISSION_START_HEIGHT"
  by (simp add: EmissionTableWellFormed_def EMISSION_TABLE_def const_defs)

lemma mainnet_table_total:
  "EmissionTableTotalSat EMISSION_TABLE + EMISSION_CLOSING_DUST_SAT = MAX_MONEY"
  by (simp add: EMISSION_TABLE_def const_defs)

lemma mainnet_end: "EmissionEndHeight CMainParams_consensus = 35375353"
  by (simp add: EmissionEndHeight_def EMISSION_TABLE_def)

lemma mainnet_supply_final:
  assumes "35375353 \<le> n"
  shows "supply_at n CMainParams_consensus = MAX_MONEY"
proof -
  have "supply_at n CMainParams_consensus = EmissionTableTotalSat EMISSION_TABLE + EMISSION_CLOSING_DUST_SAT"
    using supply_closed_form [of CMainParams_consensus n] assms
    by (simp add: mainnet_table_ok mainnet_end)
  then show ?thesis by (simp only: mainnet_table_total)
qed

text \<open>C3. The cap: at no height \<open>n\<close> have the blocks of mainnet minted more than
  \<^verbatim>\<open>MAX_MONEY\<close> (100,000,000 XID), and from the last subsidy block 35,375,353 on they have
  minted exactly that, to the satoshi.\<close>

theorem mainnet_supply_cap:
  "supply_at n CMainParams_consensus \<le> MAX_MONEY \<and>
   supply_at (35375353 + int k) CMainParams_consensus = MAX_MONEY"
proof
  let ?M = CMainParams_consensus
  have "supply_at n ?M \<le> supply_at (max n 35375353) ?M"
    by (rule supply_mono) (simp_all add: mainnet_table_ok EMISSION_CLOSING_DUST_SAT_def)
  also have "\<dots> = MAX_MONEY" by (rule mainnet_supply_final) simp
  finally show "supply_at n ?M \<le> MAX_MONEY" .
  show "supply_at (35375353 + int k) ?M = MAX_MONEY" by (rule mainnet_supply_final) simp
qed

end
