(* ===== verification/Levy.thy ===== *)
theory Levy
  imports Params
begin

text \<open>
  The settlement levy (\<^verbatim>\<open>src/consensus/levy.h\<close>): the minimum fee as a function of the
  value moved, its wallet-side inverse, and the schedule of
  \<^verbatim>\<open>Consensus::Params::SettlementLevyAt\<close>.  The lemmas relate the split arithmetic of
  the code to exact rounding, show that no intermediate value overflows an
  \<^verbatim>\<open>int64_t\<close>, and that a soft-fork-only schedule never lowers the minimum.
\<close>

definition LEVY_DENOMINATOR :: int where
  [const_defs]: "LEVY_DENOMINATOR = 10000"

definition SettlementLevyUncapped :: "CAmount \<Rightarrow> int \<Rightarrow> CAmount" where
  "SettlementLevyUncapped value_out levy_bp =
     (if levy_bp \<le> 0 \<or> value_out \<le> 0 then 0
      else let whole = c_div value_out LEVY_DENOMINATOR;
               rest = c_mod value_out LEVY_DENOMINATOR
           in whole * levy_bp + c_div (rest * levy_bp + LEVY_DENOMINATOR - 1) LEVY_DENOMINATOR)"

definition SettlementLevy :: "CAmount \<Rightarrow> SettlementLevyRule \<Rightarrow> CAmount" where
  "SettlementLevy value_out rule = min (SettlementLevyUncapped value_out (bp rule)) (capSat rule)"

definition SettlementLevyFromInputs :: "CAmount \<Rightarrow> SettlementLevyRule \<Rightarrow> CAmount" where
  "SettlementLevyFromInputs value_in rule =
     (if bp rule \<le> 0 \<or> value_in \<le> 0 then 0
      else let d = LEVY_DENOMINATOR + bp rule;
               whole = c_div value_in d;
               rest = c_mod value_in d;
               fee = whole * bp rule + c_div (rest * bp rule + d - 1) d
           in min fee (capSat rule))"

definition SETTLEMENT_LEVY_REFERENCE_RULE :: SettlementLevyRule where
  "SETTLEMENT_LEVY_REFERENCE_RULE =
     \<lparr>levyStartHeight = 0, bp = SETTLEMENT_LEVY_BP, capSat = SETTLEMENT_LEVY_CAP_SAT\<rparr>"

section \<open>Rounding up by splitting at the denominator\<close>

text \<open>\<open>ceil_div a d\<close> is the least integer whose \<open>d\<close>-fold is at least \<open>a\<close>.\<close>

definition ceil_div :: "int \<Rightarrow> int \<Rightarrow> int" where
  "ceil_div a d = (a + d - 1) div d"

lemma less_int_div_iff: "0 < d \<Longrightarrow> (x :: int) div d < k \<longleftrightarrow> x < k * d"
proof -
  assume d: "0 < d"
  have "k \<le> x div d \<longleftrightarrow> k * d \<le> x"
  proof
    assume "k \<le> x div d"
    then have "k * d \<le> x div d * d" using d by (simp add: mult_right_mono)
    also have "\<dots> \<le> x" using d div_mult_mod_eq [of x d] pos_mod_sign [of d x] by linarith
    finally show "k * d \<le> x" .
  next
    assume "k * d \<le> x"
    then have "k * d div d \<le> x div d" using d by (intro zdiv_mono1) auto
    then show "k \<le> x div d" using d by simp
  qed
  then show ?thesis by linarith
qed

lemma ceil_div_le_iff: "0 < d \<Longrightarrow> ceil_div a d \<le> f \<longleftrightarrow> a \<le> f * d"
proof -
  assume d: "0 < d"
  have "ceil_div a d \<le> f \<longleftrightarrow> (a + d - 1) div d < f + 1"
    by (simp add: ceil_div_def)
  also have "\<dots> \<longleftrightarrow> a + d - 1 < (f + 1) * d"
    using d by (rule less_int_div_iff)
  also have "\<dots> \<longleftrightarrow> a \<le> f * d" by (auto simp: algebra_simps)
  finally show ?thesis .
qed

lemma less_ceil_div_iff: "0 < d \<Longrightarrow> f < ceil_div a d \<longleftrightarrow> f * d < a"
  using ceil_div_le_iff [of d a f] by linarith

lemma ceil_div_mono: "0 < d \<Longrightarrow> a \<le> b \<Longrightarrow> ceil_div a d \<le> ceil_div b d"
  by (simp add: ceil_div_def zdiv_mono1)

lemma split_ceil_div:
  assumes "0 < d" "0 \<le> v" "0 \<le> (r :: int)"
  shows "c_div v d * r + c_div (c_mod v d * r + d - 1) d = ceil_div (v * r) d"
proof -
  define q m where "q = v div d" and "m = v mod d"
  have v: "v = d * q + m" by (simp add: q_def m_def)
  have "v * r + d - 1 = (m * r + d - 1) + (q * r) * d"
    by (simp add: v algebra_simps)
  then have "v * r + d - 1 = (v mod d * r + d - 1) + (v div d * r) * d"
    by (simp only: q_def m_def)
  then have "(v * r + d - 1) div d = v div d * r + (v mod d * r + d - 1) div d"
    using assms(1) by (simp only: div_mult_self1 [of d] less_imp_neq [symmetric] not_False_eq_True)
  moreover have "0 \<le> v mod d * r + d - 1"
    using assms mult_nonneg_nonneg [of "v mod d" r] pos_mod_sign [of d v] by linarith
  ultimately show ?thesis
    using assms by (simp add: c_div_nonneg c_mod_nonneg ceil_div_def)
qed

lemma SettlementLevyUncapped_eq:
  "0 \<le> v \<Longrightarrow> 0 \<le> r \<Longrightarrow> SettlementLevyUncapped v r = ceil_div (v * r) LEVY_DENOMINATOR"
proof (cases "r = 0 \<or> v = 0")
  case True
  then show ?thesis by (auto simp: SettlementLevyUncapped_def ceil_div_def LEVY_DENOMINATOR_def)
next
  case False
  assume "0 \<le> v" "0 \<le> r"
  with False show ?thesis
    using split_ceil_div [of LEVY_DENOMINATOR v r]
    by (auto simp: SettlementLevyUncapped_def Let_def LEVY_DENOMINATOR_def)
qed

lemma SettlementLevyFromInputs_eq:
  assumes "0 \<le> v" "0 \<le> bp rule" "0 \<le> capSat rule"
  shows "SettlementLevyFromInputs v rule =
    min (ceil_div (v * bp rule) (LEVY_DENOMINATOR + bp rule)) (capSat rule)"
proof (cases "bp rule = 0 \<or> v = 0")
  case True
  then show ?thesis
    using assms by (auto simp: SettlementLevyFromInputs_def ceil_div_def LEVY_DENOMINATOR_def)
next
  case False
  with assms show ?thesis
    using split_ceil_div [of "LEVY_DENOMINATOR + bp rule" v "bp rule"]
    by (auto simp: SettlementLevyFromInputs_def Let_def LEVY_DENOMINATOR_def)
qed

text \<open>C4. The levy is the exact proportional fee rounded up, and its arithmetic is free of
  overflow: for every value an amount check admits and every rate up to 100\%, the result
  is the least number of satoshi \<open>f\<close> with \<open>value * bp \<le> f * 10000\<close>, and each
  intermediate product and sum of the code fits an \<^verbatim>\<open>int64_t\<close>.\<close>

theorem levy_exact_and_overflow_free:
  assumes v: "MoneyRange v" and r: "0 \<le> r" "r \<le> SETTLEMENT_LEVY_BP_MAX"
  shows "(\<forall>f. SettlementLevyUncapped v r \<le> f \<longleftrightarrow> v * r \<le> f * LEVY_DENOMINATOR)
    \<and> SettlementLevyUncapped v r \<le> MAX_MONEY
    \<and> int64_ok (c_div v LEVY_DENOMINATOR * r)
    \<and> int64_ok (c_mod v LEVY_DENOMINATOR * r + LEVY_DENOMINATOR - 1)
    \<and> int64_ok (SettlementLevyUncapped v r)"
proof -
  from v have v0: "0 \<le> v" and vm: "v \<le> 10000000000000000"
    by (simp_all add: MoneyRange_def const_defs)
  have r1: "r \<le> 10000" using r by (simp add: const_defs)
  have spec: "SettlementLevyUncapped v r \<le> f \<longleftrightarrow> v * r \<le> f * LEVY_DENOMINATOR" for f
    using v0 r(1) by (simp add: SettlementLevyUncapped_eq ceil_div_le_iff LEVY_DENOMINATOR_def)
  have prod: "v * r \<le> 10000000000000000 * 10000"
    using v0 vm r(1) r1 by (intro mult_mono) auto
  then have cap: "SettlementLevyUncapped v r \<le> MAX_MONEY"
    by (simp add: spec const_defs LEVY_DENOMINATOR_def)
  have whole: "c_div v 10000 = v div 10000" and rest: "c_mod v 10000 = v mod 10000"
    using v0 by (simp_all add: c_div_nonneg c_mod_nonneg)
  have nn: "0 \<le> SettlementLevyUncapped v r"
    using v0 r(1) by (simp add: SettlementLevyUncapped_eq ceil_div_def LEVY_DENOMINATOR_def
        pos_imp_zdiv_nonneg_iff add_nonneg_nonneg)
  have w: "v div 10000 * r \<le> 1000000000000 * 10000" "0 \<le> v div 10000 * r"
    using mult_mono [of "v div 10000" 1000000000000 r 10000] v0 vm r(1) r1 by auto
  have m: "v mod 10000 * r \<le> 9999 * 10000" "0 \<le> v mod 10000 * r"
    using mult_mono [of "v mod 10000" 9999 r 10000] r(1) r1 by auto
  have fit: "int64_ok (SettlementLevyUncapped v r)"
    using cap nn by (simp add: int64_ok_def const_defs)
  show ?thesis
    using spec cap fit w m by (simp add: int64_ok_def LEVY_DENOMINATOR_def whole rest)
qed

theorem levy_exact_and_overflow_free_witness:
  "SettlementLevyUncapped MAX_MONEY SETTLEMENT_LEVY_BP_MAX \<le> MAX_MONEY
    \<and> MAX_MONEY * SETTLEMENT_LEVY_BP_MAX
        \<le> SettlementLevyUncapped MAX_MONEY SETTLEMENT_LEVY_BP_MAX * LEVY_DENOMINATOR"
proof -
  have "MoneyRange MAX_MONEY" "0 \<le> SETTLEMENT_LEVY_BP_MAX"
    by (simp_all add: MoneyRange_def const_defs)
  from levy_exact_and_overflow_free [OF this order_refl] show ?thesis by blast
qed

text \<open>C5. The wallet helper is the exact inverse of the consensus rule: the fee computed from
  the inputs covers the levy on what is left for the outputs, and no smaller fee does.\<close>

theorem levy_from_inputs_least:
  assumes "0 \<le> v" "0 \<le> bp rule" "0 \<le> capSat rule" and "0 \<le> f" "f \<le> v"
  shows "SettlementLevyFromInputs v rule \<le> f \<longleftrightarrow> SettlementLevy (v - f) rule \<le> f"
proof -
  let ?r = "bp rule" and ?c = "capSat rule"
  have d: "0 < LEVY_DENOMINATOR + ?r" "0 < LEVY_DENOMINATOR"
    using assms(2) by (simp_all add: LEVY_DENOMINATOR_def)
  have "SettlementLevyFromInputs v rule \<le> f \<longleftrightarrow> v * ?r \<le> f * (LEVY_DENOMINATOR + ?r) \<or> ?c \<le> f"
    using assms d by (simp add: SettlementLevyFromInputs_eq ceil_div_le_iff min_le_iff_disj)
  also have "v * ?r \<le> f * (LEVY_DENOMINATOR + ?r) \<longleftrightarrow> (v - f) * ?r \<le> f * LEVY_DENOMINATOR"
    by (simp add: algebra_simps)
  also have "(\<dots> \<or> ?c \<le> f) \<longleftrightarrow> SettlementLevy (v - f) rule \<le> f"
    using assms d by (simp add: SettlementLevy_def SettlementLevyUncapped_eq ceil_div_le_iff min_le_iff_disj)
  finally show ?thesis .
qed

theorem levy_from_inputs_least_witness:
  "SettlementLevyFromInputs 10005 SETTLEMENT_LEVY_REFERENCE_RULE \<le> 5
    \<and> SettlementLevy (10005 - 5) SETTLEMENT_LEVY_REFERENCE_RULE \<le> 5"
proof -
  have "SettlementLevy (10005 - 5) SETTLEMENT_LEVY_REFERENCE_RULE \<le> 5"
    by (simp add: SettlementLevy_def SettlementLevyUncapped_eq ceil_div_def
        SETTLEMENT_LEVY_REFERENCE_RULE_def const_defs)
  then show ?thesis
    using levy_from_inputs_least [of 10005 SETTLEMENT_LEVY_REFERENCE_RULE 5]
    by (simp add: SETTLEMENT_LEVY_REFERENCE_RULE_def const_defs)
qed

section \<open>The schedule\<close>

lemma SettlementLevy_mono:
  "0 \<le> v \<Longrightarrow> 0 \<le> bp r \<Longrightarrow> bp r \<le> bp s \<Longrightarrow> capSat r \<le> capSat s
    \<Longrightarrow> SettlementLevy v r \<le> SettlementLevy v s"
proof -
  assume a: "0 \<le> v" "0 \<le> bp r" "bp r \<le> bp s" "capSat r \<le> capSat s"
  then have "SettlementLevyUncapped v (bp r) \<le> SettlementLevyUncapped v (bp s)"
    by (simp add: SettlementLevyUncapped_eq LEVY_DENOMINATOR_def ceil_div_mono mult_left_mono)
  with a(4) show ?thesis by (simp add: SettlementLevy_def min_le_iff_disj)
qed

lemma levy_scan_ge:
  assumes "LevyRowsOk (Some q) rs"
  shows "bp q \<le> bp (levy_scan h q rs) \<and> capSat q \<le> capSat (levy_scan h q rs)"
  using assms
proof (induction rs arbitrary: q)
  case (Cons r rs)
  then have "LevyRowsOk (Some r) rs" "bp q \<le> bp r" "capSat q \<le> capSat r"
    by (auto split: if_splits)
  then show ?case using Cons.IH [of r] by auto
qed simp

lemma levy_scan_mono:
  assumes "LevyRowsOk (Some q) rs" "h1 \<le> h2"
  shows "bp (levy_scan h1 q rs) \<le> bp (levy_scan h2 q rs)
    \<and> capSat (levy_scan h1 q rs) \<le> capSat (levy_scan h2 q rs)"
  using assms
proof (induction rs arbitrary: q)
  case (Cons r rs)
  then have ok: "LevyRowsOk (Some r) rs" "bp q \<le> bp r" "capSat q \<le> capSat r"
    by (auto split: if_splits)
  show ?case
  proof (cases "levyStartHeight r > h1")
    case True
    then show ?thesis using levy_scan_ge [OF Cons.prems(1), of h2] by auto
  next
    case False
    then show ?thesis using Cons.IH [OF ok(1) Cons.prems(2)] Cons.prems(2) by auto
  qed
qed simp

lemma schedule_head:
  assumes "SettlementLevyScheduleIsSoftForkOnly (settlementLevySchedule p)"
  obtains r rs where "settlementLevySchedule p = r # rs" "levyStartHeight r = 0"
    "0 \<le> bp r" "0 \<le> capSat r" "LevyRowsOk (Some r) rs"
  using assms by (cases "settlementLevySchedule p")
    (auto simp: SettlementLevyScheduleIsSoftForkOnly_def split: if_splits)

text \<open>C6. The fork asymmetry: when the schedule passes
  \<^verbatim>\<open>SettlementLevyScheduleIsSoftForkOnly\<close>, the minimum fee of a transaction never falls as
  the height grows, so a transaction that pays enough at a later height paid enough at
  every earlier one.\<close>

theorem soft_fork_schedule_monotone:
  assumes "SettlementLevyScheduleIsSoftForkOnly (settlementLevySchedule p)"
    and "0 \<le> h1" "h1 \<le> h2" "0 \<le> v"
  shows "SettlementLevy v (SettlementLevyAt p h1) \<le> SettlementLevy v (SettlementLevyAt p h2)"
proof -
  from assms(1) obtain r rs where s: "settlementLevySchedule p = r # rs" "levyStartHeight r = 0"
    "0 \<le> bp r" "0 \<le> capSat r" and ok: "LevyRowsOk (Some r) rs"
    by (rule schedule_head)
  have at: "SettlementLevyAt p h = levy_scan h r rs" if "0 \<le> h" for h
    using s that by (simp add: SettlementLevyAt_def)
  show ?thesis
    using SettlementLevy_mono [OF assms(4)] levy_scan_mono [OF ok assms(3)]
      levy_scan_ge [OF ok, of h1] s(3) assms(2,3) by (simp add: at)
qed

theorem soft_fork_schedule_monotone_witness:
  "SettlementLevy 20000 (SettlementLevyAt CMainParams_consensus 0)
    \<le> SettlementLevy 20000 (SettlementLevyAt CMainParams_consensus 5)"
proof -
  have "SettlementLevyScheduleIsSoftForkOnly (settlementLevySchedule CMainParams_consensus)"
    by (simp add: mainnet_levy_schedule SettlementLevyScheduleIsSoftForkOnly_def
        SETTLEMENT_LEVY_GENESIS_RULE_def const_defs)
  from soft_fork_schedule_monotone [OF this, of 0 5 20000] show ?thesis by simp
qed

end
