(* ===== verification/Arith_Uint256.thy ===== *)
theory Arith_Uint256
  imports Params
begin

text \<open>
  The 256-bit arithmetic of \<^verbatim>\<open>src/arith_uint256.h\<close> and \<^verbatim>\<open>src/arith_uint256.cpp\<close>.
  A \<^verbatim>\<open>base_uint<BITS>\<close> is its array \<^verbatim>\<open>pn\<close> of 32-bit digits, least significant
  first; its width is the length of the list, so the theorems hold at every
  \<^verbatim>\<open>BITS\<close>.  Each operator is the digit loop of the source on machine words.  The
  abstraction \<open>uval\<close> reads the digits as a natural number, and the lemmas show that
  every operator computes the arithmetic of \<open>nat\<close> modulo \<open>2 ^ BITS\<close>.
\<close>

unbundle bit_operations_syntax

type_synonym limbs = "u32 list"

definition WIDTH :: nat where
  [const_defs]: "WIDTH = 8"

section \<open>The operators\<close>

definition base_uint_of_u64 :: "u64 \<Rightarrow> limbs" where
  "base_uint_of_u64 b = [ucast b, ucast (drop_bit 32 b)] @ replicate (WIDTH - 2) 0"

definition uint_not :: "limbs \<Rightarrow> limbs" where
  "uint_not pn = map NOT pn"

text \<open>Prefix \<^verbatim>\<open>++\<close>: the loop carries on while the incremented digit is zero.\<close>

fun uint_inc :: "limbs \<Rightarrow> limbs" where
  "uint_inc [] = []"
| "uint_inc (x # xs) = (if x + 1 = 0 then (x + 1) # uint_inc xs else (x + 1) # xs)"

definition uint_neg :: "limbs \<Rightarrow> limbs" where
  "uint_neg pn = uint_inc (map NOT pn)"

fun add_carry :: "u64 \<Rightarrow> limbs \<Rightarrow> limbs \<Rightarrow> limbs" where
  "add_carry carry (x # xs) (y # ys) =
     (let n = carry + ucast x + ucast y
      in ucast (n AND 0xffffffff) # add_carry (drop_bit 32 n) xs ys)"
| "add_carry carry _ _ = []"

definition uint_add :: "limbs \<Rightarrow> limbs \<Rightarrow> limbs" where
  "uint_add a b = add_carry 0 a b"

definition uint_sub :: "limbs \<Rightarrow> limbs \<Rightarrow> limbs" where
  "uint_sub a b = uint_add a (uint_neg b)"

text \<open>The two shifts write each digit of the operand into at most two digits of a zeroed
  result, in the order of the loop.\<close>

definition shl_step :: "limbs \<Rightarrow> nat \<Rightarrow> nat \<Rightarrow> nat \<Rightarrow> limbs \<Rightarrow> limbs" where
  "shl_step a k shift i pn =
     (let pn' = (if i + k + 1 < length a \<and> shift \<noteq> 0
                 then pn[i + k + 1 := pn ! (i + k + 1) OR drop_bit (32 - shift) (a ! i)] else pn)
      in if i + k < length a then pn'[i + k := pn' ! (i + k) OR push_bit shift (a ! i)] else pn')"

definition uint_shl :: "limbs \<Rightarrow> nat \<Rightarrow> limbs" where
  "uint_shl a shift =
     fold (shl_step a (shift div 32) (shift mod 32)) [0..<length a] (replicate (length a) 0)"

definition shr_step :: "limbs \<Rightarrow> nat \<Rightarrow> nat \<Rightarrow> nat \<Rightarrow> limbs \<Rightarrow> limbs" where
  "shr_step a k shift i pn =
     (let pn' = (if k + 1 \<le> i \<and> shift \<noteq> 0
                 then pn[i - k - 1 := pn ! (i - k - 1) OR push_bit (32 - shift) (a ! i)] else pn)
      in if k \<le> i then pn'[i - k := pn' ! (i - k) OR drop_bit shift (a ! i)] else pn')"

definition uint_shr :: "limbs \<Rightarrow> nat \<Rightarrow> limbs" where
  "uint_shr a shift =
     fold (shr_step a (shift div 32) (shift mod 32)) [0..<length a] (replicate (length a) 0)"

fun mul32_carry :: "u64 \<Rightarrow> u32 \<Rightarrow> limbs \<Rightarrow> limbs" where
  "mul32_carry carry b32 [] = []"
| "mul32_carry carry b32 (x # xs) =
     (let n = carry + ucast b32 * ucast x
      in ucast (n AND 0xffffffff) # mul32_carry (drop_bit 32 n) b32 xs)"

definition uint_mul32 :: "limbs \<Rightarrow> u32 \<Rightarrow> limbs" where
  "uint_mul32 pn b32 = mul32_carry 0 b32 pn"

text \<open>One round \<open>j\<close> of the schoolbook product adds \<open>pn[j] * b\<close> to the digits
  \<open>a[j], a[j + 1], \<dots>\<close> of the result and drops what passes the last digit.\<close>

fun mul_row :: "u64 \<Rightarrow> u32 \<Rightarrow> limbs \<Rightarrow> limbs \<Rightarrow> limbs" where
  "mul_row carry pj (x # xs) (b # bs) =
     (let n = carry + ucast x + ucast pj * ucast b
      in ucast (n AND 0xffffffff) # mul_row (drop_bit 32 n) pj xs bs)"
| "mul_row carry pj _ _ = []"

definition uint_mul :: "limbs \<Rightarrow> limbs \<Rightarrow> limbs" where
  "uint_mul pn b =
     fold (\<lambda>j a. take j a @ mul_row 0 (pn ! j) (drop j a) b) [0..<length pn] (replicate (length pn) 0)"

text \<open>\<^verbatim>\<open>CompareTo\<close> walks from the most significant digit down.\<close>

fun cmp_from_top :: "limbs \<Rightarrow> limbs \<Rightarrow> int" where
  "cmp_from_top (x # xs) (y # ys) =
     (if x < y then - 1 else if x > y then 1 else cmp_from_top xs ys)"
| "cmp_from_top _ _ = 0"

definition CompareTo :: "limbs \<Rightarrow> limbs \<Rightarrow> int" where
  "CompareTo a b = cmp_from_top (rev a) (rev b)"

definition uint_gt :: "limbs \<Rightarrow> limbs \<Rightarrow> bool" where
  "uint_gt a b \<longleftrightarrow> CompareTo a b > 0"

definition uint_ge :: "limbs \<Rightarrow> limbs \<Rightarrow> bool" where
  "uint_ge a b \<longleftrightarrow> CompareTo a b \<ge> 0"

definition EqualTo :: "limbs \<Rightarrow> u64 \<Rightarrow> bool" where
  "EqualTo pn b =
     (if list_ex (\<lambda>x. x \<noteq> 0) (drop 2 pn) then False
      else if (ucast (pn ! 1) :: u64) \<noteq> drop_bit 32 b then False
      else if (ucast (pn ! 0) :: u64) \<noteq> b AND 0xffffffff then False
      else True)"

text \<open>\<^verbatim>\<open>bits()\<close>: the topmost nonzero digit, then its topmost set bit.\<close>

fun top_bit :: "u32 \<Rightarrow> nat \<Rightarrow> nat" where
  "top_bit x 0 = 1"
| "top_bit x (Suc nbits) =
     (if x AND push_bit (Suc nbits) 1 \<noteq> 0 then Suc nbits + 1 else top_bit x nbits)"

fun bits_from_top :: "limbs \<Rightarrow> nat" where
  "bits_from_top [] = 0"
| "bits_from_top (x # xs) =
     (if x \<noteq> 0 then 32 * length xs + top_bit x 31 else bits_from_top xs)"

definition uint_bits :: "limbs \<Rightarrow> nat" where
  "uint_bits pn = bits_from_top (rev pn)"

definition GetLow64 :: "limbs \<Rightarrow> u64" where
  "GetLow64 pn = ucast (pn ! 0) OR push_bit 32 (ucast (pn ! 1))"

text \<open>Long division: \<open>div_loop n num d q\<close> runs the remaining \<open>n\<close> rounds, the first with
  \<open>shift = n - 1\<close>.  Dividing by zero throws \<^verbatim>\<open>uint_error\<close>, here \<open>None\<close>.\<close>

fun div_loop :: "nat \<Rightarrow> limbs \<Rightarrow> limbs \<Rightarrow> limbs \<Rightarrow> limbs" where
  "div_loop 0 num d q = q"
| "div_loop (Suc shift) num d q =
     (if uint_ge num d
      then div_loop shift (uint_sub num d) (uint_shr d 1)
             (q[shift div 32 := q ! (shift div 32) OR push_bit (shift mod 32) 1])
      else div_loop shift num (uint_shr d 1) q)"

definition uint_div :: "limbs \<Rightarrow> limbs \<Rightarrow> limbs option" where
  "uint_div num d =
     (let num_bits = uint_bits num; div_bits = uint_bits d; zero = replicate (length num) 0
      in if div_bits = 0 then None
         else if div_bits > num_bits then Some zero
         else let shift = num_bits - div_bits
              in Some (div_loop (Suc shift) num (uint_shl d shift) zero))"

section \<open>Compact encoding and blobs\<close>

text \<open>\<^verbatim>\<open>SetCompact\<close> returns the value and the two flags of its out parameters.\<close>

definition SetCompact :: "u32 \<Rightarrow> limbs \<times> bool \<times> bool" where
  "SetCompact nCompact =
     (let nSize = unat (drop_bit 24 nCompact);
          nWord0 = nCompact AND 0x007fffff;
          nWord = (if nSize \<le> 3 then drop_bit (8 * (3 - nSize)) nWord0 else nWord0);
          v = (if nSize \<le> 3 then base_uint_of_u64 (ucast nWord)
               else uint_shl (base_uint_of_u64 (ucast nWord)) (8 * (nSize - 3)));
          negative = (nWord \<noteq> 0 \<and> nCompact AND 0x00800000 \<noteq> 0);
          overflow = (nWord \<noteq> 0 \<and> (nSize > 34 \<or> (nWord > 0xff \<and> nSize > 33)
                                        \<or> (nWord > 0xffff \<and> nSize > 32)))
      in (v, negative, overflow))"

definition CeilDiv :: "nat \<Rightarrow> nat \<Rightarrow> nat" where
  "CeilDiv dividend divisor = dividend div divisor + (if dividend mod divisor \<noteq> 0 then 1 else 0)"

text \<open>\<^verbatim>\<open>GetCompact\<close> with its default argument \<^verbatim>\<open>fNegative = false\<close>; its two assertions
  are the lemma \<open>GetCompact_assertions\<close>.\<close>

definition GetCompact_parts :: "limbs \<Rightarrow> nat \<times> u32" where
  "GetCompact_parts pn =
     (let nSize = CeilDiv (uint_bits pn) 8;
          nCompact = (if nSize \<le> 3 then (ucast (push_bit (8 * (3 - nSize)) (GetLow64 pn)) :: u32)
                      else ucast (GetLow64 (uint_shr pn (8 * (nSize - 3)))))
      in if nCompact AND 0x00800000 \<noteq> 0 then (nSize + 1, drop_bit 8 nCompact) else (nSize, nCompact))"

definition GetCompact :: "limbs \<Rightarrow> u32" where
  "GetCompact pn = (case GetCompact_parts pn of (nSize, nCompact) \<Rightarrow>
     nCompact OR push_bit 24 (of_nat nSize))"

definition UintToArith256 :: "uint256 \<Rightarrow> limbs" where
  "UintToArith256 a = map (\<lambda>x. of_nat (from_le (take 4 (drop (x * 4) a)))) [0..<WIDTH]"

definition ArithToUint256 :: "limbs \<Rightarrow> uint256" where
  "ArithToUint256 a = concat (map (\<lambda>x. to_le 4 (unat (a ! x))) [0..<WIDTH])"

section \<open>Digits as a number\<close>

primrec uval :: "limbs \<Rightarrow> nat" where
  "uval [] = 0"
| "uval (x # xs) = unat x + 2 ^ 32 * uval xs"

lemma unat_u32_less: "unat (x :: u32) < 4294967296"
  by (rule unsigned_less [of x, simplified])

lemma uval_bound: "uval xs < 2 ^ (32 * length xs)"
proof (induction xs)
  case (Cons x xs)
  have "uval (x # xs) < 2 ^ 32 * Suc (uval xs)"
    using unat_u32_less [of x] by simp
  also have "\<dots> \<le> 2 ^ 32 * 2 ^ (32 * length xs)"
    using Cons.IH by (intro mult_le_mono2) simp
  finally show ?case by (simp add: power_add)
qed simp

lemma uval_append: "uval (xs @ ys) = uval xs + 2 ^ (32 * length xs) * uval ys"
  by (induction xs) (simp_all add: power_add algebra_simps)

lemma uval_replicate_0 [simp]: "uval (replicate n 0) = 0"
  by (induction n) auto

lemma uval_Cons_mod: "uval (x # xs) mod 2 ^ 32 = unat x"
  and uval_Cons_div: "uval (x # xs) div 2 ^ 32 = uval xs"
  using unat_u32_less [of x] by simp_all

lemma uval_inj: "length xs = length ys \<Longrightarrow> uval xs = uval ys \<Longrightarrow> xs = ys"
proof (induction xs ys rule: list_induct2)
  case (Cons x xs y ys)
  then show ?case by (metis uval_Cons_mod uval_Cons_div word_unat_eq_iff)
qed simp

lemma bit_uval: "bit (uval xs) m \<longleftrightarrow> m < 32 * length xs \<and> bit (xs ! (m div 32)) (m mod 32)"
proof (induction xs arbitrary: m)
  case (Cons x xs)
  show ?case
  proof (cases "m < 32")
    case True
    have "bit (uval (x # xs)) m \<longleftrightarrow> bit (take_bit 32 (uval (x # xs))) m"
      using True by (simp add: bit_take_bit_iff)
    also have "\<dots> \<longleftrightarrow> bit (unat x) m"
      by (simp only: take_bit_eq_mod uval_Cons_mod)
    finally show ?thesis using True by (simp add: bit_unsigned_iff possible_bit_def)
  next
    case False
    have "bit (uval (x # xs)) m \<longleftrightarrow> bit (drop_bit 32 (uval (x # xs))) (m - 32)"
      using False by (simp add: bit_drop_bit_eq)
    also have "\<dots> \<longleftrightarrow> bit (uval xs) (m - 32)"
      by (simp only: drop_bit_eq_div uval_Cons_div)
    finally show ?thesis using False Cons.IH [of "m - 32"]
      by (auto simp: le_div_geq le_mod_geq)
  qed
qed simp

lemma mask_u64: "(n :: u64) AND 0xffffffff = take_bit 32 n"
  by (simp add: take_bit_eq_mask mask_eq_exp_minus_1)

lemma limb_lo: "unat (ucast ((n :: u64) AND 0xffffffff) :: u32) = unat n mod 2 ^ 32"
  by (simp only: mask_u64 unsigned_ucast_eq unsigned_take_bit_eq take_bit_take_bit)
     (simp add: take_bit_eq_mod)

lemma limb_hi: "unat (drop_bit 32 (n :: u64)) = unat n div 2 ^ 32"
  by (simp only: unat_drop_bit_eq) (simp only: drop_bit_eq_div)

lemma unat_ucast_up: "unat (ucast (x :: u32) :: u64) = unat x"
  using unat_u32_less [of x] by (simp add: unsigned_ucast_eq take_bit_nat_eq_self)

section \<open>Addition and subtraction\<close>

lemma mod_pow32_step:
  fixes a :: nat
  shows "a mod 2 ^ 32 + 2 ^ 32 * ((a div 2 ^ 32 + r) mod 2 ^ k) = (a + 2 ^ 32 * r) mod 2 ^ (32 + k)"
proof -
  have "(a + 2 ^ 32 * r) mod 2 ^ (32 + k)
      = 2 ^ 32 * ((a + 2 ^ 32 * r) div 2 ^ 32 mod 2 ^ k) + (a + 2 ^ 32 * r) mod 2 ^ 32"
    by (simp only: power_add mod_mult2_eq)
  then show ?thesis by (simp add: div_mult_self2 add.commute)
qed

lemma uval_add_carry:
  "length xs = length ys \<Longrightarrow> unat c \<le> 1 \<Longrightarrow>
   uval (add_carry c xs ys) = (unat c + uval xs + uval ys) mod 2 ^ (32 * length xs)"
proof (induction xs ys arbitrary: c rule: list_induct2)
  case (Cons x xs y ys)
  let ?n = "c + ucast x + ucast y :: u64"
  have n: "unat ?n = unat c + unat x + unat y"
  proof -
    have "unat c + unat x < 2 ^ 64" "unat c + unat x + unat y < 2 ^ 64"
      using Cons.prems unat_u32_less [of x] unat_u32_less [of y] by simp_all
    then show ?thesis by (simp add: unat_word_ariths unat_ucast_up)
  qed
  have hi: "unat (drop_bit 32 ?n) \<le> 1"
    using Cons.prems unat_u32_less [of x] unat_u32_less [of y] unfolding limb_hi n by simp
  let ?N = "unat c + unat x + unat y"
  have "uval (add_carry (drop_bit 32 ?n) xs ys) =
      (?N div 2 ^ 32 + (uval xs + uval ys)) mod 2 ^ (32 * length xs)"
    using Cons.IH [OF hi] unfolding limb_hi n by (simp add: add.assoc)
  then have "uval (add_carry c (x # xs) (y # ys)) =
      ?N mod 2 ^ 32 + 2 ^ 32 * ((?N div 2 ^ 32 + (uval xs + uval ys)) mod 2 ^ (32 * length xs))"
    by (simp only: add_carry.simps Let_def uval.simps limb_lo n)
  also have "\<dots> = (?N + 2 ^ 32 * (uval xs + uval ys)) mod 2 ^ (32 + 32 * length xs)"
    by (rule mod_pow32_step)
  finally show ?case by (simp add: algebra_simps)
qed simp

lemma length_add_carry [simp]: "length xs = length ys \<Longrightarrow> length (add_carry c xs ys) = length xs"
  by (induction xs ys arbitrary: c rule: list_induct2) (auto simp: Let_def)

lemma length_uint_inc [simp]: "length (uint_inc xs) = length xs"
  by (induction xs) auto

lemma length_uint_not [simp]: "length (uint_not xs) = length xs"
  by (simp add: uint_not_def)

lemma length_uint_neg [simp]: "length (uint_neg xs) = length xs"
  by (simp add: uint_neg_def)

lemma length_uint_add [simp]: "length xs = length ys \<Longrightarrow> length (uint_add xs ys) = length xs"
  by (simp add: uint_add_def)

lemma length_uint_sub [simp]: "length xs = length ys \<Longrightarrow> length (uint_sub xs ys) = length xs"
  by (simp add: uint_sub_def)

lemma uval_add: "length xs = length ys \<Longrightarrow> uval (uint_add xs ys) = (uval xs + uval ys) mod 2 ^ (32 * length xs)"
  by (simp add: uint_add_def uval_add_carry)

lemma unat_NOT: "unat (NOT (x :: u32)) = 2 ^ 32 - 1 - unat x"
proof -
  have "NOT x = - 1 - x" by (simp add: not_eq_complement)
  then have "unat (NOT x) = unat (- 1 :: u32) - unat x"
    using unat_sub [of x "- 1"] by simp
  then show ?thesis by (simp add: unsigned_minus_1_eq_mask mask_eq_exp_minus_1)
qed

lemma mod_split_low:
  "(l :: nat) < 2 ^ a \<Longrightarrow> (l + 2 ^ a * r) mod 2 ^ (a + b) = l + 2 ^ a * (r mod 2 ^ b)"
  by (simp add: power_add mod_mult2_eq)

lemma uval_not: "uval (uint_not xs) = 2 ^ (32 * length xs) - 1 - uval xs"
  unfolding uint_not_def
proof (induction xs)
  case (Cons x xs)
  have "uval xs < 2 ^ (32 * length xs)" by (rule uval_bound)
  then obtain r where r: "2 ^ (32 * length xs) = uval xs + 1 + r"
    by (metis add.commute add.left_commute less_iff_Suc_add plus_1_eq_Suc)
  have "uval (map NOT (x # xs)) = (2 ^ 32 - 1 - unat x) + 2 ^ 32 * (2 ^ (32 * length xs) - 1 - uval xs)"
    using Cons.IH by (simp only: list.map uval.simps unat_NOT)
  also have "\<dots> = (2 ^ 32 - 1 - unat x) + 2 ^ 32 * r" by (simp add: r)
  also have "\<dots> = 2 ^ (32 + 32 * length xs) - 1 - (unat x + 2 ^ 32 * uval xs)"
    using unat_u32_less [of x] by (simp only: power_add r) simp
  finally show ?case by simp
qed simp

lemma uval_inc: "uval (uint_inc xs) = (uval xs + 1) mod 2 ^ (32 * length xs)"
proof (induction xs)
  case (Cons x xs)
  show ?case
  proof (cases "x + 1 = 0")
    case True
    then have "x = - 1" by (simp add: eq_neg_iff_add_eq_0)
    then have x: "unat x = 2 ^ 32 - 1"
      by (simp add: unsigned_minus_1_eq_mask mask_eq_exp_minus_1)
    have "uval (uint_inc (x # xs)) = 2 ^ 32 * ((uval xs + 1) mod 2 ^ (32 * length xs))"
      using True Cons.IH by simp
    also have "\<dots> = (2 ^ 32 * (uval xs + 1)) mod 2 ^ (32 + 32 * length xs)"
      by (simp only: power_add mult_mod_right)
    also have "2 ^ 32 * (uval xs + 1) = uval (x # xs) + 1"
      by (simp add: x)
    finally show ?thesis by simp
  next
    case False
    then have "unat (x + 1) = unat x + 1" 
      by (metis Suc_eq_plus1 add.commute unatSuc)
    then have "uval (uint_inc (x # xs)) = uval (x # xs) + 1" using False by simp
    moreover have "uval (uint_inc (x # xs)) < 2 ^ (32 * length (uint_inc (x # xs)))" by (rule uval_bound)
    ultimately show ?thesis by (metis length_uint_inc mod_less)
  qed
qed simp

lemma uval_neg: "uval (uint_neg xs) = (2 ^ (32 * length xs) - uval xs) mod 2 ^ (32 * length xs)"
proof -
  have "uval (uint_neg xs) = (2 ^ (32 * length xs) - 1 - uval xs + 1) mod 2 ^ (32 * length xs)"
    using uval_not [of xs] by (simp add: uint_neg_def uval_inc uint_not_def)
  then show ?thesis using uval_bound [of xs] by (simp add: Suc_diff_Suc)
qed

lemma uval_sub:
  assumes "length xs = length ys" "uval ys \<le> uval xs"
  shows "uval (uint_sub xs ys) = uval xs - uval ys"
proof -
  let ?M = "2 ^ (32 * length xs) :: nat"
  have "uval (uint_sub xs ys) = (uval xs + (?M - uval ys)) mod ?M"
    using assms(1) by (simp add: uint_sub_def uval_add uval_neg mod_add_right_eq)
  also have "uval xs + (?M - uval ys) = (uval xs - uval ys) + ?M"
    using assms uval_bound [of ys] by simp
  finally show ?thesis using uval_bound [of xs] by simp
qed

section \<open>Multiplication\<close>

lemma length_mul32_carry [simp]: "length (mul32_carry c b xs) = length xs"
  by (induction xs arbitrary: c) (auto simp: Let_def)

lemma length_uint_mul32 [simp]: "length (uint_mul32 xs b) = length xs"
  by (simp add: uint_mul32_def)

lemma fma_bound:
  assumes "c < 4294967296" "x < 4294967296" "p < 4294967296" "b < (4294967296 :: nat)"
  shows "c + x + p * b < 18446744073709551616"
proof -
  have "p * b \<le> 4294967295 * 4294967295" using assms by (intro mult_le_mono) auto
  then show ?thesis using assms by simp
qed

lemma unat_fma:
  assumes "unat c < 2 ^ 32"
  shows "unat (c + ucast x + ucast p * ucast b :: u64) = unat c + unat (x :: u32) + unat (p :: u32) * unat (b :: u32)"
    and "unat (drop_bit 32 (c + ucast x + ucast p * ucast b :: u64)) < 2 ^ 32"
proof -
  have B: "unat c + unat x + unat p * unat b < 2 ^ 64"
    using fma_bound [of "unat c" "unat x" "unat p" "unat b"] assms unat_u32_less by simp
  then have "unat c + unat x < 2 ^ 64" "unat p * unat b < 2 ^ 64"  by linarith+
  with B show eq: "unat (c + ucast x + ucast p * ucast b :: u64) = unat c + unat x + unat p * unat b"
    by (simp add: unat_word_ariths unat_ucast_up)
  show "unat (drop_bit 32 (c + ucast x + ucast p * ucast b :: u64)) < 2 ^ 32"
    unfolding limb_hi eq using B by (simp add: less_mult_imp_div_less)
qed

lemma uval_mul_row:
  "length xs \<le> length bs \<Longrightarrow> unat c < 2 ^ 32 \<Longrightarrow>
   uval (mul_row c pj xs bs) = (unat c + uval xs + unat pj * uval bs) mod 2 ^ (32 * length xs)"
proof (induction xs arbitrary: c bs)
  case (Cons x xs)
  then obtain b bs' where bs: "bs = b # bs'" by (cases bs) auto
  let ?n = "c + ucast x + ucast pj * ucast b :: u64"
  let ?N = "unat c + unat x + unat pj * unat b"
  have n: "unat ?n = ?N" and hi: "unat (drop_bit 32 ?n) < 2 ^ 32"
    using unat_fma [OF Cons.prems(2)] by auto
  have "uval (mul_row (drop_bit 32 ?n) pj xs bs') =
      (?N div 2 ^ 32 + (uval xs + unat pj * uval bs')) mod 2 ^ (32 * length xs)"
    using Cons.IH [OF _ hi, of bs'] Cons.prems(1) unfolding limb_hi n by (simp add: bs add.assoc)
  then have "uval (mul_row c pj (x # xs) bs) =
      ?N mod 2 ^ 32 + 2 ^ 32 * ((?N div 2 ^ 32 + (uval xs + unat pj * uval bs')) mod 2 ^ (32 * length xs))"
    by (simp only: bs mul_row.simps Let_def uval.simps limb_lo n)
  also have "\<dots> = (?N + 2 ^ 32 * (uval xs + unat pj * uval bs')) mod 2 ^ (32 + 32 * length xs)"
    by (rule mod_pow32_step)
  finally show ?case by (simp add: bs algebra_simps)
qed simp

lemma mul32_carry_row: "mul32_carry c b xs = mul_row c b (replicate (length xs) 0) xs"
  by (induction xs arbitrary: c) (auto simp: Let_def)

lemma uval_mul32: "uval (uint_mul32 xs b) = (uval xs * unat b) mod 2 ^ (32 * length xs)"
  by (simp add: uint_mul32_def mul32_carry_row uval_mul_row mult.commute)

lemma length_mul_row [simp]: "length xs \<le> length bs \<Longrightarrow> length (mul_row c p xs bs) = length xs"
proof (induction xs arbitrary: bs c)
  case (Cons x xs)
  then show ?case by (cases bs) (auto simp: Let_def)
qed simp

lemma uval_take_drop: "j \<le> length a \<Longrightarrow> uval a = uval (take j a) + 2 ^ (32 * j) * uval (drop j a)"
  using uval_append [of "take j a" "drop j a"] by simp

lemma uval_mul:
  assumes "length pn = length b"
  shows "length (uint_mul pn b) = length pn"
    and "uval (uint_mul pn b) = (uval pn * uval b) mod 2 ^ (32 * length pn)"
proof -
  let ?W = "length pn"
  let ?f = "\<lambda>j a. take j a @ mul_row 0 (pn ! j) (drop j a) b"
  have inv: "length (fold ?f [0..<m] (replicate ?W 0)) = ?W
    \<and> uval (fold ?f [0..<m] (replicate ?W 0)) = (uval (take m pn) * uval b) mod 2 ^ (32 * ?W)"
    if "m \<le> ?W" for m
    using that
  proof (induction m)
    case (Suc m)
    let ?a = "fold ?f [0..<m] (replicate ?W 0)"
    have len: "length ?a = ?W" and va: "uval ?a = (uval (take m pn) * uval b) mod 2 ^ (32 * ?W)"
      using Suc by auto
    have w: "32 * ?W = 32 * m + 32 * (?W - m)" using Suc.prems by simp
    have "uval (?f m ?a) = uval (take m ?a) + 2 ^ (32 * m) *
        ((uval (drop m ?a) + unat (pn ! m) * uval b) mod 2 ^ (32 * (?W - m)))"
      using Suc.prems len assms by (simp add: uval_append uval_mul_row)
    also have "\<dots> = (uval (take m ?a) + 2 ^ (32 * m) * (uval (drop m ?a) + unat (pn ! m) * uval b)) mod 2 ^ (32 * ?W)"
      unfolding w by (rule mod_split_low [symmetric]) (use uval_bound [of "take m ?a"] len Suc.prems in simp)
    also have "\<dots> = (uval ?a + 2 ^ (32 * m) * unat (pn ! m) * uval b) mod 2 ^ (32 * ?W)"
      using uval_take_drop [of m ?a] len Suc.prems by (simp add: algebra_simps)
    also have "\<dots> = ((uval (take m pn) + 2 ^ (32 * m) * unat (pn ! m)) * uval b) mod 2 ^ (32 * ?W)"
      unfolding va mod_add_left_eq by (simp add: algebra_simps)
    also have "uval (take m pn) + 2 ^ (32 * m) * unat (pn ! m) = uval (take (Suc m) pn)"
      using Suc.prems by (simp add: take_Suc_conv_app_nth uval_append)
    finally show ?case using len Suc.prems assms by simp
  qed simp
  from inv [of ?W] show "length (uint_mul pn b) = length pn"
    and "uval (uint_mul pn b) = (uval pn * uval b) mod 2 ^ (32 * length pn)"
    by (auto simp: uint_mul_def)
qed

section \<open>Shifts\<close>

lemma length_shl_step [simp]: "length (shl_step a k s i pn) = length pn"
  by (simp add: shl_step_def Let_def)

lemma length_shr_step [simp]: "length (shr_step a k s i pn) = length pn"
  by (simp add: shr_step_def Let_def)

lemma length_fold_steps:
  assumes "\<And>i pn. length (f i pn) = length pn"
  shows "length (fold f is pn) = length pn"
  by (induction "is" arbitrary: pn) (simp_all add: assms)

lemma length_uint_shl [simp]: "length (uint_shl a n) = length a"
  by (simp add: uint_shl_def length_fold_steps)

lemma length_uint_shr [simp]: "length (uint_shr a n) = length a"
  by (simp add: uint_shr_def length_fold_steps)

lemma shl_steps_nth:
  assumes "j < length a" "m \<le> length a"
  shows "fold (shl_step a k s) [0..<m] (replicate (length a) 0) ! j =
    (if k \<le> j \<and> j < m + k then push_bit s (a ! (j - k)) else 0) OR
    (if k + 1 \<le> j \<and> j < m + k + 1 \<and> s \<noteq> 0 then drop_bit (32 - s) (a ! (j - k - 1)) else 0)"
  using assms(2)
proof (induction m)
  case (Suc m)
  let ?pn = "fold (shl_step a k s) [0..<m] (replicate (length a) 0)"
  have len: "length ?pn = length a" by (simp add: length_fold_steps)
  have "fold (shl_step a k s) [0..<Suc m] (replicate (length a) 0) = shl_step a k s m ?pn"
    by simp
  moreover have "shl_step a k s m ?pn ! j = ?pn ! j OR
      (if j = m + k then push_bit s (a ! m) else 0) OR
      (if j = m + k + 1 \<and> s \<noteq> 0 then drop_bit (32 - s) (a ! m) else 0)"
    using assms(1) len by (auto simp: shl_step_def Let_def nth_list_update or.commute)
  ultimately show ?case
    using Suc by (cases "m = 0"; cases "j = m + k + 1") (auto simp: ac_simps)
qed (auto simp: assms)

lemma shr_steps_nth:
  assumes "j < length a" "m \<le> length a"
  shows "fold (shr_step a k s) [0..<m] (replicate (length a) 0) ! j =
    (if j + k < m then drop_bit s (a ! (j + k)) else 0) OR
    (if j + k + 1 < m \<and> s \<noteq> 0 then push_bit (32 - s) (a ! (j + k + 1)) else 0)"
  using assms(2)
proof (induction m)
  case (Suc m)
  let ?pn = "fold (shr_step a k s) [0..<m] (replicate (length a) 0)"
  have len: "length ?pn = length a" by (simp add: length_fold_steps)
  have "fold (shr_step a k s) [0..<Suc m] (replicate (length a) 0) = shr_step a k s m ?pn"
    by simp
  moreover have "shr_step a k s m ?pn ! j = ?pn ! j OR
      (if j + k = m then drop_bit s (a ! m) else 0) OR
      (if j + k + 1 = m \<and> s \<noteq> 0 then push_bit (32 - s) (a ! m) else 0)"
    using assms(1) len Suc.prems by (auto simp: shr_step_def Let_def nth_list_update or.commute)
  ultimately show ?case
    using Suc by (cases "j + k + 1 = m") (auto simp: ac_simps less_Suc_eq)
qed (auto simp: assms)

text \<open>Positions of digits and of bits inside a digit when one is subtracted from another.\<close>

lemma digit_sub_ge:
  fixes j k b s :: nat
  assumes "s \<le> b" "k \<le> j" "b < 32"
  shows "32 * k + s \<le> 32 * j + b"
    "(32 * j + b - (32 * k + s)) div 32 = j - k" "(32 * j + b - (32 * k + s)) mod 32 = b - s"
proof -
  obtain d r where dr: "j = k + d" "b = s + r" using assms le_Suc_ex by metis
  then have "32 * j + b = 32 * k + s + (32 * d + r)" "r < 32" using assms(3) by simp_all
  then show "32 * k + s \<le> 32 * j + b"
    "(32 * j + b - (32 * k + s)) div 32 = j - k" "(32 * j + b - (32 * k + s)) mod 32 = b - s"
    by (simp_all add: dr)
qed

lemma digit_sub_lt:
  fixes j k b s :: nat
  assumes "b < s" "k + 1 \<le> j" "s < 32"
  shows "32 * k + s \<le> 32 * j + b"
    "(32 * j + b - (32 * k + s)) div 32 = j - k - 1" "(32 * j + b - (32 * k + s)) mod 32 = b + 32 - s"
proof -
  obtain d where d: "j = k + 1 + d" using assms(2) le_Suc_ex by metis
  obtain r where r: "b + 32 = s + r" using assms(3) le_Suc_ex [of s "b + 32"] by auto
  have e: "32 * j + b = 32 * k + s + (32 * d + r)" "r < 32" using assms(1) d r by simp_all
  then have "32 * j + b - (32 * k + s) = 32 * d + r" by linarith
  moreover have "b + 32 - s = r" "j - k - 1 = d" using r d by simp_all
  ultimately show "32 * k + s \<le> 32 * j + b"
    "(32 * j + b - (32 * k + s)) div 32 = j - k - 1" "(32 * j + b - (32 * k + s)) mod 32 = b + 32 - s"
    using e by simp_all
qed

lemma shl_position:
  fixes j k b s :: nat
  assumes m: "32 * j + b < 32 * length a" and b: "b < 32" "s < 32"
  shows "(k \<le> j \<and> s \<le> b \<and> bit (a ! (j - k)) (b - s)) \<or>
    (k + 1 \<le> j \<and> b < s \<and> bit (a ! (j - k - 1)) (b + 32 - s))
    \<longleftrightarrow> 32 * k + s \<le> 32 * j + b \<and> bit (uval a) (32 * j + b - (32 * k + s))"
proof (cases "s \<le> b")
  case True
  have "32 * k + s \<le> 32 * j + b \<longleftrightarrow> k \<le> j" using True b by auto
  moreover have "bit (uval a) (32 * j + b - (32 * k + s)) \<longleftrightarrow> bit (a ! (j - k)) (b - s)" if "k \<le> j"
    using digit_sub_ge [OF True that b(1)] m by (simp add: bit_uval less_imp_diff_less)
  ultimately show ?thesis using True by auto
next
  case False
  then have lt: "b < s" by simp
  have "32 * k + s \<le> 32 * j + b \<longleftrightarrow> k + 1 \<le> j" using lt b by auto
  moreover have "bit (uval a) (32 * j + b - (32 * k + s)) \<longleftrightarrow> bit (a ! (j - k - 1)) (b + 32 - s)"
    if "k + 1 \<le> j"
    using digit_sub_lt [OF lt that b(2)] m by (simp add: bit_uval less_imp_diff_less)
  ultimately show ?thesis using False lt by auto
qed

lemma uval_shl: "uval (uint_shl a n) = (uval a * 2 ^ n) mod 2 ^ (32 * length a)"
proof -
  let ?k = "n div 32" and ?s = "n mod 32"
  have "uval (uint_shl a n) = take_bit (32 * length a) (push_bit n (uval a))"
  proof (rule bit_eqI)
    fix m
    show "bit (uval (uint_shl a n)) m \<longleftrightarrow> bit (take_bit (32 * length a) (push_bit n (uval a))) m"
    proof (cases "m < 32 * length a")
      case True
      let ?j = "m div 32" and ?b = "m mod 32"
      have j: "?j < length a" using True by (simp add: less_mult_imp_div_less mult.commute)
      have nth: "uint_shl a n ! ?j =
        (if ?k \<le> ?j then push_bit ?s (a ! (?j - ?k)) else 0) OR
        (if ?k + 1 \<le> ?j \<and> ?s \<noteq> 0 then drop_bit (32 - ?s) (a ! (?j - ?k - 1)) else 0)"
        using shl_steps_nth [OF j order_refl] j by (auto simp: uint_shl_def)
      have "bit (uval (uint_shl a n)) m \<longleftrightarrow> bit (uint_shl a n ! ?j) ?b"
        using True by (simp add: bit_uval)
      also have "\<dots> \<longleftrightarrow> (?k \<le> ?j \<and> ?s \<le> ?b \<and> bit (a ! (?j - ?k)) (?b - ?s)) \<or>
          (?k + 1 \<le> ?j \<and> ?b < ?s \<and> bit (a ! (?j - ?k - 1)) (?b + 32 - ?s))"
        unfolding nth by (auto simp: bit_or_iff bit_push_bit_iff bit_drop_bit_eq algebra_simps dest: bit_imp_le_length)
      also have "\<dots> \<longleftrightarrow> n \<le> m \<and> bit (uval a) (m - n)"
        using shl_position [of ?j ?b a ?s ?k] True by simp
      finally show ?thesis using True by (simp add: bit_take_bit_iff bit_push_bit_iff possible_bit_def)
    next
      case False
      then show ?thesis by (simp add: bit_uval bit_take_bit_iff)
    qed
  qed
  then show ?thesis by (simp add: take_bit_eq_mod push_bit_eq_mult)
qed

lemma digit_of_sum:
  "r < 32 \<Longrightarrow> (32 * q + r) div 32 = (q :: nat)" "r < 32 \<Longrightarrow> (32 * q + r) mod 32 = (r :: nat)"
  by simp_all

lemma shr_position:
  fixes j k b s :: nat
  assumes b: "b < 32" "s < 32"
  shows "(j + k < length a \<and> b + s < 32 \<and> bit (a ! (j + k)) (b + s)) \<or>
    (j + k + 1 < length a \<and> 32 \<le> b + s \<and> bit (a ! (j + k + 1)) (b + s - 32))
    \<longleftrightarrow> bit (uval a) (32 * k + s + (32 * j + b))"
proof (cases "b + s < 32")
  case True
  have e: "32 * k + s + (32 * j + b) = 32 * (j + k) + (b + s)" by simp
  note digit_of_sum [OF True, of "j + k"]
  then show ?thesis using True unfolding e bit_uval by auto
next
  case False
  then obtain r where r: "b + s = 32 + r" using le_Suc_ex by (metis linorder_not_less)
  have e: "32 * k + s + (32 * j + b) = 32 * (j + k + 1) + r" using r by simp
  have "r < 32" using r b by simp
  note digit_of_sum [OF this, of "j + k + 1"]
  then show ?thesis using False r \<open>r < 32\<close> unfolding e bit_uval by auto
qed

lemma uval_shr: "uval (uint_shr a n) = uval a div 2 ^ n"
proof -
  let ?k = "n div 32" and ?s = "n mod 32"
  have "uval (uint_shr a n) = drop_bit n (uval a)"
  proof (rule bit_eqI)
    fix m :: nat
    let ?j = "m div 32" and ?b = "m mod 32"
    have pos: "n + m = 32 * ?k + ?s + (32 * ?j + ?b)" by simp
    show "bit (uval (uint_shr a n)) m \<longleftrightarrow> bit (drop_bit n (uval a)) m"
    proof (cases "m < 32 * length a")
      case True
      have j: "?j < length a" using True by (simp add: less_mult_imp_div_less mult.commute)
      have nth: "uint_shr a n ! ?j =
        (if ?j + ?k < length a then drop_bit ?s (a ! (?j + ?k)) else 0) OR
        (if ?j + ?k + 1 < length a \<and> ?s \<noteq> 0 then push_bit (32 - ?s) (a ! (?j + ?k + 1)) else 0)"
        using shr_steps_nth [OF j order_refl] by (simp add: uint_shr_def)
      have "bit (uval (uint_shr a n)) m \<longleftrightarrow> bit (uint_shr a n ! ?j) ?b"
        using True by (simp add: bit_uval)
      also have "\<dots> \<longleftrightarrow> (?j + ?k < length a \<and> ?b + ?s < 32 \<and> bit (a ! (?j + ?k)) (?b + ?s)) \<or>
          (?j + ?k + 1 < length a \<and> 32 \<le> ?b + ?s \<and> bit (a ! (?j + ?k + 1)) (?b + ?s - 32))"
        unfolding nth by (auto simp: bit_or_iff bit_push_bit_iff bit_drop_bit_eq algebra_simps
            dest: bit_imp_le_length)
      also have "\<dots> \<longleftrightarrow> bit (uval a) (n + m)"
        using shr_position [of ?b ?s ?j ?k a] by (simp only: pos [symmetric] mod_less_divisor zero_less_numeral)
      finally show ?thesis by (simp add: bit_drop_bit_eq)
    next
      case False
      then show ?thesis by (simp add: bit_uval bit_drop_bit_eq)
    qed
  qed
  then show ?thesis by (simp add: drop_bit_eq_div)
qed

section \<open>Comparison\<close>

lemma uval_snoc: "uval (xs @ [x]) = uval xs + 2 ^ (32 * length xs) * unat x"
  by (simp add: uval_append)

lemma uval_snoc_less:
  assumes "length xs = length ys" "unat x < unat (y :: u32)"
  shows "uval (xs @ [x]) < uval (ys @ [y])"
proof -
  have "uval (xs @ [x]) < 2 ^ (32 * length xs) + 2 ^ (32 * length xs) * unat x"
    using uval_bound [of xs] by (simp add: uval_snoc)
  also have "\<dots> = 2 ^ (32 * length xs) * (unat x + 1)" by (simp add: algebra_simps)
  also have "\<dots> \<le> 2 ^ (32 * length xs) * unat y" using assms(2) by (intro mult_le_mono2) simp
  also have "\<dots> \<le> uval (ys @ [y])" using assms(1) by (simp add: uval_snoc)
  finally show ?thesis .
qed

lemma CompareTo_snoc:
  "CompareTo (xs @ [x]) (ys @ [y]) = (if x < y then - 1 else if x > y then 1 else CompareTo xs ys)"
  by (simp add: CompareTo_def)

lemma CompareTo_spec:
  "length xs = length ys \<Longrightarrow> CompareTo xs ys =
     (if uval xs < uval ys then - 1 else if uval xs > uval ys then 1 else 0)"
proof (induction xs arbitrary: ys rule: rev_induct)
  case Nil
  then show ?case by (simp add: CompareTo_def)
next
  case (snoc x xs)
  then obtain ys' y where ys: "ys = ys' @ [y]" "length xs = length ys'"
    by (cases ys rule: rev_cases) auto
  consider "unat x < unat y" | "unat y < unat x" | "x = y"
    by (metis linorder_neqE_nat word_unat_eq_iff)
  then show ?case
  proof cases
    case 1
    then show ?thesis using uval_snoc_less [OF ys(2) 1] ys
      by (simp add: CompareTo_snoc word_less_nat_alt)
  next
    case 2
    then show ?thesis using uval_snoc_less [OF ys(2) [symmetric] 2] ys
      by (simp add: CompareTo_snoc word_less_nat_alt)
  next
    case 3
    then show ?thesis using snoc.IH [OF ys(2)] ys by (simp add: CompareTo_snoc uval_snoc)
  qed
qed

lemma uint_gt_iff [simp]: "length a = length b \<Longrightarrow> uint_gt a b \<longleftrightarrow> uval a > uval b"
  by (simp add: uint_gt_def CompareTo_spec)

lemma uint_ge_iff [simp]: "length a = length b \<Longrightarrow> uint_ge a b \<longleftrightarrow> uval a \<ge> uval b"
  by (simp add: uint_ge_def CompareTo_spec)

section \<open>Bit length\<close>

lemma and_push_bit_1: "(x :: u32) AND push_bit n 1 \<noteq> 0 \<longleftrightarrow> n < 32 \<and> bit x n"
proof
  assume "x AND push_bit n 1 \<noteq> 0"
  then obtain m where "bit (x AND push_bit n 1) m" by (auto simp: bit_eq_iff)
  then show "n < 32 \<and> bit x n"
    by (auto simp: bit_and_iff bit_exp_iff possible_bit_def)
next
  assume "n < 32 \<and> bit x n"
  then have "bit (x AND push_bit n 1) n" by (simp add: bit_and_iff bit_exp_iff possible_bit_def)
  then show "x AND push_bit n 1 \<noteq> 0" by auto
qed

lemma top_bit_Suc:
  "Suc n < 32 \<Longrightarrow> top_bit x (Suc n) = (if bit x (Suc n) then Suc n + 1 else top_bit x n)"
  by (simp only: top_bit.simps and_push_bit_1) simp

lemma top_bit_spec:
  assumes "unat x < 2 ^ (n + 1)" "x \<noteq> 0" "n < 32"
  shows "2 ^ (top_bit x n - 1) \<le> unat x \<and> unat x < 2 ^ top_bit x n \<and> 1 \<le> top_bit x n"
  using assms
proof (induction n)
  case 0
  then show ?case by (simp add: Suc_le_eq unat_gt_0)
next
  case (Suc n)
  show ?case
  proof (cases "bit x (Suc n)")
    case True
    then have "bit (unat x) (Suc n)" by (simp add: bit_unsigned_iff possible_bit_def)
    then have "2 ^ Suc n \<le> unat x" by (metis bit_nat_def dvd_0_right div_less linorder_not_less)
    then show ?thesis using Suc.prems True by (simp add: top_bit_Suc del: top_bit.simps)
  next
    case False
    then have nb: "\<not> bit (unat x) (Suc n)" by (simp add: bit_unsigned_iff)
    have "take_bit (n + 1) (unat x) = unat x"
    proof (rule bit_eqI)
      fix m
      have "\<not> bit (unat x) m" if "n + 1 \<le> m"
      proof (cases "m = Suc n")
        case False
        then have "unat x < 2 ^ m" using Suc.prems(1) that
          by (metis Suc_eq_plus1 Suc_leI le_neq_implies_less less_le_trans one_le_numeral power_increasing)
        then show ?thesis by (simp add: bit_nat_def)
      qed (use nb in simp)
      then show "bit (take_bit (n + 1) (unat x)) m \<longleftrightarrow> bit (unat x) m"
        by (cases "n + 1 \<le> m") (auto simp: bit_take_bit_iff)
    qed
    then have "unat x < 2 ^ (n + 1)" by (metis take_bit_nat_less_exp)
    then show ?thesis using Suc False by (simp add: top_bit_Suc del: top_bit.simps)
  qed
qed

lemma bits_from_top_spec:
  "uval (rev xs) < 2 ^ bits_from_top xs
   \<and> (uval (rev xs) \<noteq> 0 \<longrightarrow> 1 \<le> bits_from_top xs \<and> 2 ^ (bits_from_top xs - 1) \<le> uval (rev xs))
   \<and> (uval (rev xs) = 0 \<longrightarrow> bits_from_top xs = 0)
   \<and> bits_from_top xs \<le> 32 * length xs"
proof (induction xs)
  case (Cons x xs)
  show ?case
  proof (cases "x = 0")
    case True
    then show ?thesis using Cons by (simp add: uval_snoc)
  next
    case False
    let ?t = "top_bit x 31" and ?l = "32 * length xs"
    have t: "2 ^ (?t - 1) \<le> unat x" "unat x < 2 ^ ?t" "1 \<le> ?t"
      using top_bit_spec [of x 31] unat_u32_less [of x] False by auto
    have t32: "?t \<le> 32"
    proof (rule ccontr)
      assume "\<not> ?t \<le> 32"
      then have "(2 :: nat) ^ 32 \<le> 2 ^ (?t - 1)" by (intro power_increasing) auto
      with t(1) unat_u32_less [of x] show False by simp
    qed
    have v: "uval (rev (x # xs)) = uval (rev xs) + 2 ^ ?l * unat x" by (simp add: uval_snoc)
    have "uval (rev xs) + 2 ^ ?l * unat x < 2 ^ ?l * (unat x + 1)"
      using uval_bound [of "rev xs"] by (simp add: algebra_simps)
    also have "\<dots> \<le> 2 ^ ?l * 2 ^ ?t" using t(2) by (intro mult_le_mono2) simp
    finally have up: "uval (rev (x # xs)) < 2 ^ (?l + ?t)" by (simp only: v power_add)
    have "2 ^ (?l + ?t - 1) = 2 ^ ?l * (2 :: nat) ^ (?t - 1)"
      using t(3) by (simp flip: power_add)
    also have "\<dots> \<le> 2 ^ ?l * unat x" using t(1) by (intro mult_le_mono2)
    finally have "2 ^ (?l + ?t - 1) \<le> uval (rev (x # xs))" unfolding v by (rule trans_le_add2)
    moreover from this have "uval (rev (x # xs)) \<noteq> 0" by (metis le_zero_eq power_not_zero zero_neq_numeral)
    ultimately show ?thesis using up False t(3) t32 by simp
  qed
qed simp

lemma uval_lt_bits: "uval a < 2 ^ uint_bits a"
  and bits_le_width: "uint_bits a \<le> 32 * length a"
  using bits_from_top_spec [of "rev a"] by (simp_all add: uint_bits_def)

lemma bits_least: "uval a \<noteq> 0 \<Longrightarrow> 1 \<le> uint_bits a \<and> 2 ^ (uint_bits a - 1) \<le> uval a"
  using bits_from_top_spec [of "rev a"] by (simp add: uint_bits_def)

lemma bits_le_iff: "uint_bits a \<le> n \<longleftrightarrow> uval a < 2 ^ n"
proof
  assume "uint_bits a \<le> n"
  then have "(2 :: nat) ^ uint_bits a \<le> 2 ^ n" by (rule power_increasing) simp
  then show "uval a < 2 ^ n" using uval_lt_bits [of a] by linarith
next
  assume "uval a < 2 ^ n"
  show "uint_bits a \<le> n"
  proof (cases "uval a = 0")
    case True
    then show ?thesis using bits_from_top_spec [of "rev a"] by (simp add: uint_bits_def)
  next
    case False
    with bits_least [of a] \<open>uval a < 2 ^ n\<close> have "2 ^ (uint_bits a - 1) < (2 :: nat) ^ n"
      by linarith
    then show ?thesis by simp
  qed
qed

section \<open>Division\<close>

lemma uval_set_bit:
  assumes "n < 32 * length q"
  shows "uval (q[n div 32 := q ! (n div 32) OR push_bit (n mod 32) 1]) = set_bit n (uval q)"
proof (rule bit_eqI)
  fix m
  have i: "n div 32 < length q" using assms by (simp add: less_mult_imp_div_less mult.commute)
  have same: "m = n \<longleftrightarrow> m div 32 = n div 32 \<and> m mod 32 = n mod 32"
    by (metis mult_div_mod_eq)
  show "bit (uval (q[n div 32 := q ! (n div 32) OR push_bit (n mod 32) 1])) m \<longleftrightarrow> bit (set_bit n (uval q)) m"
    using assms i same
    by (auto simp: bit_uval bit_set_bit_iff bit_or_iff bit_exp_iff possible_bit_def nth_list_update)
qed

lemma uval_div_loop:
  assumes "length d = length num" "length q = length num"
    and "n \<noteq> 0 \<Longrightarrow> uval d = d0 * 2 ^ (n - 1)" and "uval num < d0 * 2 ^ n"
    and "2 ^ n dvd uval q" and "n \<le> 32 * length num"
  shows "uval (div_loop n num d q) = uval q + uval num div d0
    \<and> length (div_loop n num d q) = length num"
  using assms
proof (induction n arbitrary: num d q)
  case 0
  then show ?case by simp
next
  case (Suc n)
  have d: "uval d = d0 * 2 ^ n" using Suc.prems(3) by simp
  have d': "uval (uint_shr d 1) = d0 * 2 ^ (n - 1)" if "n \<noteq> 0"
    using that by (cases n) (simp_all add: uval_shr d)
  have d0: "0 < d0" using Suc.prems(4) by (cases d0) auto
  show ?case
  proof (cases "uval d \<le> uval num")
    case True
    let ?num = "uint_sub num d"
    let ?q = "q[n div 32 := q ! (n div 32) OR push_bit (n mod 32) 1]"
    have num: "uval ?num = uval num - d0 * 2 ^ n" using True Suc.prems(1) by (simp add: uval_sub d)
    obtain c where c: "uval q = 2 ^ Suc n * c" using Suc.prems(5) by (elim dvdE)
    have "\<not> bit (uval q) n" by (simp add: bit_iff_odd c mult.assoc [symmetric])
    then have q: "uval ?q = uval q + 2 ^ n"
      using Suc.prems(2,6) uval_set_bit [of n q] by (simp only: set_bit_eq) simp
    have "uval (div_loop n ?num (uint_shr d 1) ?q) = uval ?q + uval ?num div d0
      \<and> length (div_loop n ?num (uint_shr d 1) ?q) = length ?num"
    proof (rule Suc.IH)
      show "uval ?num < d0 * 2 ^ n" using Suc.prems(4) True by (simp add: num d)
      have "2 ^ n dvd uval q" using Suc.prems(5) by (metis dvd_mult_right power_Suc)
      then show "2 ^ n dvd uval ?q" unfolding q by simp
    qed (use Suc.prems d' in simp_all)
    moreover have "uval num div d0 = uval ?num div d0 + 2 ^ n"
    proof -
      have "uval num = uval ?num + 2 ^ n * d0" using True by (simp add: num d mult.commute)
      then show ?thesis using d0 by simp
    qed
    ultimately show ?thesis using True Suc.prems(1) unfolding q by simp
  next
    case False
    have "uval (div_loop n num (uint_shr d 1) q) = uval q + uval num div d0
      \<and> length (div_loop n num (uint_shr d 1) q) = length num"
    proof (rule Suc.IH)
      show "uval num < d0 * 2 ^ n" using False by (simp add: d)
      show "2 ^ n dvd uval q" using Suc.prems(5) by (metis dvd_mult_right power_Suc)
    qed (use Suc.prems d' in simp_all)
    then show ?thesis using False Suc.prems(1) by simp
  qed
qed

lemma uint_div_spec:
  assumes "length num = length d"
  shows "uint_div num d = None \<longleftrightarrow> uval d = 0"
    and "uint_div num d = Some r \<Longrightarrow> uval r = uval num div uval d \<and> length r = length num"
proof -
  let ?nb = "uint_bits num" and ?db = "uint_bits d"
  have z: "?db = 0 \<longleftrightarrow> uval d = 0" using bits_le_iff [of d 0] by simp
  then show "uint_div num d = None \<longleftrightarrow> uval d = 0" by (simp add: uint_div_def Let_def)
  assume r: "uint_div num d = Some r"
  then have nz: "?db \<noteq> 0" by (auto simp: uint_div_def Let_def split: if_splits)
  show "uval r = uval num div uval d \<and> length r = length num"
  proof (cases "?db > ?nb")
    case True
    then have "uval num < 2 ^ (?db - 1)" by (simp flip: bits_le_iff)
    also have "\<dots> \<le> uval d" using nz z bits_least [of d] by simp
    finally show ?thesis using r True nz by (auto simp: uint_div_def Let_def)
  next
    case False
    let ?s = "?nb - ?db"
    have lt: "uval d * 2 ^ ?s < 2 ^ (32 * length d)"
    proof -
      have "uval d * 2 ^ ?s < 2 ^ ?db * 2 ^ ?s" using uval_lt_bits [of d] by simp
      also have "\<dots> = (2 :: nat) ^ ?nb" using False by (simp flip: power_add)
      also have "\<dots> \<le> 2 ^ (32 * length d)"
        using bits_le_width [of num] assms by (intro power_increasing) simp_all
      finally show ?thesis .
    qed
    have shl: "uval (uint_shl d ?s) = uval d * 2 ^ ?s" using lt by (simp add: uval_shl)
    have e: "?db - 1 + Suc ?s = ?nb" using False nz by linarith
    have "uval num < 2 ^ ?nb" by (rule uval_lt_bits)
    also have "(2 :: nat) ^ ?nb = 2 ^ (?db - 1) * 2 ^ Suc ?s"
      by (simp only: e flip: power_add)
    also have "\<dots> \<le> uval d * 2 ^ Suc ?s" using nz z bits_least [of d] by (intro mult_le_mono1) simp
    finally have num: "uval num < uval d * 2 ^ Suc ?s" .
    have "Suc ?s \<le> 32 * length num" using bits_le_width [of num] nz False by linarith
    with uval_div_loop [of "uint_shl d ?s" num "replicate (length num) 0" "Suc ?s" "uval d"] num shl assms
    show ?thesis using r False nz by (auto simp: uint_div_def Let_def)
  qed
qed

section \<open>Small values\<close>

lemma length_base_uint_of_u64 [simp]: "length (base_uint_of_u64 b) = WIDTH"
  by (simp add: base_uint_of_u64_def WIDTH_def)

lemma unat_u64_less: "unat (b :: u64) < 2 ^ 64"
  using unsigned_less [of b, where ?'a = nat] by simp

lemma unat_low32: "unat (ucast (b :: u64) :: u32) = unat b mod 2 ^ 32"
  by (simp add: unsigned_ucast_eq take_bit_eq_mod)

lemma unat_high32: "unat (ucast (drop_bit 32 (b :: u64)) :: u32) = unat b div 2 ^ 32"
proof -
  have "unat b div 2 ^ 32 < 2 ^ 32"
    using unat_u64_less [of b] by (simp add: less_mult_imp_div_less)
  then show ?thesis unfolding unat_low32 limb_hi by (rule mod_less)
qed

lemma uval_of_u64 [simp]: "uval (base_uint_of_u64 b) = unat b"
proof -
  have "uval (base_uint_of_u64 b) = unat b mod 2 ^ 32 + 2 ^ 32 * (unat b div 2 ^ 32)"
    by (simp only: base_uint_of_u64_def append_Cons append_Nil uval_append uval.simps unat_high32)
      (simp add: unat_low32)
  then show ?thesis by simp
qed

lemma uval_zero_iff: "uval xs = 0 \<longleftrightarrow> (\<forall>x\<in>set xs. x = 0)"
  by (induction xs) (auto simp: unat_eq_zero)

lemma uval_low64:
  assumes "2 \<le> length pn"
  shows "uval pn mod 2 ^ 64 = unat (pn ! 0) + 2 ^ 32 * unat (pn ! 1)"
    and "uval pn div 2 ^ 64 = uval (drop 2 pn)"
proof -
  obtain x y zs where pn: "pn = x # y # zs"
    using assms by (metis Suc_le_length_iff numeral_2_eq_2)
  have v: "uval pn = (unat x + 2 ^ 32 * unat y) + 2 ^ 64 * uval zs" by (simp add: pn)
  have "unat x + 2 ^ 32 * unat y < 2 ^ 64"
    using unat_u32_less [of x] unat_u32_less [of y] by simp
  then show "uval pn mod 2 ^ 64 = unat (pn ! 0) + 2 ^ 32 * unat (pn ! 1)"
    and "uval pn div 2 ^ 64 = uval (drop 2 pn)"
    unfolding v by (simp_all add: pn)
qed

lemma EqualTo_iff: "2 \<le> length pn \<Longrightarrow> EqualTo pn b \<longleftrightarrow> uval pn = unat b"
proof -
  assume len: "2 \<le> length pn"
  have hi: "(ucast (pn ! 1) :: u64) = drop_bit 32 b \<longleftrightarrow> unat (pn ! 1) = unat b div 2 ^ 32"
    unfolding word_unat_eq_iff limb_hi unat_ucast_up ..
  have lo: "(ucast (pn ! 0) :: u64) = b AND 0xffffffff \<longleftrightarrow> unat (pn ! 0) = unat b mod 2 ^ 32"
  proof -
    have "unat (b AND 0xffffffff) = unat b mod 2 ^ 32"
      unfolding mask_u64 unsigned_take_bit_eq by (rule take_bit_eq_mod)
    then show ?thesis unfolding word_unat_eq_iff unat_ucast_up by simp
  qed
  have z: "list_ex (\<lambda>x. x \<noteq> 0) (drop 2 pn) \<longleftrightarrow> uval (drop 2 pn) \<noteq> 0"
    by (auto simp: uval_zero_iff list_ex_iff)
  have b: "unat b < 2 ^ 64" by (rule unat_u64_less)
  have "uval pn = unat b \<longleftrightarrow> uval (drop 2 pn) = 0 \<and> unat (pn ! 1) = unat b div 2 ^ 32
      \<and> unat (pn ! 0) = unat b mod 2 ^ 32"
  proof
    assume eq: "uval pn = unat b"
    from uval_low64 [OF len] b have v: "uval (drop 2 pn) = 0" "unat b = unat (pn ! 0) + 2 ^ 32 * unat (pn ! 1)"
      by (simp_all add: eq)
    then show "uval (drop 2 pn) = 0 \<and> unat (pn ! 1) = unat b div 2 ^ 32 \<and> unat (pn ! 0) = unat b mod 2 ^ 32"
      using unat_u32_less [of "pn ! 0"] by simp
  next
    assume a: "uval (drop 2 pn) = 0 \<and> unat (pn ! 1) = unat b div 2 ^ 32 \<and> unat (pn ! 0) = unat b mod 2 ^ 32"
    have "uval pn = uval pn mod 2 ^ 64 + 2 ^ 64 * (uval pn div 2 ^ 64)" by simp
    then show "uval pn = unat b" unfolding uval_low64 [OF len] using a by simp
  qed
  then show ?thesis unfolding EqualTo_def z using hi lo by simp
qed

lemma unat_or_shift:
  assumes "unat (a :: 'w::len word) < 2 ^ n" "unat b * 2 ^ n < 2 ^ LENGTH('w)"
  shows "unat (a OR push_bit n b) = unat a + unat b * 2 ^ n"
proof -
  have p: "unat (push_bit n b) = unat b * 2 ^ n"
    using assms(2) unfolding unsigned_push_bit_eq by (simp add: push_bit_eq_mult take_bit_nat_eq_self)
  have d: "unat a AND unat b * 2 ^ n = 0"
  proof (rule bit_eqI)
    fix m
    show "bit (unat a AND unat b * 2 ^ n) m = bit 0 m"
    proof (cases "m < n")
      case True
      then show ?thesis by (simp add: bit_and_iff bit_push_bit_iff flip: push_bit_eq_mult)
    next
      case False
      then have "(2 :: nat) ^ n \<le> 2 ^ m" by (intro power_increasing) auto
      then have "\<not> bit (unat a) m" using assms(1) less_le_trans by (fastforce simp: bit_iff_odd)
      then show ?thesis by (simp add: bit_and_iff)
    qed
  qed
  have "unat (a OR push_bit n b) = unat a OR unat b * 2 ^ n"
    by (simp only: unsigned_or_eq p)
  also have "\<dots> = unat a + unat b * 2 ^ n"
    using d by (simp add: disjunctive_add_eq_or)
  finally show ?thesis .
qed

lemma unat_GetLow64: "2 \<le> length pn \<Longrightarrow> unat (GetLow64 pn) = uval pn mod 2 ^ 64"
proof -
  assume len: "2 \<le> length pn"
  have "unat (GetLow64 pn) = unat (pn ! 0) + unat (pn ! 1) * 2 ^ 32"
    unfolding GetLow64_def
    using unat_or_shift [of "ucast (pn ! 0) :: u64" 32 "ucast (pn ! 1)"]
      unat_u32_less [of "pn ! 0"] unat_u32_less [of "pn ! 1"]
    by (simp add: unat_ucast_up)
  then show ?thesis using uval_low64(1) [OF len] by (simp add: mult.commute)
qed

section \<open>The compact form: decoding\<close>

definition compact_value :: "nat \<Rightarrow> nat \<Rightarrow> nat" where
  "compact_value sz m = (if sz \<le> 3 then m div 256 ^ (3 - sz) else m * 256 ^ (sz - 3))"

lemma pow256: "(256 :: nat) ^ n = 2 ^ (8 * n)"
  by (simp add: power_mult)

lemma unat_mask23: "unat (c AND 0x007fffff :: u32) = unat c mod 2 ^ 23"
proof -
  have "c AND 0x007fffff = take_bit 23 c" by (simp add: take_bit_eq_mask mask_eq_exp_minus_1)
  then show ?thesis unfolding unsigned_take_bit_eq by (metis take_bit_eq_mod unsigned_take_bit_eq)
qed

lemma and_bit23: "c AND 0x00800000 \<noteq> (0 :: u32) \<longleftrightarrow> odd (unat c div 2 ^ 23)"
proof -
  have "c AND 0x00800000 = c AND push_bit 23 1" by simp
  then have "c AND 0x00800000 \<noteq> 0 \<longleftrightarrow> bit c 23" by (simp only: and_push_bit_1) simp
  also have "\<dots> \<longleftrightarrow> bit (unat c) 23" by (simp add: bit_unsigned_iff)
  finally show ?thesis by (simp only: bit_iff_odd)
qed

lemma unat_drop_bit: "unat (drop_bit n (c :: 'a::len word)) = unat c div 2 ^ n"
  by (simp only: unat_drop_bit_eq) (simp only: drop_bit_eq_div)

lemma compact_overflow_iff:
  assumes "m < 2 ^ 23" "3 < sz"
  shows "(2 :: nat) ^ 256 \<le> m * 256 ^ (sz - 3) \<longleftrightarrow>
    m \<noteq> 0 \<and> (34 < sz \<or> (0xff < m \<and> 33 < sz) \<or> (0xffff < m \<and> 32 < sz))"
proof -
  consider "sz \<le> 32" | "sz = 33" | "sz = 34" | "35 \<le> sz" by linarith
  then show ?thesis
  proof cases
    case 1
    have "m * 256 ^ (sz - 3) < 256 ^ 3 * 256 ^ (sz - 3)" using assms(1) by simp
    also have "\<dots> = 256 ^ sz" using assms(2) by (simp only: flip: power_add) simp
    also have "\<dots> \<le> 256 ^ 32" using 1 by (intro power_increasing) auto
    finally show ?thesis using 1 by (simp add: pow256)
  next
    case 4
    then have "(256 :: nat) ^ 32 \<le> 256 ^ (sz - 3)" by (intro power_increasing) auto
    then have "m \<noteq> 0 \<Longrightarrow> (256 :: nat) ^ 32 \<le> m * 256 ^ (sz - 3)"
      using mult_le_mono [of 1 m] by simp
    then show ?thesis using 4 by (cases "m = 0") (simp_all add: pow256)
  qed auto
qed

lemma SetCompact_spec:
  assumes "SetCompact c = (v, negative, overflow)"
  defines "sz \<equiv> unat c div 2 ^ 24" and "m \<equiv> unat c mod 2 ^ 23"
  shows "length v = WIDTH" "uval v = compact_value sz m mod 2 ^ 256"
    "overflow \<longleftrightarrow> 2 ^ 256 \<le> compact_value sz m"
    "negative \<longleftrightarrow> odd (unat c div 2 ^ 23) \<and> (if sz \<le> 3 then compact_value sz m \<noteq> 0 else m \<noteq> 0)"
proof -
  have m: "m < 2 ^ 23" by (simp add: m_def)
  let ?w = "if sz \<le> 3 then drop_bit (8 * (3 - sz)) (c AND 0x007fffff) else c AND 0x007fffff"
  have w: "unat ?w = (if sz \<le> 3 then compact_value sz m else m)"
    by (simp only: if_distrib [of unat] unat_drop_bit unat_mask23 m_def compact_value_def pow256 cong: if_cong)
      simp
  have less: "sz \<le> 3 \<Longrightarrow> compact_value sz m < 2 ^ 23"
    using m by (simp add: compact_value_def le_less_trans [OF div_le_dividend])
  have v: "v = (if sz \<le> 3 then base_uint_of_u64 (ucast ?w)
      else uint_shl (base_uint_of_u64 (ucast ?w)) (8 * (sz - 3)))"
    and n: "negative \<longleftrightarrow> ?w \<noteq> 0 \<and> c AND 0x00800000 \<noteq> 0"
    and ov: "overflow \<longleftrightarrow> ?w \<noteq> 0 \<and> (sz > 34 \<or> (?w > 0xff \<and> sz > 33) \<or> (?w > 0xffff \<and> sz > 32))"
    using assms(1) by (auto simp: SetCompact_def Let_def unat_drop_bit sz_def)
  show "length v = WIDTH" by (simp add: v)
  show "uval v = compact_value sz m mod 2 ^ 256"
  proof (cases "sz \<le> 3")
    case True
    then show ?thesis using w less unfolding v by (simp add: unat_ucast_up)
  next
    case False
    then show ?thesis using w unfolding v
      by (simp add: unat_ucast_up uval_shl WIDTH_def pow256 compact_value_def)
  qed
  have w0: "?w = 0 \<longleftrightarrow> (if sz \<le> 3 then compact_value sz m = 0 else m = 0)"
    unfolding unat_eq_zero [symmetric, of ?w] w by simp
  show "negative \<longleftrightarrow> odd (unat c div 2 ^ 23) \<and> (if sz \<le> 3 then compact_value sz m \<noteq> 0 else m \<noteq> 0)"
    unfolding n w0 and_bit23 by auto
  show "overflow \<longleftrightarrow> 2 ^ 256 \<le> compact_value sz m"
  proof (cases "sz \<le> 3")
    case True
    then show ?thesis using less [OF True] by (simp add: ov)
  next
    case False
    have "?w > 0xff \<longleftrightarrow> m > 0xff" "?w > 0xffff \<longleftrightarrow> m > 0xffff"
      using w False by (simp_all add: word_less_nat_alt)
    then show ?thesis
      using False w0 compact_overflow_iff [OF m] unfolding ov by (simp add: compact_value_def)
  qed
qed

section \<open>The compact form: encoding\<close>

lemma CeilDiv_le_iff: "0 < d \<Longrightarrow> CeilDiv b d \<le> s \<longleftrightarrow> b \<le> d * s"
proof -
  assume d: "0 < d"
  define q r where "q = b div d" and "r = b mod d"
  have b: "b = d * q + r" and r: "r < d" using d by (simp_all add: q_def r_def)
  have c: "CeilDiv b d = q + (if r \<noteq> 0 then 1 else 0)" by (simp add: CeilDiv_def q_def r_def)
  show ?thesis
  proof (cases "q + 1 \<le> s")
    case True
    then have "d * (q + 1) \<le> d * s" by (rule mult_le_mono2)
    then show ?thesis using True r b unfolding c by (simp add: algebra_simps)
  next
    case False
    then have sq: "s \<le> q" by simp
    then have le: "d * s \<le> d * q" by (rule mult_le_mono2)
    show ?thesis
    proof (cases "r = 0")
      case True
      then show ?thesis using d b unfolding c by simp
    next
      case False
      then have "\<not> b \<le> d * s" "\<not> q + 1 \<le> s" using sq le b by linarith+
      then show ?thesis using False unfolding c by simp
    qed
  qed
qed

lemma compact_size_le_iff: "CeilDiv (uint_bits a) 8 \<le> s \<longleftrightarrow> uval a < 256 ^ s"
  by (simp add: CeilDiv_le_iff bits_le_iff pow256)

definition mantissa24 :: "nat \<Rightarrow> nat \<Rightarrow> nat" where
  "mantissa24 s N = (if s \<le> 3 then N * 256 ^ (3 - s) else N div 256 ^ (s - 3))"

lemma power_256_split: "k \<le> s \<Longrightarrow> (256 :: nat) ^ s = 256 ^ k * 256 ^ (s - k)"
  by (simp flip: power_add)

lemma mantissa24_bounds:
  assumes "N < 256 ^ s"
  shows "mantissa24 s N < 2 ^ 24" "0 < s \<Longrightarrow> 256 ^ (s - 1) \<le> N \<Longrightarrow> 2 ^ 16 \<le> mantissa24 s N"
proof -
  have "s \<in> {0, 1, 2, 3} \<or> 3 < s" by auto
  then show "mantissa24 s N < 2 ^ 24"
    using assms
  proof (elim disjE)
    assume s: "3 < s"
    have "N < 2 ^ 24 * 256 ^ (s - 3)" using assms power_256_split [of 3 s] s by simp
    then show ?thesis using s by (simp add: mantissa24_def less_mult_imp_div_less)
  qed (auto simp: mantissa24_def)
  show "2 ^ 16 \<le> mantissa24 s N" if "0 < s" "256 ^ (s - 1) \<le> N"
  proof (cases "s \<le> 3")
    case True
    then have "s \<in> {1, 2, 3}" using that(1) by auto
    then show ?thesis using that(2) by (auto simp: mantissa24_def)
  next
    case False
    have "2 ^ 16 * 256 ^ (s - 3) \<le> N" using that False power_256_split [of 2 "s - 1"] by (simp add: numeral_3_eq_3)
    then have "2 ^ 16 \<le> N div 256 ^ (s - 3)" by (simp add: less_eq_div_iff_mult_less_eq)
    then show ?thesis using False by (simp add: mantissa24_def)
  qed
qed

lemma GetCompact_parts_spec:
  assumes len: "length a = WIDTH" and p: "GetCompact_parts a = (sz, w)"
  defines "s \<equiv> CeilDiv (uint_bits a) 8"
  shows "sz = (if 2 ^ 23 \<le> mantissa24 s (uval a) then s + 1 else s)"
    "unat w = (if 2 ^ 23 \<le> mantissa24 s (uval a) then mantissa24 s (uval a) div 256 else mantissa24 s (uval a))"
proof -
  let ?M = "mantissa24 s (uval a)"
  have s: "uval a < 256 ^ s" using compact_size_le_iff [of a s] by (simp add: s_def)
  have M: "?M < 2 ^ 24" by (rule mantissa24_bounds(1) [OF s])
  define n :: u32 where "n = (if s \<le> 3 then ucast (push_bit (8 * (3 - s)) (GetLow64 a))
      else ucast (GetLow64 (uint_shr a (8 * (s - 3)))))"
  have n: "unat n = ?M"
  proof (cases "s \<le> 3")
    case True
    then have "uval a < 256 ^ 3" using s power_increasing [of s 3 "256 :: nat"] by simp
    then have g: "unat (GetLow64 a) = uval a" using unat_GetLow64 [of a] len by (simp add: WIDTH_def)
    have e: "?M = push_bit (8 * (3 - s)) (uval a)" using True by (simp add: mantissa24_def push_bit_eq_mult pow256)
    have "unat (push_bit (8 * (3 - s)) (GetLow64 a)) = ?M"
      using M unfolding e unsigned_push_bit_eq g by (simp add: take_bit_nat_eq_self)
    then show ?thesis using M unfolding n_def by (simp only: True if_True unat_low32) simp
  next
    case False
    have "uval (uint_shr a (8 * (s - 3))) = ?M" using False by (simp add: uval_shr mantissa24_def pow256)
    moreover have "length (uint_shr a (8 * (s - 3))) = WIDTH" using len by simp
    ultimately have "unat (GetLow64 (uint_shr a (8 * (s - 3)))) = ?M"
      using unat_GetLow64 [of "uint_shr a (8 * (s - 3))"] M by (simp add: WIDTH_def)
    then show ?thesis using False M by (simp add: n_def unat_low32)
  qed
  have b: "n AND 0x00800000 \<noteq> 0 \<longleftrightarrow> 2 ^ 23 \<le> ?M"
  proof -
    have "?M div 2 ^ 23 < 2" using M by (simp add: less_mult_imp_div_less)
    then have "odd (?M div 2 ^ 23) \<longleftrightarrow> ?M div 2 ^ 23 = 1" by (cases "?M div 2 ^ 23 = 0") auto
    also have "\<dots> \<longleftrightarrow> 2 ^ 23 \<le> ?M" using M by (auto simp: div_nat_eqI)
    finally show ?thesis unfolding and_bit23 n .
  qed
  have "(sz, w) = (if n AND 0x00800000 \<noteq> 0 then (s + 1, drop_bit 8 n) else (s, n))"
    using p [symmetric] unfolding GetCompact_parts_def Let_def n_def s_def by simp
  then show "sz = (if 2 ^ 23 \<le> ?M then s + 1 else s)"
    "unat w = (if 2 ^ 23 \<le> ?M then ?M div 256 else ?M)"
    unfolding b by (auto simp: unat_drop_bit n)
qed

lemma compact_value_mantissa:
  "compact_value s (mantissa24 s N) = N div 256 ^ (s - 3) * 256 ^ (s - 3)"
  "compact_value (s + 1) (mantissa24 s N div 256) = N div 256 ^ (s + 1 - 3) * 256 ^ (s + 1 - 3)"
proof -
  show "compact_value s (mantissa24 s N) = N div 256 ^ (s - 3) * 256 ^ (s - 3)"
    by (simp add: compact_value_def mantissa24_def)
  show "compact_value (s + 1) (mantissa24 s N div 256) = N div 256 ^ (s + 1 - 3) * 256 ^ (s + 1 - 3)"
  proof (cases "s \<le> 2")
    case True
    then have "s \<in> {0, 1, 2}" by auto
    then show ?thesis by (auto simp: compact_value_def mantissa24_def)
  next
    case False
    then obtain k where "s = k + 3" by (metis add.commute le_Suc_ex not_less_eq_eq numeral_3_eq_3 numeral_2_eq_2)
    then show ?thesis by (simp add: compact_value_def mantissa24_def div_mult2_eq [symmetric] mult.commute)
  qed
qed

lemma GetCompact_assertions:
  assumes "length a = WIDTH" "GetCompact_parts a = (sz, w)"
  shows "unat w < 2 ^ 23" "sz \<le> 33" "uval a \<noteq> 0 \<Longrightarrow> 2 ^ 15 \<le> unat w"
    "compact_value sz (unat w) = uval a div 256 ^ (sz - 3) * 256 ^ (sz - 3)"
proof -
  let ?s = "CeilDiv (uint_bits a) 8"
  note parts = GetCompact_parts_spec [OF assms]
  have s: "uval a < 256 ^ ?s" using compact_size_le_iff [of a ?s] by simp
  have low: "uval a \<noteq> 0 \<Longrightarrow> 0 < ?s \<and> 256 ^ (?s - 1) \<le> uval a"
    using compact_size_le_iff [of a 0] compact_size_le_iff [of a "?s - 1"] by auto
  note M = mantissa24_bounds [OF s]
  show "unat w < 2 ^ 23" using M(1) by (simp add: parts less_mult_imp_div_less)
  have "?s \<le> 32" using compact_size_le_iff [of a 32] uval_bound [of a] assms(1)
    by (simp add: WIDTH_def)
  then show "sz \<le> 33" by (simp add: parts)
  show "2 ^ 15 \<le> unat w" if "uval a \<noteq> 0"
    using M(2) low [OF that] by (simp add: parts less_eq_div_iff_mult_less_eq)
  show "compact_value sz (unat w) = uval a div 256 ^ (sz - 3) * 256 ^ (sz - 3)"
    using compact_value_mantissa [of ?s "uval a"] by (simp add: parts)
qed

lemma unat_GetCompact:
  assumes "length a = WIDTH" "GetCompact_parts a = (sz, w)"
  shows "unat (GetCompact a) = unat w + sz * 2 ^ 24"
proof -
  note A = GetCompact_assertions [OF assms]
  have sz: "unat (of_nat sz :: u32) = sz" using A(2) by (simp add: unat_of_nat take_bit_nat_eq_self)
  show ?thesis using unat_or_shift [of w 24 "of_nat sz"] A(1,2) assms(2)
    by (simp only: sz GetCompact_def prod.case) simp
qed

lemma SetCompact_GetCompact:
  assumes "length a = WIDTH" "GetCompact_parts a = (sz, w)"
    "SetCompact (GetCompact a) = (v, negative, overflow)"
  shows "\<not> negative" "\<not> overflow" "uval v = uval a div 256 ^ (sz - 3) * 256 ^ (sz - 3)"
proof -
  note A = GetCompact_assertions [OF assms(1,2)] and U = unat_GetCompact [OF assms(1,2)]
    and S = SetCompact_spec [OF assms(3)]
  have d: "unat (GetCompact a) div 2 ^ 24 = sz" "unat (GetCompact a) mod 2 ^ 23 = unat w"
    "even (unat (GetCompact a) div 2 ^ 23)"
  proof -
    show "unat (GetCompact a) div 2 ^ 24 = sz" using A(1) unfolding U by simp
    have e: "unat w + sz * 2 ^ 24 = unat w + (2 * sz) * 2 ^ 23" by simp
    show "unat (GetCompact a) mod 2 ^ 23 = unat w" using A(1) unfolding U e mod_mult_self1 by simp
    show "even (unat (GetCompact a) div 2 ^ 23)" using A(1) unfolding U e div_mult_self1 [OF power_not_zero [OF zero_neq_numeral [symmetric]]] by simp
  qed
  have le: "uval a div 256 ^ (sz - 3) * 256 ^ (sz - 3) \<le> uval a" by (simp add: div_times_less_eq_dividend)
  have "uval a < 2 ^ 256" using uval_bound [of a] assms(1) by (simp add: WIDTH_def)
  with le have b: "uval a div 256 ^ (sz - 3) * 256 ^ (sz - 3) < 2 ^ 256" by linarith
  show "\<not> negative" using S(4) d by simp
  show "\<not> overflow" using S(3) b unfolding d A(4) by simp
  show "uval v = uval a div 256 ^ (sz - 3) * 256 ^ (sz - 3)" using S(2) b unfolding d A(4) by simp
qed

lemma compact_precision:
  assumes "length a = WIDTH" "SetCompact (GetCompact a) = (v, negative, overflow)"
  shows "uval v \<le> uval a" "(uval a - uval v) * 2 ^ 15 \<le> uval v"
proof -
  obtain sz w where p: "GetCompact_parts a = (sz, w)" by fastforce
  note A = GetCompact_assertions [OF assms(1) p]
  let ?K = "256 ^ (sz - 3) :: nat"
  have v: "uval v = uval a div ?K * ?K" by (rule SetCompact_GetCompact(3) [OF assms(1) p assms(2)])
  show "uval v \<le> uval a" by (simp add: v div_times_less_eq_dividend)
  show "(uval a - uval v) * 2 ^ 15 \<le> uval v"
  proof (cases "sz \<le> 3 \<or> uval a = 0")
    case False
    then have w: "2 ^ 15 \<le> unat w" and wv: "uval v = unat w * ?K"
      using A(3,4) v by (auto simp: compact_value_def)
    have "uval a - uval v = uval a mod ?K" unfolding v by (simp add: minus_div_mult_eq_mod)
    also have "\<dots> \<le> ?K" by simp
    finally have "(uval a - uval v) * 2 ^ 15 \<le> ?K * 2 ^ 15" by simp
    also have "\<dots> \<le> uval v" unfolding wv using w by (simp add: mult.commute)
    finally show ?thesis .
  qed (auto simp: v)
qed

section \<open>The 32-byte form\<close>

lemma uval_of_chunks:
  "4 * n \<le> length a \<Longrightarrow> uval (map (\<lambda>x. of_nat (from_le (take 4 (drop (x * 4) a)))) [0..<n]) = from_le (take (4 * n) a)"
proof (induction n)
  case (Suc n)
  let ?c = "take 4 (drop (n * 4) a)"
  have c: "length ?c = 4" using Suc.prems by simp
  then have "from_le ?c < 2 ^ 32" using from_le_bound [of ?c] by simp
  then have u: "unat (of_nat (from_le ?c) :: u32) = from_le ?c" by (simp add: unat_of_nat take_bit_nat_eq_self)
  have t: "take (4 * Suc n) a = take (4 * n) a @ ?c"
    using take_add [of "4 * n" 4 a] by (simp add: algebra_simps)
  show ?case using Suc unfolding t
    by (simp add: uval_append u from_le_append min_def power_mult)
qed simp

lemma uval_UintToArith256: "length a = 32 \<Longrightarrow> uval (UintToArith256 a) = from_le a"
  using uval_of_chunks [of WIDTH a] by (simp add: UintToArith256_def WIDTH_def)

lemma length_UintToArith256 [simp]: "length (UintToArith256 a) = WIDTH"
  by (simp add: UintToArith256_def)

lemma from_le_chunks: "from_le (concat (map (\<lambda>x. to_le 4 (unat x)) a)) = uval a"
proof (induction a)
  case (Cons x a)
  then show ?case using unat_u32_less [of x] by (simp add: from_le_append)
qed simp

lemma ArithToUint256_eq: "length a = WIDTH \<Longrightarrow> ArithToUint256 a = to_le 32 (uval a)"
proof -
  assume a: "length a = WIDTH"
  let ?c = "concat (map (\<lambda>x. to_le 4 (unat x)) a)"
  have "map (\<lambda>x. to_le 4 (unat (a ! x))) [0..<length a] = map (\<lambda>x. to_le 4 (unat x)) (map ((!) a) [0..<length a])"
    by (simp only: map_map comp_def)
  then have e: "ArithToUint256 a = ?c" by (simp add: ArithToUint256_def map_nth flip: a)
  have "length ?c = 32" using a by (simp add: length_concat comp_def WIDTH_def sum_list_triv)
  then have "to_le 32 (from_le ?c) = ?c" by (rule to_from_le)
  then show ?thesis by (simp only: e from_le_chunks)
qed

lemma Uint_Arith_roundtrip:
  "length h = 32 \<Longrightarrow> ArithToUint256 (UintToArith256 h) = h"
  "length a = WIDTH \<Longrightarrow> UintToArith256 (ArithToUint256 a) = a"
proof -
  show "length h = 32 \<Longrightarrow> ArithToUint256 (UintToArith256 h) = h"
    by (simp add: ArithToUint256_eq uval_UintToArith256)
  assume a: "length a = WIDTH"
  have "uval a < 256 ^ 32" using uval_bound [of a] a by (simp add: WIDTH_def)
  then have "uval (UintToArith256 (ArithToUint256 a)) = uval a"
    using a by (simp add: uval_UintToArith256 ArithToUint256_eq)
  then show "UintToArith256 (ArithToUint256 a) = a" using uval_inj [of "UintToArith256 (ArithToUint256 a)" a] a by simp
qed

section \<open>The arithmetic contract\<close>

text \<open>What the difficulty and chain-work code relies on: a fixed-width type with an abstraction to
  the naturals below \<open>2 ^ N\<close>, on which complement, increment, addition and division are the
  arithmetic ones.  The client lemma is the identity behind \<^verbatim>\<open>GetBitsProof\<close>: the number
  \<open>2 ^ N div (t + 1)\<close>, whose dividend does not fit the type, is computed inside it.\<close>

locale wide_arith =
  fixes val :: "'a \<Rightarrow> nat" and wf :: "'a \<Rightarrow> bool" and N :: nat
    and notw :: "'a \<Rightarrow> 'a" and incw :: "'a \<Rightarrow> 'a" and addw :: "'a \<Rightarrow> 'a \<Rightarrow> 'a"
    and divw :: "'a \<Rightarrow> 'a \<Rightarrow> 'a option" and onew :: 'a
  assumes val_bound: "wf a \<Longrightarrow> val a < 2 ^ N"
    and val_one: "val onew = 1" and wf_one: "wf onew"
    and val_not: "wf a \<Longrightarrow> val (notw a) = 2 ^ N - 1 - val a" and wf_not: "wf a \<Longrightarrow> wf (notw a)"
    and val_inc: "wf a \<Longrightarrow> val (incw a) = (val a + 1) mod 2 ^ N" and wf_inc: "wf a \<Longrightarrow> wf (incw a)"
    and val_add: "wf a \<Longrightarrow> wf b \<Longrightarrow> val (addw a b) = (val a + val b) mod 2 ^ N"
    and wf_add: "wf a \<Longrightarrow> wf b \<Longrightarrow> wf (addw a b)"
    and div_zero: "wf a \<Longrightarrow> wf b \<Longrightarrow> divw a b = None \<longleftrightarrow> val b = 0"
    and val_div: "wf a \<Longrightarrow> wf b \<Longrightarrow> divw a b = Some r \<Longrightarrow> val r = val a div val b \<and> wf r"
begin

lemma proof_defined:
  assumes "wf t" "val t < 2 ^ N - 1"
  obtains q where "divw (notw t) (addw t onew) = Some q"
    "val q = (2 ^ N - 1 - val t) div (val t + 1)" "wf q"
proof -
  have t1: "val (addw t onew) = val t + 1"
    using assms val_add [OF assms(1) wf_one] val_one by simp
  have w: "wf (addw t onew)" "wf (notw t)" using assms wf_add wf_one wf_not by auto
  have "divw (notw t) (addw t onew) \<noteq> None" using div_zero [OF w(2,1)] t1 by simp
  then obtain q where q: "divw (notw t) (addw t onew) = Some q" by blast
  show thesis using that q val_div [OF w(2,1) q] t1 val_not [OF assms(1)] by simp
qed

lemma complement_div:
  assumes "x < (M :: nat)"
  shows "(M - 1 - x) div (x + 1) + 1 = M div (x + 1)"
proof -
  have "M = (M - 1 - x) + (x + 1)" using assms by simp
  then have "M div (x + 1) = ((M - 1 - x) + (x + 1)) div (x + 1)" by simp
  also have "\<dots> = (M - 1 - x) div (x + 1) + 1" by (rule div_add_self2) simp
  finally show ?thesis ..
qed

lemma block_proof:
  assumes "wf t" "0 < val t" "val t < 2 ^ N - 1"
  obtains q where "divw (notw t) (addw t onew) = Some q"
    "val (addw q onew) = 2 ^ N div (val t + 1)" "wf (addw q onew)"
proof -
  obtain q where q: "divw (notw t) (addw t onew) = Some q"
    "val q = (2 ^ N - 1 - val t) div (val t + 1)" "wf q" by (rule proof_defined [OF assms(1,3)])
  have "val q + 1 = 2 ^ N div (val t + 1)" using complement_div [of "val t" "2 ^ N"] assms q(2) by simp
  moreover have "\<dots> < 2 ^ N" using assms by (intro div_less_dividend) auto
  ultimately have "val (addw q onew) = 2 ^ N div (val t + 1)"
    using val_add [OF q(3) wf_one] val_one by simp
  then show thesis using that q wf_add wf_one by blast
qed

end

interpretation arith256: wide_arith uval "\<lambda>a. length a = WIDTH" 256 uint_not uint_inc uint_add uint_div
  "base_uint_of_u64 1"
proof
  fix a b r :: limbs
  assume a: "length a = WIDTH"
  have w: "32 * length a = 256" using a by (simp add: WIDTH_def)
  show "uval a < 2 ^ 256" using uval_bound [of a] w by simp
  show "uval (uint_not a) = 2 ^ 256 - 1 - uval a" using uval_not [of a] w by simp
  show "length (uint_not a) = WIDTH" using a by simp
  show "uval (uint_inc a) = (uval a + 1) mod 2 ^ 256" using uval_inc [of a] w by simp
  show "length (uint_inc a) = WIDTH" using a by simp
  assume b: "length b = WIDTH"
  show "uval (uint_add a b) = (uval a + uval b) mod 2 ^ 256" using uval_add [of a b] a b w by (simp add: WIDTH_def)
  show "length (uint_add a b) = WIDTH" using a b by simp
  show "uint_div a b = None \<longleftrightarrow> uval b = 0" using uint_div_spec(1) [of a b] a b by simp
  show "uint_div a b = Some r \<Longrightarrow> uval r = uval a div uval b \<and> length r = WIDTH"
    using uint_div_spec(2) [of a b r] a b by simp
qed simp_all

section \<open>Properties\<close>

lemma uval_sub_mod:
  "length xs = length ys \<Longrightarrow> uval (uint_sub xs ys) = (uval xs + 2 ^ (32 * length xs) - uval ys) mod 2 ^ (32 * length xs)"
  using uval_bound [of ys] by (simp add: uint_sub_def uval_add uval_neg mod_add_right_eq)

text \<open>C7. Every \<^verbatim>\<open>base_uint\<close> operator computes on the represented number modulo \<open>2 ^ 256\<close>:
  addition, subtraction, negation, both multiplications and both shifts wrap exactly as the
  arithmetic says; comparison is the numeric one; \<^verbatim>\<open>bits()\<close> is the least width that holds the
  number; and division throws exactly on a zero divisor and otherwise returns the quotient.\<close>

theorem base_uint_refines_nat:
  assumes "length a = WIDTH" "length b = WIDTH"
  shows "uval (uint_add a b) = (uval a + uval b) mod 2 ^ 256
    \<and> uval (uint_sub a b) = (uval a + 2 ^ 256 - uval b) mod 2 ^ 256
    \<and> uval (uint_neg a) = (2 ^ 256 - uval a) mod 2 ^ 256
    \<and> uval (uint_mul a b) = (uval a * uval b) mod 2 ^ 256
    \<and> uval (uint_mul32 a m) = (uval a * unat m) mod 2 ^ 256
    \<and> uval (uint_shl a n) = (uval a * 2 ^ n) mod 2 ^ 256
    \<and> uval (uint_shr a n) = uval a div 2 ^ n
    \<and> CompareTo a b = (if uval a < uval b then - 1 else if uval a > uval b then 1 else 0)
    \<and> (uint_bits a \<le> n \<longleftrightarrow> uval a < 2 ^ n)
    \<and> (case uint_div a b of None \<Rightarrow> uval b = 0 | Some q \<Rightarrow> uval b \<noteq> 0 \<and> uval q = uval a div uval b)"
proof -
  have w: "32 * length a = 256" "length a = length b" using assms by (simp_all add: WIDTH_def)
  have "case uint_div a b of None \<Rightarrow> uval b = 0 | Some q \<Rightarrow> uval b \<noteq> 0 \<and> uval q = uval a div uval b"
    using uint_div_spec [OF w(2)] by (auto split: option.split)
  then show ?thesis
    unfolding uval_add [OF w(2)] uval_sub_mod [OF w(2)] uval_neg uval_mul(2) [OF w(2)] uval_mul32
      uval_shl uval_shr CompareTo_spec [OF w(2)] bits_le_iff w(1) by blast
qed

theorem base_uint_refines_nat_witness:
  "uval (uint_add ([0xffffffff, 0xffffffff, 0xffffffff, 0xffffffff, 0xffffffff, 0xffffffff, 0xffffffff, 0xffffffff]) (base_uint_of_u64 5)) = 4
    \<and> (\<exists>q. uint_div (base_uint_of_u64 100) (base_uint_of_u64 7) = Some q \<and> uval q = 14)"
proof
  have "uval (uint_add ([0xffffffff, 0xffffffff, 0xffffffff, 0xffffffff, 0xffffffff, 0xffffffff, 0xffffffff, 0xffffffff]) (base_uint_of_u64 5))
      = (uval ([0xffffffff, 0xffffffff, 0xffffffff, 0xffffffff, 0xffffffff, 0xffffffff, 0xffffffff, 0xffffffff]) + uval (base_uint_of_u64 5)) mod 2 ^ 256"
    using base_uint_refines_nat [of "[0xffffffff, 0xffffffff, 0xffffffff, 0xffffffff, 0xffffffff, 0xffffffff, 0xffffffff, 0xffffffff]" "base_uint_of_u64 5"] by (simp add: WIDTH_def)
  then show "uval (uint_add ([0xffffffff, 0xffffffff, 0xffffffff, 0xffffffff, 0xffffffff, 0xffffffff, 0xffffffff, 0xffffffff]) (base_uint_of_u64 5)) = 4"
    by simp
  have "case uint_div (base_uint_of_u64 100) (base_uint_of_u64 7) of None \<Rightarrow> uval (base_uint_of_u64 7) = 0
      | Some q \<Rightarrow> uval (base_uint_of_u64 7) \<noteq> 0 \<and> uval q = uval (base_uint_of_u64 100) div uval (base_uint_of_u64 7)"
    using base_uint_refines_nat [OF length_base_uint_of_u64 length_base_uint_of_u64] by blast
  then show "\<exists>q. uint_div (base_uint_of_u64 100) (base_uint_of_u64 7) = Some q \<and> uval q = 14"
    by (cases "uint_div (base_uint_of_u64 100) (base_uint_of_u64 7)") simp_all
qed

text \<open>C8. Decoding a compact target is exact: \<^verbatim>\<open>SetCompact\<close> yields mantissa times a power of 256
  modulo \<open>2 ^ 256\<close>, and its overflow flag, written in the code as three size tests, is raised
  exactly when the encoded number does not fit 256 bits.\<close>

theorem SetCompact_exact:
  "case SetCompact c of (v, negative, overflow) \<Rightarrow>
     let n = compact_value (unat c div 2 ^ 24) (unat c mod 2 ^ 23) in
       uval v = n mod 2 ^ 256 \<and> (overflow \<longleftrightarrow> 2 ^ 256 \<le> n)"
proof -
  obtain v negative overflow where s: "SetCompact c = (v, negative, overflow)" by (cases "SetCompact c")
  show ?thesis unfolding s Let_def prod.case using SetCompact_spec(2,3) [OF s] by blast
qed

text \<open>C9. Encoding a 256-bit number and decoding it again never sets the sign or the overflow flag,
  never increases the number, and loses less than one part in \<open>2 ^ 15\<close>.\<close>

theorem GetCompact_roundtrip:
  assumes "length a = WIDTH"
  shows "case SetCompact (GetCompact a) of (v, negative, overflow) \<Rightarrow>
    \<not> negative \<and> \<not> overflow \<and> uval v \<le> uval a \<and> (uval a - uval v) * 2 ^ 15 \<le> uval v"
proof -
  obtain v negative overflow where s: "SetCompact (GetCompact a) = (v, negative, overflow)"
    by (cases "SetCompact (GetCompact a)")
  obtain sz w where p: "GetCompact_parts a = (sz, w)" by fastforce
  show ?thesis unfolding s prod.case
    using SetCompact_GetCompact(1,2) [OF assms p s] compact_precision [OF assms s] by blast
qed

theorem GetCompact_roundtrip_witness:
  "case SetCompact (GetCompact (base_uint_of_u64 0x123456789)) of (v, negative, overflow) \<Rightarrow>
    \<not> negative \<and> \<not> overflow \<and> uval v \<le> 0x123456789 \<and> (0x123456789 - uval v) * 2 ^ 15 \<le> uval v"
  using GetCompact_roundtrip [of "base_uint_of_u64 0x123456789"] by simp

end
