(* ===== verification/Hash_Stream.thy ===== *)
theory Hash_Stream
  imports Prelude
begin

text \<open>
  The streaming hashers of \<^verbatim>\<open>crypto/\<close>: \<^verbatim>\<open>CSHA256\<close>, \<^verbatim>\<open>CSHA1\<close> and \<^verbatim>\<open>CRIPEMD160\<close> have the same three members
  and the same \<^verbatim>\<open>Write\<close>, over different transformations of a 64-byte chunk.  The state and \<open>hash_write\<close> are
  defined here for any transformation; the locale \<open>block_hash\<close> shows, for a transformation that reads only its
  chunk, that a sequence of \<^verbatim>\<open>Write\<close> calls absorbs the concatenation of the data.
\<close>

section \<open>The hasher\<close>

record hasher =
  s :: "u32 list"
  buf :: bytes
  nbytes :: u64

text \<open>\<open>memcpy\<close> of \<open>src\<close> into \<open>dst\<close> at an offset.\<close>

definition memcpy :: "bytes \<Rightarrow> nat \<Rightarrow> bytes \<Rightarrow> bytes" where
  "memcpy dst off src = take off dst @ src @ drop (off + length src) dst"

text \<open>The loop over the whole chunks of the data.\<close>

primrec hash_blocks :: "(u32 list \<Rightarrow> bytes \<Rightarrow> u32 list) \<Rightarrow> u32 list \<Rightarrow> bytes \<Rightarrow> nat \<Rightarrow> u32 list" where
  "hash_blocks f st chunk 0 = st"
| "hash_blocks f st chunk (Suc blocks) = hash_blocks f (f st chunk) (drop 64 chunk) blocks"

definition hash_write :: "(u32 list \<Rightarrow> bytes \<Rightarrow> u32 list) \<Rightarrow> hasher \<Rightarrow> bytes \<Rightarrow> hasher" where
  "hash_write f c data0 =
     (let bufsize0 = unat (nbytes c) mod 64;
          (c1, data1, bufsize1) =
            (if bufsize0 \<noteq> 0 \<and> bufsize0 + length data0 \<ge> 64
             then let b = memcpy (buf c) bufsize0 (take (64 - bufsize0) data0)
                  in (c\<lparr>buf := b, nbytes := nbytes c + of_nat (64 - bufsize0), s := hash_blocks f (s c) b 1\<rparr>,
                      drop (64 - bufsize0) data0, 0)
             else (c, data0, bufsize0));
          (c2, data2) =
            (if length data1 \<ge> 64
             then let blocks = length data1 div 64
                  in (c1\<lparr>s := hash_blocks f (s c1) data1 blocks, nbytes := nbytes c1 + of_nat (64 * blocks)\<rparr>,
                      drop (64 * blocks) data1)
             else (c1, data1))
      in if data2 \<noteq> [] then c2\<lparr>buf := memcpy (buf c2) bufsize1 data2, nbytes := nbytes c2 + of_nat (length data2)\<rparr>
         else c2)"

text \<open>The two writes of \<^verbatim>\<open>Finalize\<close>: the padding and the length.\<close>

definition hash_finish :: "(u32 list \<Rightarrow> bytes \<Rightarrow> u32 list) \<Rightarrow> bytes \<Rightarrow> hasher \<Rightarrow> hasher" where
  "hash_finish f sizedesc c =
     hash_write f (hash_write f c (take (1 + (119 - unat (nbytes c) mod 64) mod 64) (0x80 # replicate 63 0))) sizedesc"

section \<open>Blocks\<close>

lemma length_memcpy: "off + length src \<le> length dst \<Longrightarrow> length (memcpy dst off src) = length dst"
  by (simp add: memcpy_def)

lemma take_memcpy:
  "off \<le> length dst \<Longrightarrow> take (off + length src) (memcpy dst off src) = take off dst @ src"
  by (simp add: memcpy_def)

text \<open>Arithmetic of whole and incomplete 64-byte blocks.\<close>

lemma block_rest:
  assumes "n mod 64 + l < (64 :: nat)"
  shows "(n + l) div 64 = n div 64" "(n + l) mod 64 = n mod 64 + l"
proof -
  have "n + l = 64 * (n div 64) + (n mod 64 + l)" by simp
  then show "(n + l) div 64 = n div 64" "(n + l) mod 64 = n mod 64 + l"
    using assms by (metis div_mult_self4 div_less add_cancel_right_right zero_neq_numeral, metis mod_mult_self4 mod_less)
qed

lemma block_fill:
  assumes "n mod 64 + l = (64 :: nat)"
  shows "n + l = 64 * (n div 64 + 1)"
proof -
  have "n + l = 64 * (n div 64) + (n mod 64 + l)" by simp
  then show ?thesis unfolding assms by simp
qed

lemma block_pad: "(n + (1 + (119 - n mod 64) mod 64) + 8) mod (64 :: nat) = 0"
proof -
  define q r where "q = n div 64" and "r = n mod 64"
  have n: "n = 64 * q + r" and r: "r < 64" by (simp_all add: q_def r_def)
  have "(r + (1 + (119 - r) mod 64) + 8) mod 64 = 0"
  proof (cases "r < 56")
    case True
    then have "119 - r = (55 - r) + 64" by simp
    then have "(119 - r) mod 64 = 55 - r" using True by (metis mod_add_self2 mod_less diff_less_mono2 less_imp_diff_less less_numeral_extra(1) numeral_less_iff semiring_norm(76) semiring_norm(78) semiring_norm(80) semiring_norm(81))
    then show ?thesis using True by simp
  next
    case False
    then show ?thesis using r by simp
  qed
  moreover have "n + (1 + (119 - n mod 64) mod 64) + 8 = 64 * q + (r + (1 + (119 - r) mod 64) + 8)"
    unfolding r_def q_def by simp
  ultimately show ?thesis by (simp only: mod_mult_self4)
qed

section \<open>What a hasher has absorbed\<close>

locale block_hash =
  fixes f :: "u32 list \<Rightarrow> bytes \<Rightarrow> u32 list" and init :: "u32 list"
  assumes take64: "64 \<le> n \<Longrightarrow> f st (take n chunk) = f st chunk"
begin

lemma hash_blocks_take: "64 * k \<le> n \<Longrightarrow> hash_blocks f st (take n chunk) k = hash_blocks f st chunk k"
proof (induction k arbitrary: st n chunk)
  case (Suc k)
  have "hash_blocks f st (take n chunk) (Suc k) = hash_blocks f (f st chunk) (take (n - 64) (drop 64 chunk)) k"
    using Suc.prems by (simp add: take64 drop_take)
  also have "\<dots> = hash_blocks f st chunk (Suc k)" using Suc.IH [of "n - 64"] Suc.prems by simp
  finally show ?case .
qed simp

lemma hash_blocks_add: "hash_blocks f st chunk (j + k) = hash_blocks f (hash_blocks f st chunk j) (drop (64 * j) chunk) k"
  by (induction j arbitrary: st chunk) (simp_all add: add.commute)

lemma hash_blocks_append: "64 * k \<le> length a \<Longrightarrow> hash_blocks f st (a @ b) k = hash_blocks f st a k"
  using hash_blocks_take [of k "length a" st "a @ b"] hash_blocks_take [of k "length a" st a] by simp

text \<open>The hasher has absorbed \<open>m\<close>: the chaining value is that of its whole blocks, the counter is
  its length at the width of the counter, and the buffer starts with the incomplete block.\<close>

definition absorbs :: "hasher \<Rightarrow> bytes \<Rightarrow> bool" where
  "absorbs c m \<longleftrightarrow> nbytes c = of_nat (length m) \<and> length (buf c) = 64
     \<and> take (length m mod 64) (buf c) = drop (64 * (length m div 64)) m
     \<and> s c = hash_blocks f init m (length m div 64)"

lemma nbytes_mod: "absorbs c m \<Longrightarrow> unat (nbytes c) mod 64 = length m mod 64"
proof -
  have "length m mod 2 ^ 64 mod 64 = length m mod 64"
    using mod_mod_cancel [of 64 "2 ^ 64" "length m"] by simp
  then show "absorbs c m \<Longrightarrow> unat (nbytes c) mod 64 = length m mod 64"
    by (simp add: absorbs_def unat_of_nat take_bit_eq_mod)
qed

lemma absorbs_rest:
  assumes "absorbs c m" "length m mod 64 + length d < 64"
  shows "absorbs (c\<lparr>buf := memcpy (buf c) (length m mod 64) d, nbytes := nbytes c + of_nat (length d)\<rparr>) (m @ d)"
proof -
  let ?r = "length m mod 64" and ?q = "length m div 64"
  have q: "(length m + length d) div 64 = ?q" "(length m + length d) mod 64 = ?r + length d"
    using block_rest [OF assms(2)] by auto
  have "64 * ?q \<le> length m" by simp
  then show ?thesis using assms
    by (simp add: absorbs_def q length_memcpy take_memcpy hash_blocks_append)
qed

lemma absorbs_fill:
  assumes "absorbs c m" "length m mod 64 + length d = 64"
  shows "absorbs (c\<lparr>buf := memcpy (buf c) (length m mod 64) d, nbytes := nbytes c + of_nat (length d),
    s := hash_blocks f (s c) (memcpy (buf c) (length m mod 64) d) 1\<rparr>) (m @ d)"
proof -
  let ?r = "length m mod 64" and ?q = "length m div 64"
  have l: "length m + length d = 64 * (?q + 1)" using block_fill [OF assms(2)] .
  have q: "(length m + length d) div 64 = ?q + 1" "(length m + length d) mod 64 = 0"
    unfolding l by simp_all
  have b: "memcpy (buf c) ?r d = drop (64 * ?q) m @ d"
    using assms by (simp add: absorbs_def memcpy_def)
  have "64 * ?q \<le> length m" by simp
  then have "hash_blocks f init (m @ d) (?q + 1) = hash_blocks f (hash_blocks f init m ?q) (drop (64 * ?q) m @ d) 1"
    unfolding hash_blocks_add by (simp add: hash_blocks_append)
  moreover have "drop (64 * (?q + 1)) (m @ d) = []" using l by simp
  ultimately show ?thesis using assms q unfolding absorbs_def
    by (simp add: length_memcpy) (simp add: b)
qed

lemma absorbs_blocks:
  assumes "absorbs c m" "length m mod 64 = 0" "64 * k \<le> length d"
  shows "absorbs (c\<lparr>s := hash_blocks f (s c) d k, nbytes := nbytes c + of_nat (64 * k)\<rparr>) (m @ take (64 * k) d)"
proof -
  let ?q = "length m div 64"
  have m: "length m = 64 * ?q" using assms(2) by auto
  have q: "(length m + 64 * k) div 64 = ?q + k" "(length m + 64 * k) mod 64 = 0"
    using assms(2) by simp_all
  have "hash_blocks f init (m @ take (64 * k) d) (?q + k) = hash_blocks f (hash_blocks f init m ?q) d k"
    unfolding hash_blocks_add using m by (simp add: hash_blocks_append hash_blocks_take)
  then show ?thesis using assms m
    by (simp add: absorbs_def q min_absorb2)
qed

lemma absorbs_Write:
  assumes "absorbs c m"
  shows "absorbs (hash_write f c d) (m @ d)"
proof -
  let ?r = "length m mod 64"
  note r = nbytes_mod [OF assms]
  let ?fill = "?r \<noteq> 0 \<and> 64 \<le> ?r + length d"
  let ?b = "memcpy (buf c) ?r (take (64 - ?r) d)"
  define c1 where "c1 = (if ?fill then c\<lparr>buf := ?b, nbytes := nbytes c + of_nat (64 - ?r), s := hash_blocks f (s c) ?b 1\<rparr> else c)"
  define m1 where "m1 = (if ?fill then m @ take (64 - ?r) d else m)"
  define d1 where "d1 = (if ?fill then drop (64 - ?r) d else d)"
  have c1: "absorbs c1 m1"
  proof (cases ?fill)
    case True
    then have "length (take (64 - ?r) d) = 64 - ?r" by (auto simp: min_def)
    then show ?thesis using True absorbs_fill [OF assms, of "take (64 - ?r) d"] by (simp add: c1_def m1_def)
  next
    case False
    then show ?thesis unfolding c1_def m1_def if_not_P [OF False] by (simp only: assms)
  qed
  have m1: "m1 @ d1 = m @ d" by (simp add: m1_def d1_def)
  have r1: "length m1 mod 64 = (if ?fill then 0 else ?r)"
  proof -
    have "(length m + (64 - ?r)) mod 64 = 0" using block_fill [of "length m" "64 - ?r"] by simp
    moreover have "?fill \<Longrightarrow> length m1 = length m + (64 - ?r)" by (auto simp: m1_def min_def)
    ultimately show ?thesis by (cases ?fill) (simp_all add: m1_def)
  qed
  have blk: "64 \<le> length d1 \<Longrightarrow> length m1 mod 64 = 0" using r1 by (auto simp: d1_def)
  define k where "k = length d1 div 64"
  define c2 where "c2 = (if 64 \<le> length d1 then c1\<lparr>s := hash_blocks f (s c1) d1 k, nbytes := nbytes c1 + of_nat (64 * k)\<rparr> else c1)"
  define m2 where "m2 = (if 64 \<le> length d1 then m1 @ take (64 * k) d1 else m1)"
  define d2 where "d2 = (if 64 \<le> length d1 then drop (64 * k) d1 else d1)"
  have c2: "absorbs c2 m2" using absorbs_blocks [OF c1, of k d1] blk c1 by (auto simp: c2_def m2_def k_def)
  have m2: "m2 @ d2 = m @ d" using m1 by (simp add: m2_def d2_def)
  have m2mod: "length m2 mod 64 = length m1 mod 64"
    by (simp add: m2_def k_def min_absorb2)
  have r2: "length m2 mod 64 = (if ?fill then 0 else ?r)" using r1 m2mod by simp
  have d2: "length m2 mod 64 + length d2 < 64"
  proof (cases "64 \<le> length d1")
    case True
    then have "length m2 mod 64 = 0" using blk [OF True] m2mod by simp
    moreover have "length d2 < 64" using True by (simp add: d2_def k_def minus_mult_div_eq_mod)
    ultimately show ?thesis by simp
  next
    case False
    then show ?thesis unfolding r2 using r1 by (auto simp: d2_def d1_def not_le)
  qed
  have s1: "(if ?fill then let b = ?b in (c\<lparr>buf := b, nbytes := nbytes c + of_nat (64 - ?r), s := hash_blocks f (s c) b 1\<rparr>,
      drop (64 - ?r) d, 0) else (c, d, ?r)) = (c1, d1, if ?fill then 0 else ?r)"
    by (simp only: c1_def d1_def Let_def split: if_split) blast
  have s2: "(if 64 \<le> length d1 then let blocks = length d1 div 64 in
      (c1\<lparr>s := hash_blocks f (s c1) d1 blocks, nbytes := nbytes c1 + of_nat (64 * blocks)\<rparr>, drop (64 * blocks) d1)
      else (c1, d1)) = (c2, d2)"
    by (simp only: c2_def d2_def k_def Let_def split: if_split) blast
  have "hash_write f c d = (if d2 \<noteq> [] then c2\<lparr>buf := memcpy (buf c2) (if ?fill then 0 else ?r) d2,
      nbytes := nbytes c2 + of_nat (length d2)\<rparr> else c2)"
    unfolding hash_write_def r by (subst Let_def, subst s1, subst Let_def, subst prod.case, subst prod.case,
      subst Let_def, subst s2, subst prod.case, rule refl)
  then show ?thesis using absorbs_rest [OF c2 d2] c2 unfolding m2 [symmetric] r2 by auto
qed

lemma absorbs_Writes: "absorbs c m \<Longrightarrow> absorbs (foldl (hash_write f) c ds) (m @ concat ds)"
proof (induction ds arbitrary: c m)
  case (Cons d ds)
  then show ?case using absorbs_Write [of c m d] Cons.IH by fastforce
qed simp

lemma absorbs_init: "absorbs \<lparr>s = init, buf = replicate 64 0, nbytes = 0\<rparr> []"
  by (simp add: absorbs_def)

lemma absorbs_restart: "absorbs c m \<Longrightarrow> absorbs (c\<lparr>nbytes := 0, s := init\<rparr>) []"
  by (simp add: absorbs_def)

lemma absorbs_length: "absorbs c m \<Longrightarrow> push_bit 3 (nbytes c) = (of_nat (8 * length m) :: u64)"
  by (simp add: absorbs_def push_bit_eq_mult)

lemma finish:
  assumes "absorbs c m" "p = m @ 0x80 # replicate ((119 - length m mod 64) mod 64) 0 @ sd"
  shows "s (hash_finish f sd c) = hash_blocks f init p (length p div 64)"
proof -
  let ?p = "take (1 + (119 - length m mod 64) mod 64) (0x80 # replicate 63 0) :: bytes"
  have "?p = 0x80 # replicate ((119 - length m mod 64) mod 64) 0" by (simp add: take_Cons' min_def)
  then have "p = (m @ ?p) @ sd" using assms(2) by simp
  then have "absorbs (hash_write f (hash_write f c ?p) sd) p"
    using absorbs_Write [OF absorbs_Write [OF assms(1)]] by metis
  then show ?thesis by (simp add: absorbs_def hash_finish_def nbytes_mod [OF assms(1)])
qed

end

lemma to_le_mod: "to_le n (v mod 256 ^ n) = to_le n v"
  using to_from_le [of "to_le n v" n] by simp

lemma to_le_u64: "to_le 8 (unat (of_nat v :: u64)) = to_le 8 v"
proof -
  have "unat (of_nat v :: u64) = v mod 256 ^ 8" by (simp only: unat_of_nat take_bit_eq_mod) simp
  then show ?thesis by (simp only: to_le_mod)
qed

end
