(* ===== verification/Sha256.thy ===== *)
theory Sha256
  imports Hash_Stream
begin

unbundle bit_operations_syntax

text \<open>
  \<^verbatim>\<open>crypto/sha256.cpp\<close>: the portable transform and the streaming hasher \<^verbatim>\<open>CSHA256\<close>, with
  the double-hash wrappers of \<^verbatim>\<open>hash.h\<close>.  The source unrolls the 64 rounds and permutes the
  argument order of \<^verbatim>\<open>Round\<close> instead of moving the eight working variables; here the
  variables move.  The sixteen-word schedule is updated in place, as in the source.  The
  lemmas show that any sequence of \<^verbatim>\<open>Write\<close> calls followed by \<^verbatim>\<open>Finalize\<close> hashes the
  concatenation of the written data, padded as SHA-256 prescribes.
\<close>

section \<open>The transform\<close>

definition ReadBE32 :: "bytes \<Rightarrow> u32" where
  "ReadBE32 p = of_nat (from_le (rev (take 4 p)))"

definition WriteBE32 :: "u32 \<Rightarrow> bytes" where
  "WriteBE32 x = rev (to_le 4 (unat x))"

definition WriteBE64 :: "u64 \<Rightarrow> bytes" where
  "WriteBE64 x = rev (to_le 8 (unat x))"

definition Ch :: "u32 \<Rightarrow> u32 \<Rightarrow> u32 \<Rightarrow> u32" where
  "Ch x y z = z XOR (x AND (y XOR z))"

definition Maj :: "u32 \<Rightarrow> u32 \<Rightarrow> u32 \<Rightarrow> u32" where
  "Maj x y z = (x AND y) OR (z AND (x OR y))"

definition Sigma0 :: "u32 \<Rightarrow> u32" where
  "Sigma0 x = (drop_bit 2 x OR push_bit 30 x) XOR (drop_bit 13 x OR push_bit 19 x) XOR (drop_bit 22 x OR push_bit 10 x)"

definition Sigma1 :: "u32 \<Rightarrow> u32" where
  "Sigma1 x = (drop_bit 6 x OR push_bit 26 x) XOR (drop_bit 11 x OR push_bit 21 x) XOR (drop_bit 25 x OR push_bit 7 x)"

definition sigma0 :: "u32 \<Rightarrow> u32" where
  "sigma0 x = (drop_bit 7 x OR push_bit 25 x) XOR (drop_bit 18 x OR push_bit 14 x) XOR drop_bit 3 x"

definition sigma1 :: "u32 \<Rightarrow> u32" where
  "sigma1 x = (drop_bit 17 x OR push_bit 15 x) XOR (drop_bit 19 x OR push_bit 13 x) XOR drop_bit 10 x"

text \<open>The working variables \<open>a\<close> to \<open>h\<close>.\<close>

type_synonym sha_vars = "u32 \<times> u32 \<times> u32 \<times> u32 \<times> u32 \<times> u32 \<times> u32 \<times> u32"

fun Round :: "sha_vars \<Rightarrow> u32 \<Rightarrow> sha_vars" where
  "Round (a, b, c, d, e, f, g, h) k =
     (let t1 = h + Sigma1 e + Ch e f g + k;
          t2 = Sigma0 a + Maj a b c
      in (t1 + t2, a, b, c, d + t1, e, f, g))"

text \<open>The rounds in source order: the constant of the round and the slot \<open>w0\<close> to \<open>w15\<close> of the
  schedule that the same call adds to it.\<close>

definition round_table :: "(u32 \<times> nat) list" where
  "round_table =
    [(0x428a2f98, 0), (0x71374491, 1), (0xb5c0fbcf, 2), (0xe9b5dba5, 3), (0x3956c25b, 4), (0x59f111f1, 5),
     (0x923f82a4, 6), (0xab1c5ed5, 7), (0xd807aa98, 8), (0x12835b01, 9), (0x243185be, 10), (0x550c7dc3, 11),
     (0x72be5d74, 12), (0x80deb1fe, 13), (0x9bdc06a7, 14), (0xc19bf174, 15), (0xe49b69c1, 0), (0xefbe4786, 1),
     (0x0fc19dc6, 2), (0x240ca1cc, 3), (0x2de92c6f, 4), (0x4a7484aa, 5), (0x5cb0a9dc, 6), (0x76f988da, 7),
     (0x983e5152, 8), (0xa831c66d, 9), (0xb00327c8, 10), (0xbf597fc7, 11), (0xc6e00bf3, 12), (0xd5a79147, 13),
     (0x06ca6351, 14), (0x14292967, 15), (0x27b70a85, 0), (0x2e1b2138, 1), (0x4d2c6dfc, 2), (0x53380d13, 3),
     (0x650a7354, 4), (0x766a0abb, 5), (0x81c2c92e, 6), (0x92722c85, 7), (0xa2bfe8a1, 8), (0xa81a664b, 9),
     (0xc24b8b70, 10), (0xc76c51a3, 11), (0xd192e819, 12), (0xd6990624, 13), (0xf40e3585, 14), (0x106aa070, 15),
     (0x19a4c116, 0), (0x1e376c08, 1), (0x2748774c, 2), (0x34b0bcb5, 3), (0x391c0cb3, 4), (0x4ed8aa4a, 5),
     (0x5b9cca4f, 6), (0x682e6ff3, 7), (0x748f82ee, 8), (0x78a5636f, 9), (0x84c87814, 10), (0x8cc70208, 11),
     (0x90befffa, 12), (0xa4506ceb, 13), (0xbef9a3f7, 14), (0xc67178f2, 15)]"

definition round_constants :: "u32 list" where
  "round_constants = map fst round_table"

definition Initialize :: "u32 list" where
  "Initialize = [0x6a09e667, 0xbb67ae85, 0x3c6ef372, 0xa54ff53a, 0x510e527f, 0x9b05688c, 0x1f83d9ab, 0x5be0cd19]"

text \<open>Round \<open>i\<close> on the schedule and the working variables: the first sixteen rounds read the
  chunk, the others add \<open>sigma1(w14) + w9 + sigma0(w1)\<close>, relative to their own slot.\<close>

definition schedule_step :: "bytes \<Rightarrow> nat \<Rightarrow> u32 list \<Rightarrow> u32 list" where
  "schedule_step chunk i w =
     (if i < 16 then w[i := ReadBE32 (drop (4 * i) chunk)]
      else w[i mod 16 := w ! (i mod 16)
        + (sigma1 (w ! ((i + 14) mod 16)) + w ! ((i + 9) mod 16) + sigma0 (w ! ((i + 1) mod 16)))])"

definition round_step :: "bytes \<Rightarrow> nat \<Rightarrow> u32 list \<times> sha_vars \<Rightarrow> u32 list \<times> sha_vars" where
  "round_step chunk i st =
     (let w = schedule_step chunk i (fst st)
      in (w, Round (snd st) (round_constants ! i + w ! snd (round_table ! i))))"

definition vars_of :: "u32 list \<Rightarrow> sha_vars" where
  "vars_of st = (st ! 0, st ! 1, st ! 2, st ! 3, st ! 4, st ! 5, st ! 6, st ! 7)"

definition list_of_vars :: "sha_vars \<Rightarrow> u32 list" where
  "list_of_vars v = (case v of (a, b, c, d, e, f, g, h) \<Rightarrow> [a, b, c, d, e, f, g, h])"

definition Transform1 :: "u32 list \<Rightarrow> bytes \<Rightarrow> u32 list" where
  "Transform1 st chunk =
     map2 (+) st (list_of_vars (snd (fold (round_step chunk) [0..<64] (replicate 16 0, vars_of st))))"

primrec Transform :: "u32 list \<Rightarrow> bytes \<Rightarrow> nat \<Rightarrow> u32 list" where
  "Transform st chunk 0 = st"
| "Transform st chunk (Suc blocks) = Transform (Transform1 st chunk) (drop 64 chunk) blocks"

section \<open>The streaming hasher\<close>

text \<open>\<^verbatim>\<open>CSHA256\<close> is a hasher with eight words of state.\<close>

type_synonym CSHA256 = hasher

definition CSHA256_init :: CSHA256 where
  "CSHA256_init = \<lparr>s = Initialize, buf = replicate 64 0, nbytes = 0\<rparr>"

definition CSHA256_Write :: "CSHA256 \<Rightarrow> bytes \<Rightarrow> CSHA256" where
  "CSHA256_Write c data0 =
     (let bufsize0 = unat (nbytes c) mod 64;
          (c1, data1, bufsize1) =
            (if bufsize0 \<noteq> 0 \<and> bufsize0 + length data0 \<ge> 64
             then let b = memcpy (buf c) bufsize0 (take (64 - bufsize0) data0)
                  in (c\<lparr>buf := b, nbytes := nbytes c + of_nat (64 - bufsize0), s := Transform (s c) b 1\<rparr>,
                      drop (64 - bufsize0) data0, 0)
             else (c, data0, bufsize0));
          (c2, data2) =
            (if length data1 \<ge> 64
             then let blocks = length data1 div 64
                  in (c1\<lparr>s := Transform (s c1) data1 blocks, nbytes := nbytes c1 + of_nat (64 * blocks)\<rparr>,
                      drop (64 * blocks) data1)
             else (c1, data1))
      in if data2 \<noteq> [] then c2\<lparr>buf := memcpy (buf c2) bufsize1 data2, nbytes := nbytes c2 + of_nat (length data2)\<rparr>
         else c2)"

definition CSHA256_Finalize :: "CSHA256 \<Rightarrow> bytes" where
  "CSHA256_Finalize c =
     (let sizedesc = WriteBE64 (push_bit 3 (nbytes c));
          pad = 0x80 # replicate 63 0;
          c1 = CSHA256_Write c (take (1 + (119 - unat (nbytes c) mod 64) mod 64) pad);
          c2 = CSHA256_Write c1 sizedesc
      in concat (map WriteBE32 (s c2)))"

definition CSHA256_Reset :: "CSHA256 \<Rightarrow> CSHA256" where
  "CSHA256_Reset c = c\<lparr>nbytes := 0, s := Initialize\<rparr>"

section \<open>Double hashing\<close>

definition CHash256_Finalize :: "CSHA256 \<Rightarrow> uint256" where
  "CHash256_Finalize sha =
     CSHA256_Finalize (CSHA256_Write (CSHA256_Reset sha) (CSHA256_Finalize sha))"

definition Hash :: "bytes \<Rightarrow> uint256" where
  "Hash in1 = CHash256_Finalize (CSHA256_Write CSHA256_init in1)"

definition Hash2 :: "bytes \<Rightarrow> bytes \<Rightarrow> uint256" where
  "Hash2 in1 in2 = CHash256_Finalize (CSHA256_Write (CSHA256_Write CSHA256_init in1) in2)"

definition HashWriter_GetHash :: "CSHA256 \<Rightarrow> uint256" where
  "HashWriter_GetHash ctx = CHash256_Finalize ctx"

definition HashWriter_GetSHA256 :: "CSHA256 \<Rightarrow> uint256" where
  "HashWriter_GetSHA256 ctx = CSHA256_Finalize ctx"

definition SHA256Uint256 :: "uint256 \<Rightarrow> uint256" where
  "SHA256Uint256 input = CSHA256_Finalize (CSHA256_Write CSHA256_init input)"

section \<open>Streaming is hashing the concatenation\<close>

lemma Transform1_take: "64 \<le> n \<Longrightarrow> Transform1 st (take n chunk) = Transform1 st chunk"
proof -
  assume n: "64 \<le> n"
  have "schedule_step (take n chunk) i = schedule_step chunk i" for i
    using n by (auto simp: fun_eq_iff schedule_step_def ReadBE32_def take_drop min_def)
  then have "round_step (take n chunk) = round_step chunk"
    by (simp add: fun_eq_iff round_step_def)
  then show ?thesis by (simp add: Transform1_def)
qed

lemma Transform_blocks: "Transform st chunk k = hash_blocks Transform1 st chunk k"
  by (induction k arbitrary: st chunk) simp_all

interpretation sha256_stream: block_hash Transform1 Initialize
  by unfold_locales (rule Transform1_take)

lemma CSHA256_Write_eq: "CSHA256_Write = hash_write Transform1"
  by (intro ext) (unfold CSHA256_Write_def hash_write_def Transform_blocks, rule refl)

lemma CSHA256_Finalize_eq:
  "CSHA256_Finalize c = concat (map WriteBE32 (s (hash_finish Transform1 (WriteBE64 (push_bit 3 (nbytes c))) c)))"
  by (simp add: CSHA256_Finalize_def hash_finish_def CSHA256_Write_eq Let_def)

section \<open>The reference hash\<close>

text \<open>SHA-256 of a message: append the bit 1, zeros up to 56 modulo 64 bytes, and the length in bits
  as a 64-bit big-endian number; then fold the transform over the blocks.\<close>

definition sha_pad :: "bytes \<Rightarrow> bytes" where
  "sha_pad m = m @ 0x80 # replicate ((119 - length m mod 64) mod 64) 0 @ rev (to_le 8 (8 * length m))"

definition sha256 :: "bytes \<Rightarrow> bytes" where
  "sha256 m = concat (map WriteBE32 (Transform Initialize (sha_pad m) (length (sha_pad m) div 64)))"

lemma sha256_finish:
  assumes "sha256_stream.absorbs c m"
  shows "CSHA256_Finalize c = sha256 m"
proof -
  have "WriteBE64 (push_bit 3 (nbytes c)) = rev (to_le 8 (8 * length m))"
    by (simp only: WriteBE64_def sha256_stream.absorbs_length [OF assms] to_le_u64)
  then show ?thesis unfolding CSHA256_Finalize_eq sha256_def Transform_blocks
    using sha256_stream.finish [OF assms sha_pad_def] by simp
qed

lemma sha256_write:
  "CSHA256_Finalize (CSHA256_Write CSHA256_init m) = sha256 m"
  "CSHA256_Finalize (CSHA256_Write (CSHA256_Write CSHA256_init m) n) = sha256 (m @ n)"
  using sha256_finish [OF sha256_stream.absorbs_Write [OF sha256_stream.absorbs_init]]
    sha256_finish [OF sha256_stream.absorbs_Write [OF sha256_stream.absorbs_Write [OF sha256_stream.absorbs_init]]]
  by (simp_all add: CSHA256_Write_eq CSHA256_init_def)

lemma length_sha_pad: "length (sha_pad m) mod 64 = 0"
  using block_pad [of "length m"] by (simp add: sha_pad_def algebra_simps)

lemma sha256_rewrite:
  assumes "sha256_stream.absorbs c m"
  shows "CSHA256_Finalize (CSHA256_Write (CSHA256_Reset c) d) = sha256 d"
  using sha256_finish [OF sha256_stream.absorbs_Write [OF sha256_stream.absorbs_restart [OF assms]]]
  by (simp add: CSHA256_Write_eq CSHA256_Reset_def)

lemma Hash_eq: "Hash m = sha256 (sha256 m)"
  using sha256_write(1) [of m] sha256_rewrite [OF sha256_stream.absorbs_Write [OF sha256_stream.absorbs_init]]
  by (simp add: Hash_def CHash256_Finalize_def CSHA256_Write_eq CSHA256_init_def)

lemma Hash2_eq: "Hash2 m n = sha256 (sha256 (m @ n))"
  using sha256_write(2) [of m n]
    sha256_rewrite [OF sha256_stream.absorbs_Write [OF sha256_stream.absorbs_Write [OF sha256_stream.absorbs_init]]]
  by (simp add: Hash2_def CHash256_Finalize_def CSHA256_Write_eq CSHA256_init_def)

text \<open>C10. However the input is split into \<^verbatim>\<open>Write\<close> calls, \<^verbatim>\<open>CSHA256\<close> returns the SHA-256 of the
  concatenation: the buffer, the block boundary and the padding logic lose and repeat nothing.\<close>

theorem CSHA256_streaming:
  "CSHA256_Finalize (foldl CSHA256_Write CSHA256_init chunks) = sha256 (concat chunks)"
  using sha256_finish [OF sha256_stream.absorbs_Writes [OF sha256_stream.absorbs_init, of chunks]]
  by (simp add: CSHA256_Write_eq CSHA256_init_def)

end
