(* ===== verification/Sha256_D64.thy ===== *)
theory Sha256_D64
  imports Sha256
begin

unbundle bit_operations_syntax

text \<open>
  \<^verbatim>\<open>sha256::TransformD64\<close>, the double SHA-256 of exactly 64 bytes that the Merkle code uses, with
  the constants of the two padding blocks folded into the rounds by hand.  The theorem shows that
  it equals the two-pass hash it replaces.
\<close>

section \<open>The specialised routine\<close>

text \<open>Second transform: round constant plus schedule word of the fixed padding block.\<close>

definition D64_PAD_ROUNDS :: "u32 list" where
  "D64_PAD_ROUNDS =
    [0xc28a2f98, 0x71374491, 0xb5c0fbcf, 0xe9b5dba5, 0x3956c25b, 0x59f111f1, 0x923f82a4, 0xab1c5ed5,
     0xd807aa98, 0x12835b01, 0x243185be, 0x550c7dc3, 0x72be5d74, 0x80deb1fe, 0x9bdc06a7, 0xc19bf374,
     0x649b69c1, 0xf0fe4786, 0x0fe1edc6, 0x240cf254, 0x4fe9346f, 0x6cc984be, 0x61b9411e, 0x16f988fa,
     0xf2c65152, 0xa88e5a6d, 0xb019fc65, 0xb9d99ec7, 0x9a1231c3, 0xe70eeaa0, 0xfdb1232b, 0xc7353eb0,
     0x3069bad5, 0xcb976d5f, 0x5a0f118f, 0xdc1eeefd, 0x0a35b689, 0xde0b7a04, 0x58f4ca9d, 0xe15d5b16,
     0x007f3e86, 0x37088980, 0xa507ea32, 0x6fab9537, 0x17406110, 0x0d8cd6f1, 0xcdaa3b6d, 0xc0bbbe37,
     0x83613bda, 0xdb48a363, 0x0b02e931, 0x6fd15ca7, 0x521afaca, 0x31338431, 0x6ed41a95, 0x6d437890,
     0xc39c91f2, 0x9eccabbd, 0xb5c9a0e6, 0x532fb63c, 0xd2c741c6, 0x07237ea3, 0xa4954b68, 0x4c191d76]"

text \<open>Third transform: rounds 8 to 15 see only padding.\<close>

definition D64_MID_ROUNDS :: "u32 list" where
  "D64_MID_ROUNDS =
    [0x5807aa98, 0x12835b01, 0x243185be, 0x550c7dc3, 0x72be5d74, 0x80deb1fe, 0x9bdc06a7, 0xc19bf274]"

text \<open>Third transform, rounds 16 to 31: the schedule with the padding words \<open>w8\<close> to \<open>w15\<close>
  substituted away.  The entries of \<open>w\<close> from 8 on are unset until these rounds assign them.\<close>

definition d64_schedule_step :: "nat \<Rightarrow> u32 list \<Rightarrow> u32 list" where
  "d64_schedule_step i w =
     (if i = 16 then w[0 := w ! 0 + (sigma0 (w ! 1))]
      else if i = 17 then w[1 := w ! 1 + (0xa00000 + sigma0 (w ! 2))]
      else if i = 18 then w[2 := w ! 2 + (sigma1 (w ! 0) + sigma0 (w ! 3))]
      else if i = 19 then w[3 := w ! 3 + (sigma1 (w ! 1) + sigma0 (w ! 4))]
      else if i = 20 then w[4 := w ! 4 + (sigma1 (w ! 2) + sigma0 (w ! 5))]
      else if i = 21 then w[5 := w ! 5 + (sigma1 (w ! 3) + sigma0 (w ! 6))]
      else if i = 22 then w[6 := w ! 6 + (sigma1 (w ! 4) + 0x100 + sigma0 (w ! 7))]
      else if i = 23 then w[7 := w ! 7 + (sigma1 (w ! 5) + w ! 0 + 0x11002000)]
      else if i = 24 then w[8 := 0x80000000 + sigma1 (w ! 6) + w ! 1]
      else if i = 25 then w[9 := sigma1 (w ! 7) + w ! 2]
      else if i = 26 then w[10 := sigma1 (w ! 8) + w ! 3]
      else if i = 27 then w[11 := sigma1 (w ! 9) + w ! 4]
      else if i = 28 then w[12 := sigma1 (w ! 10) + w ! 5]
      else if i = 29 then w[13 := sigma1 (w ! 11) + w ! 6]
      else if i = 30 then w[14 := sigma1 (w ! 12) + w ! 7 + 0x400022]
      else if i = 31 then w[15 := 0x100 + sigma1 (w ! 13) + w ! 8 + sigma0 (w ! 0)]
      else w[i mod 16 := w ! (i mod 16)
        + (sigma1 (w ! ((i + 14) mod 16)) + w ! ((i + 9) mod 16) + sigma0 (w ! ((i + 1) mod 16)))])"

definition d64_round :: "nat \<Rightarrow> u32 list \<times> sha_vars \<Rightarrow> u32 list \<times> sha_vars" where
  "d64_round i st =
     (if i < 8 then (fst st, Round (snd st) (round_constants ! i + fst st ! i))
      else if i < 16 then (fst st, Round (snd st) (D64_MID_ROUNDS ! (i - 8)))
      else let w = d64_schedule_step i (fst st)
           in (w, Round (snd st) (round_constants ! i + w ! (i mod 16))))"

definition TransformD64 :: "bytes \<Rightarrow> bytes" where
  "TransformD64 inp =
     (let v1 = snd (fold (round_step inp) [0..<64] (replicate 16 0, vars_of Initialize));
          t = map2 (+) (list_of_vars v1) Initialize;
          v2 = foldl Round (vars_of t) D64_PAD_ROUNDS;
          w = map2 (+) t (list_of_vars v2) @ replicate 8 0;
          v3 = snd (fold d64_round [0..<64] (w, vars_of Initialize))
      in concat (map WriteBE32 (map2 (+) (list_of_vars v3) Initialize)))"

section \<open>Round keys\<close>

text \<open>The schedule does not depend on the working variables, so a run of rounds is a fold of
  \<open>Round\<close> over the keys the schedule produces.\<close>

fun keys :: "bytes \<Rightarrow> nat list \<Rightarrow> u32 list \<Rightarrow> u32 list"
  and emit :: "bytes \<Rightarrow> nat \<Rightarrow> nat list \<Rightarrow> u32 list \<Rightarrow> u32 list" where
  "keys chunk [] w = []"
| "keys chunk (i # is) w = emit chunk i is (schedule_step chunk i w)"
| "emit chunk i is w = (round_constants ! i + w ! (i mod 16)) # keys chunk is w"

lemma round_slot: "i < 64 \<Longrightarrow> snd (round_table ! i) = i mod 16"
proof -
  have "map snd round_table = map (\<lambda>i. i mod 16) [0..<64]"
    unfolding round_table_def by (simp add: upt_conv_Cons [of 0] upt_conv_Cons [of "Suc 0"] flip: numeral_2_eq_2)
  then have "map snd round_table ! i = map (\<lambda>i. i mod 16) [0..<64] ! i" by (rule arg_cong)
  moreover have "length round_table = 64" by (simp add: round_table_def)
  ultimately show "i < 64 \<Longrightarrow> snd (round_table ! i) = i mod 16" by (simp del: upt_rec_numeral)
qed

lemma rounds_keys:
  "\<forall>i\<in>set is. i < 64 \<Longrightarrow> snd (fold (round_step chunk) is (w, v)) = foldl Round v (keys chunk is w)"
  by (induction "is" arbitrary: w v) (simp_all add: round_step_def Let_def round_slot)


lemma keys_append: "keys chunk (is @ js) w = keys chunk is w @ keys chunk js (fold (schedule_step chunk) is w)"
  by (induction "is" arbitrary: w) simp_all

lemma schedule_step_late: "16 \<le> i \<Longrightarrow> schedule_step c i = schedule_step [] i"
  by (simp add: fun_eq_iff schedule_step_def)

lemma keys_late: "\<forall>i\<in>set is. 16 \<le> i \<Longrightarrow> keys c is w = keys [] is w"
  by (induction "is" arbitrary: w) (simp_all add: schedule_step_late [of _ c])

definition block_words :: "bytes \<Rightarrow> u32 list" where
  "block_words chunk = map (\<lambda>i. ReadBE32 (drop (4 * i) chunk)) [0, 1, 2, 3, 4, 5, 6, 7, 8, 9, 10, 11, 12, 13, 14, 15]"

lemmas schedule_eval = schedule_step_def sigma0_def sigma1_def list_update.simps

lemma upt_first16: "[0..<64] = [0, 1, 2, 3, 4, 5, 6, 7, 8, 9, 10, 11, 12, 13, 14, 15] @ [16..<64]"
  by (simp add: upt_conv_Cons [of 0] upt_conv_Cons [of "Suc 0"] flip: numeral_2_eq_2)

lemma replicate16: "replicate 16 (0 :: u32) = [0, 0, 0, 0, 0, 0, 0, 0, 0, 0, 0, 0, 0, 0, 0, 0]"
  by (simp add: numeral_eq_Suc)

lemma first_keys:
  "keys chunk [0, 1, 2, 3, 4, 5, 6, 7, 8, 9, 10, 11, 12, 13, 14, 15] (replicate 16 0) =
     map2 (+) (take 16 round_constants) (block_words chunk)"
  "fold (schedule_step chunk) [0, 1, 2, 3, 4, 5, 6, 7, 8, 9, 10, 11, 12, 13, 14, 15] (replicate 16 0) = block_words chunk"
  unfolding replicate16
  by (simp_all add: schedule_step_def block_words_def round_constants_def round_table_def list_update.simps)

lemma keys_block:
  "keys chunk [0..<64] (replicate 16 0) =
     map2 (+) (take 16 round_constants) (block_words chunk) @ keys [] [16..<64] (block_words chunk)"
  unfolding upt_first16 keys_append first_keys using keys_late [of "[16..<64]" chunk] by simp

section \<open>The padding block of a 64-byte message\<close>

definition PAD64 :: bytes where
  "PAD64 = 0x80 # replicate 55 0 @ [0, 0, 0, 0, 0, 0, 2, 0]"

lemma replicate_byte_numeral: "replicate (numeral k) (b :: byte) = b # replicate (pred_numeral k) b"
  by (simp add: numeral_eq_Suc)

lemma block_words_PAD64: "block_words PAD64 = [0x80000000, 0, 0, 0, 0, 0, 0, 0, 0, 0, 0, 0, 0, 0, 0, 512]"
  by (simp add: block_words_def PAD64_def ReadBE32_def replicate_byte_numeral)

lemma pad_keys_16:
  "keys [] [16, 17, 18, 19, 20, 21, 22, 23] [0x80000000, 0, 0, 0, 0, 0, 0, 0, 0, 0, 0, 0, 0, 0, 0, 0x200]
     = [0x649b69c1, 0xf0fe4786, 0xfe1edc6, 0x240cf254, 0x4fe9346f, 0x6cc984be, 0x61b9411e, 0x16f988fa]"
  "fold (schedule_step []) [16, 17, 18, 19, 20, 21, 22, 23] [0x80000000, 0, 0, 0, 0, 0, 0, 0, 0, 0, 0, 0, 0, 0, 0, 0x200]
     = [0x80000000, 0x1400000, 0x205000, 0x5088, 0x22000800, 0x22550014, 0x5089742, 0xa0000020, 0, 0, 0, 0, 0, 0, 0, 0x200]"
  by (simp_all add: schedule_eval round_constants_def round_table_def)

lemma pad_keys_24:
  "keys [] [24, 25, 26, 27, 28, 29, 30, 31] [0x80000000, 0x1400000, 0x205000, 0x5088, 0x22000800, 0x22550014, 0x5089742, 0xa0000020, 0, 0, 0, 0, 0, 0, 0, 0x200]
     = [0xf2c65152, 0xa88e5a6d, 0xb019fc65, 0xb9d99ec7, 0x9a1231c3, 0xe70eeaa0, 0xfdb1232b, 0xc7353eb0]"
  "fold (schedule_step []) [24, 25, 26, 27, 28, 29, 30, 31] [0x80000000, 0x1400000, 0x205000, 0x5088, 0x22000800, 0x22550014, 0x5089742, 0xa0000020, 0, 0, 0, 0, 0, 0, 0, 0x200]
     = [0x80000000, 0x1400000, 0x205000, 0x5088, 0x22000800, 0x22550014, 0x5089742, 0xa0000020, 0x5a880000, 0x5c9400, 0x16d49d, 0xfa801f00, 0xd33225d0, 0x11675959, 0xf6e6bfda, 0xb30c1549]"
  by (simp_all add: schedule_eval round_constants_def round_table_def)

lemma pad_keys_32:
  "keys [] [32, 33, 34, 35, 36, 37, 38, 39] [0x80000000, 0x1400000, 0x205000, 0x5088, 0x22000800, 0x22550014, 0x5089742, 0xa0000020, 0x5a880000, 0x5c9400, 0x16d49d, 0xfa801f00, 0xd33225d0, 0x11675959, 0xf6e6bfda, 0xb30c1549]
     = [0x3069bad5, 0xcb976d5f, 0x5a0f118f, 0xdc1eeefd, 0xa35b689, 0xde0b7a04, 0x58f4ca9d, 0xe15d5b16]"
  "fold (schedule_step []) [32, 33, 34, 35, 36, 37, 38, 39] [0x80000000, 0x1400000, 0x205000, 0x5088, 0x22000800, 0x22550014, 0x5089742, 0xa0000020, 0x5a880000, 0x5c9400, 0x16d49d, 0xfa801f00, 0xd33225d0, 0x11675959, 0xf6e6bfda, 0xb30c1549]
     = [0x8b2b050, 0x9d7c4c27, 0xce2a393, 0x88e6e1ea, 0xa52b4335, 0x67a16f49, 0xd732016f, 0x4eeb2e91, 0x5a880000, 0x5c9400, 0x16d49d, 0xfa801f00, 0xd33225d0, 0x11675959, 0xf6e6bfda, 0xb30c1549]"
  by (simp_all add: schedule_eval round_constants_def round_table_def)

lemma pad_keys_40:
  "keys [] [40, 41, 42, 43, 44, 45, 46, 47] [0x8b2b050, 0x9d7c4c27, 0xce2a393, 0x88e6e1ea, 0xa52b4335, 0x67a16f49, 0xd732016f, 0x4eeb2e91, 0x5a880000, 0x5c9400, 0x16d49d, 0xfa801f00, 0xd33225d0, 0x11675959, 0xf6e6bfda, 0xb30c1549]
     = [0x7f3e86, 0x37088980, 0xa507ea32, 0x6fab9537, 0x17406110, 0xd8cd6f1, 0xcdaa3b6d, 0xc0bbbe37]"
  "fold (schedule_step []) [40, 41, 42, 43, 44, 45, 46, 47] [0x8b2b050, 0x9d7c4c27, 0xce2a393, 0x88e6e1ea, 0xa52b4335, 0x67a16f49, 0xd732016f, 0x4eeb2e91, 0x5a880000, 0x5c9400, 0x16d49d, 0xfa801f00, 0xd33225d0, 0x11675959, 0xf6e6bfda, 0xb30c1549]
     = [0x8b2b050, 0x9d7c4c27, 0xce2a393, 0x88e6e1ea, 0xa52b4335, 0x67a16f49, 0xd732016f, 0x4eeb2e91, 0x5dbf55e5, 0x8eee2335, 0xe2bc5ec2, 0xa83f4394, 0x45ad78f7, 0x36f3d0cd, 0xd99c05e8, 0xb0511dc7]"
  by (simp_all add: schedule_eval round_constants_def round_table_def)

lemma pad_keys_48:
  "keys [] [48, 49, 50, 51, 52, 53, 54, 55] [0x8b2b050, 0x9d7c4c27, 0xce2a393, 0x88e6e1ea, 0xa52b4335, 0x67a16f49, 0xd732016f, 0x4eeb2e91, 0x5dbf55e5, 0x8eee2335, 0xe2bc5ec2, 0xa83f4394, 0x45ad78f7, 0x36f3d0cd, 0xd99c05e8, 0xb0511dc7]
     = [0x83613bda, 0xdb48a363, 0xb02e931, 0x6fd15ca7, 0x521afaca, 0x31338431, 0x6ed41a95, 0x6d437890]"
  "fold (schedule_step []) [48, 49, 50, 51, 52, 53, 54, 55] [0x8b2b050, 0x9d7c4c27, 0xce2a393, 0x88e6e1ea, 0xa52b4335, 0x67a16f49, 0xd732016f, 0x4eeb2e91, 0x5dbf55e5, 0x8eee2335, 0xe2bc5ec2, 0xa83f4394, 0x45ad78f7, 0x36f3d0cd, 0xd99c05e8, 0xb0511dc7]
     = [0x69bc7ac4, 0xbd11375b, 0xe3ba71e5, 0x3b209ff2, 0x18feee17, 0xe25ad9e7, 0x13375046, 0x515089d, 0x5dbf55e5, 0x8eee2335, 0xe2bc5ec2, 0xa83f4394, 0x45ad78f7, 0x36f3d0cd, 0xd99c05e8, 0xb0511dc7]"
  by (simp_all add: schedule_eval round_constants_def round_table_def)

lemma pad_keys_56:
  "keys [] [56, 57, 58, 59, 60, 61, 62, 63] [0x69bc7ac4, 0xbd11375b, 0xe3ba71e5, 0x3b209ff2, 0x18feee17, 0xe25ad9e7, 0x13375046, 0x515089d, 0x5dbf55e5, 0x8eee2335, 0xe2bc5ec2, 0xa83f4394, 0x45ad78f7, 0x36f3d0cd, 0xd99c05e8, 0xb0511dc7]
     = [0xc39c91f2, 0x9eccabbd, 0xb5c9a0e6, 0x532fb63c, 0xd2c741c6, 0x7237ea3, 0xa4954b68, 0x4c191d76]"
  "fold (schedule_step []) [56, 57, 58, 59, 60, 61, 62, 63] [0x69bc7ac4, 0xbd11375b, 0xe3ba71e5, 0x3b209ff2, 0x18feee17, 0xe25ad9e7, 0x13375046, 0x515089d, 0x5dbf55e5, 0x8eee2335, 0xe2bc5ec2, 0xa83f4394, 0x45ad78f7, 0x36f3d0cd, 0xd99c05e8, 0xb0511dc7]
     = [0x69bc7ac4, 0xbd11375b, 0xe3ba71e5, 0x3b209ff2, 0x18feee17, 0xe25ad9e7, 0x13375046, 0x515089d, 0x4f0d0f04, 0x2627484e, 0x310128d2, 0xc668b434, 0x420841cc, 0x62d311b8, 0xe59ba771, 0x85a7a484]"
  by (simp_all add: schedule_eval round_constants_def round_table_def)

lemmas pad_keys = pad_keys_16 pad_keys_24 pad_keys_32 pad_keys_40 pad_keys_48 pad_keys_56

lemma upt_groups: "[16..<64] =
  [16, 17, 18, 19, 20, 21, 22, 23] @ [24, 25, 26, 27, 28, 29, 30, 31] @ [32, 33, 34, 35, 36, 37, 38, 39] @ [40, 41, 42, 43, 44, 45, 46, 47] @ [48, 49, 50, 51, 52, 53, 54, 55] @ [56, 57, 58, 59, 60, 61, 62, 63]"
  by simp

lemma keys_PAD64: "keys PAD64 [0..<64] (replicate 16 0) = D64_PAD_ROUNDS"
  unfolding keys_block block_words_PAD64 upt_groups keys_append pad_keys fold_append comp_def
  by (simp add: round_constants_def round_table_def D64_PAD_ROUNDS_def)

section \<open>The third transform\<close>

fun d64_keys :: "nat list \<Rightarrow> u32 list \<Rightarrow> u32 list" where
  "d64_keys [] w = []"
| "d64_keys (i # is) w =
     (if i < 8 then (round_constants ! i + w ! i) # d64_keys is w
      else if i < 16 then D64_MID_ROUNDS ! (i - 8) # d64_keys is w
      else (round_constants ! i + d64_schedule_step i w ! (i mod 16)) # d64_keys is (d64_schedule_step i w))"

lemma d64_rounds_keys: "snd (fold d64_round is (w, v)) = foldl Round v (d64_keys is w)"
  by (induction "is" arbitrary: w v) (simp_all add: d64_round_def Let_def)

text \<open>Before round \<open>i\<close> the schedule \<open>g\<close> of the general transform and \<open>d\<close> of the specialised one agree
  on the words already assigned, and \<open>g\<close> still holds the padding in the others.\<close>

abbreviation slots :: "nat list" where
  "slots \<equiv> [0, 1, 2, 3, 4, 5, 6, 7, 8, 9, 10, 11, 12, 13, 14, 15]"

definition pad_agree :: "nat \<Rightarrow> u32 list \<Rightarrow> u32 list \<Rightarrow> bool" where
  "pad_agree i g d \<longleftrightarrow> length g = 16 \<and> length d = 16 \<and>
     (\<forall>j\<in>set slots. if j < 8 \<or> j + 16 < i then g ! j = d ! j
       else g ! j = [0x80000000, 0, 0, 0, 0, 0, 0, 256] ! (j - 8))"

lemma pad_agree_step:
  assumes "pad_agree i g d" "i \<in> set (map ((+) 16) slots)"
  shows "pad_agree (Suc i) (schedule_step c i g) (d64_schedule_step i d)"
  using assms(2,1)
  by (simp, elim disjE)
    (simp_all add: pad_agree_def schedule_step_def d64_schedule_step_def nth_list_update sigma0_def [of 0]
      sigma1_def [of 0] sigma0_def [of "0x80000000"] sigma0_def [of 256] sigma1_def [of 256] add.commute [where ?'a = u32] add.left_commute [where ?'a = u32])


lemma pad_agree_nth: "pad_agree i g d \<Longrightarrow> j < 16 \<Longrightarrow> j < 8 \<or> j + 16 < i \<Longrightarrow> g ! j = d ! j"
proof -
  assume a: "pad_agree i g d" and j: "j < 16" "j < 8 \<or> j + 16 < i"
  have "j \<in> set slots" using j(1) by (simp add: numeral_eq_Suc less_Suc_eq)
  then show ?thesis using a j(2) by (auto simp: pad_agree_def)
qed

lemma d64_step_late: "32 \<le> i \<Longrightarrow> d64_schedule_step i = schedule_step [] i"
  by (simp add: fun_eq_iff d64_schedule_step_def schedule_step_def)

lemma d64_keys_late: "\<forall>i\<in>set is. 32 \<le> i \<Longrightarrow> d64_keys is w = keys [] is w"
  by (induction "is" arbitrary: w) (simp_all add: d64_step_late)

lemma d64_keys_late_upt: "32 \<le> a \<Longrightarrow> d64_keys [a..<b] w = keys [] [a..<b] w"
  by (rule d64_keys_late) simp

lemma d64_keys_agree:
  assumes "n \<le> 16" "pad_agree (32 - n) g d"
  shows "keys [] [32 - n..<64] g = d64_keys [32 - n..<64] d"
  using assms
proof (induction n arbitrary: g d)
  case 0
  have l: "length g = 16" "length d = 16" using 0(2) unfolding pad_agree_def by blast+
  have "g ! j = d ! j" if "j < 16" for j by (rule pad_agree_nth [OF 0(2) that]) (use that in simp)
  then have "g = d" using l by (intro nth_equalityI) simp_all
  then show ?case using d64_keys_late_upt [of "32 - 0" 64 d] by (simp only: diff_zero order_refl)
next
  case (Suc n)
  let ?i = "32 - Suc n"
  have i: "32 - n = Suc ?i" "16 \<le> ?i" "?i < 32" using Suc.prems(1) by auto
  have "?i \<in> set (map ((+) 16) slots)"
  proof -
    have "?i - 16 < 16" using i by linarith
    then have "?i - 16 \<in> set slots" by (simp add: numeral_eq_Suc less_Suc_eq)
    then have "16 + (?i - 16) \<in> set (map ((+) 16) slots)" by (simp only: set_map) (rule imageI)
    then show ?thesis using i by simp
  qed
  then have p: "pad_agree (32 - n) (schedule_step [] ?i g) (d64_schedule_step ?i d)"
    unfolding i(1) by (rule pad_agree_step [OF Suc.prems(2)])
  have m: "?i mod 16 = ?i - 16" using i by (simp add: le_mod_geq)
  have "schedule_step [] ?i g ! (?i mod 16) = d64_schedule_step ?i d ! (?i mod 16)"
    unfolding m by (rule pad_agree_nth [OF p]) (use i in linarith)+
  moreover have "[?i..<64] = ?i # [32 - n..<64]" using i by (simp add: upt_conv_Cons)
  moreover have "keys [] [32 - n..<64] (schedule_step [] ?i g) = d64_keys [32 - n..<64] (d64_schedule_step ?i d)"
    using Suc.IH [OF _ p] Suc.prems(1) by simp
  ultimately show ?case using i by simp
qed

lemma d64_keys_first:
  "d64_keys (slots @ is) ([a0, a1, a2, a3, a4, a5, a6, a7] @ replicate 8 0) =
     map2 (+) (take 16 round_constants) [a0, a1, a2, a3, a4, a5, a6, a7, 0x80000000, 0, 0, 0, 0, 0, 0, 256]
     @ d64_keys is [a0, a1, a2, a3, a4, a5, a6, a7, 0, 0, 0, 0, 0, 0, 0, 0]"
proof -
  have r: "replicate 8 (0 :: u32) = [0, 0, 0, 0, 0, 0, 0, 0]" by (simp add: numeral_eq_Suc)
  show ?thesis unfolding r by (simp add: round_constants_def round_table_def D64_MID_ROUNDS_def)
qed

lemma d64_keys_eq:
  "d64_keys [0..<64] ([a0, a1, a2, a3, a4, a5, a6, a7] @ replicate 8 0) =
     map2 (+) (take 16 round_constants) [a0, a1, a2, a3, a4, a5, a6, a7, 0x80000000, 0, 0, 0, 0, 0, 0, 256]
     @ keys [] [16..<64] [a0, a1, a2, a3, a4, a5, a6, a7, 0x80000000, 0, 0, 0, 0, 0, 0, 256]"
proof -
  let ?d = "[a0, a1, a2, a3, a4, a5, a6, a7, 0, 0, 0, 0, 0, 0, 0, 0]"
  let ?g = "[a0, a1, a2, a3, a4, a5, a6, a7, 0x80000000, 0, 0, 0, 0, 0, 0, 256]"
  have "pad_agree (32 - 16) ?g ?d" by (simp add: pad_agree_def)
  then have "keys [] [16..<64] ?g = d64_keys [16..<64] ?d" using d64_keys_agree [of 16 ?g ?d] by (simp del: upt_rec_numeral)
  then show ?thesis unfolding upt_first16 d64_keys_first by (simp only:)
qed

section \<open>Equivalence with the two-pass hash\<close>

lemma ReadBE32_WriteBE32: "ReadBE32 (WriteBE32 x @ ys) = x"
proof -
  have "unat x < 256 ^ 4" using unsigned_less [of x, where ?'a = nat] by simp
  then show ?thesis by (simp add: ReadBE32_def WriteBE32_def)
qed

lemma length_WriteBE32 [simp]: "length (WriteBE32 x) = 4"
  by (simp add: WriteBE32_def)

lemma list8:
  assumes "length xs = 8"
  obtains a0 a1 a2 a3 a4 a5 a6 a7 where "xs = [a0, a1, a2, a3, a4, a5, a6, a7]"
  using assms by (auto simp: numeral_eq_Suc length_Suc_conv)

lemma length_list_of_vars [simp]: "length (list_of_vars v) = 8"
  by (simp add: list_of_vars_def split: prod.split)

lemma length_Transform1 [simp]: "length st = 8 \<Longrightarrow> length (Transform1 st c) = 8"
  by (simp add: Transform1_def)

lemma Transform1_keys: "Transform1 st c = map2 (+) st (list_of_vars (foldl Round (vars_of st) (keys c [0..<64] (replicate 16 0))))"
  by (simp only: Transform1_def) (subst rounds_keys, simp, simp only:)

lemma map2_add_commute: "map2 (+) xs ys = map2 (+) ys (xs :: u32 list)"
  by (induction xs ys rule: list_induct2') (simp_all add: add.commute)

definition PAD32 :: bytes where
  "PAD32 = 0x80 # replicate 23 0 @ [0, 0, 0, 0, 0, 0, 1, 0]"

lemma block_words_PAD32:
  "block_words (concat (map WriteBE32 [a0, a1, a2, a3, a4, a5, a6, a7]) @ PAD32) =
     [a0, a1, a2, a3, a4, a5, a6, a7, 0x80000000, 0, 0, 0, 0, 0, 0, 256]"
proof -
  have "ReadBE32 (drop n PAD32) = (if n = 0 then 0x80000000 else if n = 28 then 256 else 0)"
    if "n \<in> {0, 4, 8, 12, 16, 20, 24, 28}" for n
    using that by (auto simp: PAD32_def ReadBE32_def replicate_byte_numeral)
  from this this [of 0] show ?thesis by (simp add: block_words_def drop_append ReadBE32_WriteBE32)
qed

lemma length_Initialize [simp]: "length Initialize = 8"
  by (simp add: Initialize_def)

lemma to_le_numeral: "to_le (numeral k) v = of_nat v # to_le (pred_numeral k) (v div 256)"
  by (subst numeral_eq_Suc [of k]) simp

lemma sha256_64:
  assumes "length m = 64"
  shows "sha256 m = concat (map WriteBE32 (Transform1 (Transform1 Initialize m) PAD64))"
proof -
  have p: "sha_pad m = m @ PAD64" using assms by (simp add: sha_pad_def PAD64_def replicate_byte_numeral to_le_numeral)
  have "length (sha_pad m) div 64 = Suc (Suc 0)" using assms by (simp add: p PAD64_def)
  then show ?thesis using Transform1_take [of 64 Initialize "m @ PAD64"] Transform1_take [of 64 Initialize m] assms
    by (simp add: sha256_def p)
qed

lemma sha256_32:
  assumes "length m = 32"
  shows "sha256 m = concat (map WriteBE32 (Transform1 Initialize (m @ PAD32)))"
proof -
  have p: "sha_pad m = m @ PAD32" using assms by (simp add: sha_pad_def PAD32_def replicate_byte_numeral to_le_numeral)
  have "length (sha_pad m) div 64 = Suc 0" using assms by (simp add: p PAD32_def)
  then show ?thesis by (simp add: sha256_def p)
qed

lemma TransformD64_eq: "length inp = 64 \<Longrightarrow> TransformD64 inp = sha256 (sha256 inp)"
proof -
  assume len: "length inp = 64"
  define t where "t = Transform1 Initialize inp"
  define u where "u = Transform1 t PAD64"
  have t: "map2 (+) (list_of_vars (snd (fold (round_step inp) [0..<64] (replicate 16 0, vars_of Initialize)))) Initialize = t"
    by (simp only: t_def Transform1_def map2_add_commute)
  have u: "map2 (+) t (list_of_vars (foldl Round (vars_of t) D64_PAD_ROUNDS)) = u"
    by (simp only: u_def Transform1_keys keys_PAD64)
  have "length u = 8" by (simp add: u_def t_def)
  then obtain a0 a1 a2 a3 a4 a5 a6 a7 where a: "u = [a0, a1, a2, a3, a4, a5, a6, a7]" by (rule list8)
  have h1: "sha256 inp = concat (map WriteBE32 u)" by (simp add: sha256_64 [OF len] u_def t_def)
  have k: "d64_keys [0..<64] (u @ replicate 8 0) = keys (concat (map WriteBE32 u) @ PAD32) [0..<64] (replicate 16 0)"
    unfolding a keys_block block_words_PAD32 by (rule d64_keys_eq)
  have "length (concat (map WriteBE32 u)) = 32" by (simp add: a)
  then have "sha256 (sha256 inp) = concat (map WriteBE32 (Transform1 Initialize (concat (map WriteBE32 u) @ PAD32)))"
    unfolding h1 by (rule sha256_32)
  then show ?thesis
    unfolding TransformD64_def Let_def t u d64_rounds_keys k
    by (simp only: Transform1_keys map2_add_commute)
qed

text \<open>C11. The hand-specialised double hash of 64 bytes equals the generic double SHA-256.\<close>

theorem TransformD64_equiv:
  assumes "length inp = 64"
  shows "TransformD64 inp = Hash inp"
  by (simp only: TransformD64_eq [OF assms] Hash_eq)

theorem TransformD64_equiv_witness: "TransformD64 (replicate 64 7) = Hash (replicate 64 7)"
  by (rule TransformD64_equiv) simp

section \<open>Many at once\<close>

text \<open>\<^verbatim>\<open>SHA256D64\<close> with no vectorised implementation selected.\<close>

primrec SHA256D64 :: "bytes \<Rightarrow> nat \<Rightarrow> bytes" where
  "SHA256D64 inp 0 = []"
| "SHA256D64 inp (Suc blocks) = TransformD64 inp @ SHA256D64 (drop 64 inp) blocks"

lemma TransformD64_take: "TransformD64 (take 64 inp) = TransformD64 inp"
proof -
  have "round_step (take 64 inp) = round_step inp"
  proof -
    have "schedule_step (take 64 inp) i = schedule_step inp i" for i
      by (auto simp: fun_eq_iff schedule_step_def ReadBE32_def take_drop min_def)
    then show ?thesis by (simp add: fun_eq_iff round_step_def)
  qed
  then show ?thesis by (simp only: TransformD64_def)
qed

lemma SHA256D64_Cons: "length x = 64 \<Longrightarrow> SHA256D64 (x @ xs) (Suc n) = Hash x @ SHA256D64 xs n"
  using TransformD64_take [of "x @ xs"] TransformD64_eq [of x] by (simp add: Hash_eq)

lemma SHA256D64_concat: "\<forall>x\<in>set xs. length x = 64 \<Longrightarrow> SHA256D64 (concat xs) (length xs) = concat (map Hash xs)"
proof (induction xs)
  case (Cons x xs)
  then show ?case using SHA256D64_Cons [of x "concat xs" "length xs"] by simp
qed simp

lemma length_sha256 [simp]: "length (sha256 m) = 32"
proof -
  have "length (Transform st c n) = 8" if "length st = 8" for st c n
    using that by (induction n arbitrary: st c) simp_all
  then show ?thesis by (simp add: sha256_def length_concat comp_def sum_list_triv)
qed

lemma length_Hash [simp]: "length (Hash m) = 32" "length (Hash2 m n) = 32"
  by (simp_all add: Hash_eq Hash2_eq)

end
