(* ===== verification/Serialize.thy ===== *)
theory Serialize
  imports Prelude
begin

text \<open>
  \<^verbatim>\<open>serialize.h\<close>: fixed-width integers, \<^verbatim>\<open>CompactSize\<close>, \<^verbatim>\<open>VarInt\<close> and vectors.  A reader
  takes the bytes that are left in the stream and returns a value with the rest, or the exception
  it throws.  The locale \<open>codec\<close> is the contract every serialized type meets: reading what was
  written gives the value back and leaves the rest of the stream alone, and everything a reader
  accepts is exactly what the writer produces.
\<close>

section \<open>Streams\<close>

datatype ios_failure =
    EndOfData | NonCanonicalCompactSize | CompactSizeTooLarge | VarIntTooLarge
  | SuperfluousWitness | UnknownOptionalData

type_synonym 'a reader = "bytes \<Rightarrow> ios_failure + 'a \<times> bytes"

definition bindr :: "'a reader \<Rightarrow> ('a \<Rightarrow> 'b reader) \<Rightarrow> 'b reader" where
  "bindr p f st = (case p st of Inl e \<Rightarrow> Inl e | Inr (x, st') \<Rightarrow> f x st')"

definition returnr :: "'a \<Rightarrow> 'a reader" where
  "returnr x st = Inr (x, st)"

definition failr :: "ios_failure \<Rightarrow> 'a reader" where
  "failr e st = Inl e"

definition read :: "nat \<Rightarrow> bytes reader" where
  "read n st = (if length st < n then Inl EndOfData else Inr (take n st, drop n st))"

section \<open>Fixed-width integers\<close>

definition ser_writedata8 :: "byte \<Rightarrow> bytes" where
  "ser_writedata8 obj = [obj]"

definition ser_writedata16 :: "nat \<Rightarrow> bytes" where
  "ser_writedata16 obj = to_le 2 obj"

definition ser_writedata32 :: "u32 \<Rightarrow> bytes" where
  "ser_writedata32 obj = to_le 4 (unat obj)"

definition ser_writedata64 :: "u64 \<Rightarrow> bytes" where
  "ser_writedata64 obj = to_le 8 (unat obj)"

definition ser_readdata8 :: "byte reader" where
  "ser_readdata8 = bindr (read 1) (\<lambda>b. returnr (hd b))"

definition ser_readdata16 :: "nat reader" where
  "ser_readdata16 = bindr (read 2) (\<lambda>b. returnr (from_le b))"

definition ser_readdata32 :: "u32 reader" where
  "ser_readdata32 = bindr (read 4) (\<lambda>b. returnr (of_nat (from_le b)))"

definition ser_readdata64 :: "u64 reader" where
  "ser_readdata64 = bindr (read 8) (\<lambda>b. returnr (of_nat (from_le b)))"

text \<open>\<^verbatim>\<open>int64_t\<close> values are written through the unsigned type of the same width.\<close>

definition ser_int64 :: "int \<Rightarrow> bytes" where
  "ser_int64 obj = ser_writedata64 (of_int obj)"

definition unser_int64 :: "int reader" where
  "unser_int64 = bindr ser_readdata64 (\<lambda>w. returnr (sint w))"

text \<open>A \<^verbatim>\<open>base_blob<256>\<close>: its bytes.\<close>

definition ser_uint256 :: "uint256 \<Rightarrow> bytes" where
  "ser_uint256 obj = obj"

definition unser_uint256 :: "uint256 reader" where
  "unser_uint256 = read 32"

section \<open>CompactSize\<close>

definition MAX_SIZE :: nat where
  [const_defs]: "MAX_SIZE = 0x02000000"

definition GetSizeOfCompactSize :: "nat \<Rightarrow> nat" where
  "GetSizeOfCompactSize nSize =
     (if nSize < 253 then 1 else if nSize \<le> 0xffff then 1 + 2 else if nSize \<le> 0xffffffff then 1 + 4 else 1 + 8)"

definition WriteCompactSize :: "nat \<Rightarrow> bytes" where
  "WriteCompactSize nSize =
     (if nSize < 253 then ser_writedata8 (of_nat nSize)
      else if nSize \<le> 0xffff then ser_writedata8 253 @ ser_writedata16 nSize
      else if nSize \<le> 0xffffffff then ser_writedata8 254 @ ser_writedata32 (of_nat nSize)
      else ser_writedata8 255 @ ser_writedata64 (of_nat nSize))"

definition ReadCompactSize_body :: "nat reader" where
  "ReadCompactSize_body =
     bindr ser_readdata8 (\<lambda>chSize.
       if chSize < 253 then returnr (unat chSize)
       else if chSize = 253 then bindr ser_readdata16 (\<lambda>n.
         if n < 253 then failr NonCanonicalCompactSize else returnr n)
       else if chSize = 254 then bindr ser_readdata32 (\<lambda>n.
         if unat n < 0x10000 then failr NonCanonicalCompactSize else returnr (unat n))
       else bindr ser_readdata64 (\<lambda>n.
         if unat n < 0x100000000 then failr NonCanonicalCompactSize else returnr (unat n)))"

definition ReadCompactSize :: "bool \<Rightarrow> nat reader" where
  "ReadCompactSize range_check =
     bindr ReadCompactSize_body (\<lambda>nSizeRet.
       if range_check \<and> nSizeRet > MAX_SIZE then failr CompactSizeTooLarge else returnr nSizeRet)"

section \<open>VarInt\<close>

text \<open>\<^verbatim>\<open>WriteVarInt\<close> fills \<^verbatim>\<open>tmp\<close> with the digits, least significant first, and writes it
  backwards.  The reader is parameterised by the maximum of the integer type.\<close>

function varint_tmp :: "nat \<Rightarrow> bool \<Rightarrow> bytes" where
  "varint_tmp n more =
     of_nat (n mod 128 + (if more then 128 else 0))
       # (if n \<le> 0x7f then [] else varint_tmp (n div 128 - 1) True)"
  by pat_completeness auto
termination by (relation "measure fst") (auto simp: div_less_dividend less_imp_diff_less)

declare varint_tmp.simps [simp del]

definition WriteVarInt :: "nat \<Rightarrow> bytes" where
  "WriteVarInt n = rev (varint_tmp n False)"

function size_of_varint :: "nat \<Rightarrow> nat" where
  "size_of_varint n = (if n \<le> 0x7f then 1 else 1 + size_of_varint (n div 128 - 1))"
  by pat_completeness auto
termination by (relation "measure id") (auto simp: div_less_dividend less_imp_diff_less)

declare size_of_varint.simps [simp del]

fun read_varint :: "nat \<Rightarrow> nat \<Rightarrow> nat reader" where
  "read_varint imax n [] = Inl EndOfData"
| "read_varint imax n (chData # st) =
     (if n > imax div 128 then Inl VarIntTooLarge
      else let n' = n * 128 + unat chData mod 128
           in if unat chData \<ge> 128
              then if n' = imax then Inl VarIntTooLarge else read_varint imax (n' + 1) st
              else Inr (n', st))"

definition ReadVarInt :: "nat \<Rightarrow> nat reader" where
  "ReadVarInt imax = read_varint imax 0"

section \<open>Vectors\<close>

definition ser_vector :: "('a \<Rightarrow> bytes) \<Rightarrow> 'a list \<Rightarrow> bytes" where
  "ser_vector ser v = WriteCompactSize (length v) @ concat (map ser v)"

primrec unser_elems :: "'a reader \<Rightarrow> nat \<Rightarrow> 'a list reader" where
  "unser_elems unser 0 = returnr []"
| "unser_elems unser (Suc n) =
     bindr unser (\<lambda>x. bindr (unser_elems unser n) (\<lambda>xs. returnr (x # xs)))"

definition unser_vector :: "'a reader \<Rightarrow> 'a list reader" where
  "unser_vector unser = bindr (ReadCompactSize True) (unser_elems unser)"

text \<open>Byte vectors are read in blocks of at most five million bytes.\<close>

definition ser_bytes :: "bytes \<Rightarrow> bytes" where
  "ser_bytes v = WriteCompactSize (length v) @ v"

function read_blocks :: "nat \<Rightarrow> nat \<Rightarrow> bytes \<Rightarrow> bytes reader" where
  "read_blocks i nSize v st =
     (if i < nSize
      then let blk = min (nSize - i) (1 + 4999999)
           in bindr (read blk) (\<lambda>b. read_blocks (i + blk) nSize (v @ b)) st
      else Inr (v, st))"
  by pat_completeness auto
termination
  by (relation "measure (\<lambda>(i, nSize, v, st). nSize - i)") (auto simp: min_def)

declare read_blocks.simps [simp del]

definition unser_bytes :: "bytes reader" where
  "unser_bytes = bindr (ReadCompactSize True) (\<lambda>nSize. read_blocks 0 nSize [])"

section \<open>The codec contract\<close>

lemma bindr_Inr: "bindr p f st = Inr (y, r) \<longleftrightarrow> (\<exists>x st'. p st = Inr (x, st') \<and> f x st' = Inr (y, r))"
  by (auto simp: bindr_def split: sum.splits)

lemma bindr_assoc: "bindr (bindr p f) g = bindr p (\<lambda>x. bindr (f x) g)"
  by (auto simp: bindr_def fun_eq_iff split: sum.splits)

lemma bindr_returnr [simp]: "bindr (returnr x) f = f x" "bindr p returnr = p"
  by (auto simp: bindr_def returnr_def fun_eq_iff split: sum.splits)

lemma returnr_Inr [simp]: "returnr x st = Inr (y, r) \<longleftrightarrow> x = y \<and> st = r"
  by (simp add: returnr_def)

lemma failr_Inr [simp]: "failr e st \<noteq> Inr y" "failr e st = Inl e' \<longleftrightarrow> e = e'"
  by (simp_all add: failr_def)

locale codec =
  fixes enc :: "'a \<Rightarrow> bytes" and dec :: "'a reader" and ok :: "'a \<Rightarrow> bool"
  assumes dec_enc: "ok x \<Longrightarrow> dec (enc x @ r) = Inr (x, r)"
    and enc_dec: "dec st = Inr (x, r) \<Longrightarrow> st = enc x @ r \<and> ok x"
begin

lemma bind_enc: "ok x \<Longrightarrow> bindr dec f (enc x @ r) = f x r"
  by (simp add: bindr_def dec_enc)

lemma enc_prefix_free: "ok x \<Longrightarrow> ok y \<Longrightarrow> enc x @ r = enc y @ r' \<Longrightarrow> x = y \<and> r = r'"
  by (metis dec_enc Inr_inject prod.inject)

lemma enc_inject: "ok x \<Longrightarrow> ok y \<Longrightarrow> enc x = enc y \<Longrightarrow> x = y"
  using enc_prefix_free [of x y "[]" "[]"] by simp

lemma elems_enc: "\<forall>x\<in>set xs. ok x \<Longrightarrow> unser_elems dec (length xs) (concat (map enc xs) @ r) = Inr (xs, r)"
  by (induction xs) (simp_all add: bind_enc bindr_def returnr_def dec_enc)

lemma elems_dec: "unser_elems dec n st = Inr (xs, r) \<Longrightarrow>
    st = concat (map enc xs) @ r \<and> length xs = n \<and> (\<forall>x\<in>set xs. ok x)"
proof (induction n arbitrary: st xs)
  case (Suc n)
  then obtain y st' ys where "dec st = Inr (y, st')" "unser_elems dec n st' = Inr (ys, r)" "xs = y # ys"
    by (auto simp: bindr_Inr)
  then show ?case using enc_dec [of st y st'] Suc.IH [of st' ys] by auto
qed (simp add: returnr_def)

end

section \<open>Integers and blobs\<close>

lemma read_append: "length x = n \<Longrightarrow> read n (x @ r) = Inr (x, r)"
  by (simp add: read_def)

lemma read_Inr: "read n st = Inr (x, r) \<longleftrightarrow> st = x @ r \<and> length x = n"
  by (auto simp: read_def)

interpretation blob: codec ser_uint256 unser_uint256 "\<lambda>x. length x = 32"
  by unfold_locales (auto simp: ser_uint256_def unser_uint256_def read_append read_Inr)

interpretation c8: codec ser_writedata8 ser_readdata8 "\<lambda>_. True"
proof
  fix x :: byte and r st :: bytes
  show "ser_readdata8 (ser_writedata8 x @ r) = Inr (x, r)"
    by (simp add: ser_readdata8_def ser_writedata8_def bindr_def read_def returnr_def)
  show "ser_readdata8 st = Inr (x, r) \<Longrightarrow> st = ser_writedata8 x @ r \<and> True"
    by (auto simp: ser_readdata8_def ser_writedata8_def bindr_Inr read_Inr length_Suc_conv)
qed

lemma unat_u32_lt: "unat (x :: u32) < 256 ^ 4"
  using unsigned_less [of x, where ?'a = nat] by simp

lemma unat_u64_lt: "unat (x :: u64) < 256 ^ 8"
  using unsigned_less [of x, where ?'a = nat] by simp

lemma unat_of_from_le:
  "length b = 4 \<Longrightarrow> unat (of_nat (from_le b) :: u32) = from_le b"
  "length b = 8 \<Longrightarrow> unat (of_nat (from_le b) :: u64) = from_le b"
  using from_le_bound [of b] by (simp_all add: unat_of_nat take_bit_nat_eq_self)

interpretation c16: codec ser_writedata16 ser_readdata16 "\<lambda>n. n < 2 ^ 16"
proof
  fix x and r st :: bytes
  show "x < 2 ^ 16 \<Longrightarrow> ser_readdata16 (ser_writedata16 x @ r) = Inr (x, r)"
    by (simp add: ser_readdata16_def ser_writedata16_def bindr_def read_append returnr_def)
  assume "ser_readdata16 st = Inr (x, r)"
  then obtain b where "st = b @ r" "length b = 2" "x = from_le b"
    by (auto simp: ser_readdata16_def bindr_Inr read_Inr)
  then show "st = ser_writedata16 x @ r \<and> x < 2 ^ 16"
    using from_le_bound [of b] by (simp add: ser_writedata16_def)
qed

interpretation c32: codec ser_writedata32 ser_readdata32 "\<lambda>_. True"
proof
  fix x and r st :: bytes
  show "ser_readdata32 (ser_writedata32 x @ r) = Inr (x, r)"
    using unat_u32_lt [of x] by (simp add: ser_readdata32_def ser_writedata32_def bindr_def read_append returnr_def)
  assume "ser_readdata32 st = Inr (x, r)"
  then obtain b where "st = b @ r" "length b = 4" "x = of_nat (from_le b)"
    by (auto simp: ser_readdata32_def bindr_Inr read_Inr)
  then show "st = ser_writedata32 x @ r \<and> True"
    by (simp add: ser_writedata32_def unat_of_from_le)
qed

interpretation c64: codec ser_writedata64 ser_readdata64 "\<lambda>_. True"
proof
  fix x and r st :: bytes
  show "ser_readdata64 (ser_writedata64 x @ r) = Inr (x, r)"
    using unat_u64_lt [of x] by (simp add: ser_readdata64_def ser_writedata64_def bindr_def read_append returnr_def)
  assume "ser_readdata64 st = Inr (x, r)"
  then obtain b where "st = b @ r" "length b = 8" "x = of_nat (from_le b)"
    by (auto simp: ser_readdata64_def bindr_Inr read_Inr)
  then show "st = ser_writedata64 x @ r \<and> True"
    by (simp add: ser_writedata64_def unat_of_from_le)
qed

interpretation ci64: codec ser_int64 unser_int64 "\<lambda>v. - (2 ^ 63) \<le> v \<and> v < 2 ^ 63"
proof
  fix x and r st :: bytes
  show "- (2 ^ 63) \<le> x \<and> x < 2 ^ 63 \<Longrightarrow> unser_int64 (ser_int64 x @ r) = Inr (x, r)"
    by (simp add: unser_int64_def ser_int64_def c64.bind_enc returnr_def signed_of_int signed_take_bit_int_eq_self)
  assume "unser_int64 st = Inr (x, r)"
  then obtain w where w: "ser_readdata64 st = Inr (w, r)" "x = sint w" by (auto simp: unser_int64_def bindr_Inr)
  then show "st = ser_int64 x @ r \<and> - (2 ^ 63) \<le> x \<and> x < 2 ^ 63"
    using c64.enc_dec [OF w(1)] sint_greater_eq [of w] sint_less [of w] by (simp add: ser_int64_def)
qed

section \<open>CompactSize\<close>

lemma length_WriteCompactSize: "n < 2 ^ 64 \<Longrightarrow> length (WriteCompactSize n) = GetSizeOfCompactSize n"
  by (simp add: WriteCompactSize_def GetSizeOfCompactSize_def ser_writedata8_def ser_writedata16_def
      ser_writedata32_def ser_writedata64_def)

lemmas read8_byte = c8.bind_enc [unfolded ser_writedata8_def, simplified]

lemma unat_of_nat_small:
  "n < 256 \<Longrightarrow> unat (of_nat n :: byte) = n" "n \<le> 0xffffffff \<Longrightarrow> unat (of_nat n :: u32) = n"
  "n < 2 ^ 64 \<Longrightarrow> unat (of_nat n :: u64) = n"
  by (simp_all add: unat_of_nat take_bit_nat_eq_self)

lemma ReadCompactSize_body_write:
  assumes "n < 2 ^ 64"
  shows "ReadCompactSize_body (WriteCompactSize n @ r) = Inr (n, r)"
proof -
  consider "n < 253" | "253 \<le> n" "n \<le> 0xffff" | "0xffff < n" "n \<le> 0xffffffff" | "0xffffffff < n" by linarith
  then show ?thesis
  proof cases
    case 1
    then have "(of_nat n :: byte) < 253" by (simp add: word_less_nat_alt unat_of_nat_small)
    then show ?thesis using 1
      by (simp add: ReadCompactSize_body_def WriteCompactSize_def ser_writedata8_def read8_byte unat_of_nat_small returnr_def)
  next
    case 2
    then show ?thesis
      by (simp add: ReadCompactSize_body_def WriteCompactSize_def ser_writedata8_def read8_byte c16.bind_enc returnr_def)
  next
    case 3
    then show ?thesis
      by (simp add: ReadCompactSize_body_def WriteCompactSize_def ser_writedata8_def read8_byte c32.bind_enc
          unat_of_nat_small returnr_def)
  next
    case 4
    then show ?thesis using assms
      by (simp add: ReadCompactSize_body_def WriteCompactSize_def ser_writedata8_def read8_byte c64.bind_enc
          unat_of_nat_small returnr_def)
  qed
qed

lemma byte_255: "\<not> (c :: byte) < 253 \<Longrightarrow> c \<noteq> 253 \<Longrightarrow> c \<noteq> 254 \<Longrightarrow> c = 255"
proof -
  assume a: "\<not> c < 253" "c \<noteq> 253" "c \<noteq> 254"
  have "unat c \<noteq> 253" "unat c \<noteq> 254" using a(2,3) by (auto simp: word_unat_eq_iff)
  moreover have "\<not> unat c < 253" using a(1) by (simp add: word_less_nat_alt)
  ultimately have "unat c = 255" using unat_byte_less [of c] by linarith
  then show "c = 255" by (simp add: word_unat_eq_iff)
qed

lemma ReadCompactSize_body_read:
  assumes "ReadCompactSize_body st = Inr (n, r)"
  shows "st = WriteCompactSize n @ r \<and> n < 2 ^ 64"
proof -
  from assms obtain c st' where c: "ser_readdata8 st = Inr (c, st')"
    and rest: "(if c < 253 then returnr (unat c)
       else if c = 253 then bindr ser_readdata16 (\<lambda>n. if n < 253 then failr NonCanonicalCompactSize else returnr n)
       else if c = 254 then bindr ser_readdata32 (\<lambda>n. if unat n < 0x10000 then failr NonCanonicalCompactSize else returnr (unat n))
       else bindr ser_readdata64 (\<lambda>n. if unat n < 0x100000000 then failr NonCanonicalCompactSize else returnr (unat n))) st'
      = Inr (n, r)"
    unfolding ReadCompactSize_body_def bindr_Inr by blast
  have st: "st = c # st'" using c8.enc_dec [OF c] by (simp add: ser_writedata8_def)
  consider "c < 253" | "c = 253" | "c = 254" | "c = 255" "\<not> c < 253" using byte_255 by blast
  then show ?thesis
  proof cases
    case 1
    then have "unat c = n" "st' = r" using rest by simp_all
    moreover have "unat c < 253" using 1 by (simp add: word_less_nat_alt)
    ultimately show ?thesis using st by (auto simp: WriteCompactSize_def ser_writedata8_def)
  next
    case 2
    then have d: "ser_readdata16 st' = Inr (n, r)" and ge: "253 \<le> n"
      using rest by (auto simp: bindr_Inr split: if_splits)
    show ?thesis using c16.enc_dec [OF d] st 2 ge by (simp add: WriteCompactSize_def ser_writedata8_def)
  next
    case 3
    then obtain w where d: "ser_readdata32 st' = Inr (w, r)" and ge: "0x10000 \<le> unat w" "n = unat w"
      using rest by (auto simp: bindr_Inr split: if_splits)
    show ?thesis using c32.enc_dec [OF d] st 3 ge unat_u32_lt [of w] by (simp add: WriteCompactSize_def ser_writedata8_def)
  next
    case 4
    then obtain w where d: "ser_readdata64 st' = Inr (w, r)" and ge: "0x100000000 \<le> unat w" "n = unat w"
      using rest by (auto simp: bindr_Inr split: if_splits)
    show ?thesis using c64.enc_dec [OF d] st 4 ge unat_u64_lt [of w] by (simp add: WriteCompactSize_def ser_writedata8_def)
  qed
qed

interpretation compact: codec WriteCompactSize "ReadCompactSize True" "\<lambda>n. n \<le> MAX_SIZE"
proof
  fix n and r st :: bytes
  show "n \<le> MAX_SIZE \<Longrightarrow> ReadCompactSize True (WriteCompactSize n @ r) = Inr (n, r)"
    using ReadCompactSize_body_write [of n r]
    by (simp add: ReadCompactSize_def bindr_def returnr_def MAX_SIZE_def)
  assume "ReadCompactSize True st = Inr (n, r)"
  then have "ReadCompactSize_body st = Inr (n, r)" "n \<le> MAX_SIZE"
    by (auto simp: ReadCompactSize_def bindr_Inr split: if_splits)
  then show "st = WriteCompactSize n @ r \<and> n \<le> MAX_SIZE" using ReadCompactSize_body_read by blast
qed

section \<open>VarInt\<close>

text \<open>The bytes of a number that is followed by further digits, and of the last digits.\<close>

lemma varint_tmp_True: "rev (varint_tmp n True) =
    (if n \<le> 0x7f then [] else rev (varint_tmp (n div 128 - 1) True)) @ [of_nat (n mod 128 + 128)]"
  by (subst varint_tmp.simps) simp

lemma WriteVarInt_rec: "WriteVarInt n =
    (if n \<le> 0x7f then [] else rev (varint_tmp (n div 128 - 1) True)) @ [of_nat (n mod 128)]"
  unfolding WriteVarInt_def by (subst varint_tmp.simps) simp

lemma unat_digit:
  "unat (of_nat (n mod 128 + 128) :: byte) = n mod 128 + 128" "unat (of_nat (n mod 128) :: byte) = n mod 128"
proof -
  have "n mod 128 < 128" by simp
  then have "n mod 128 + 128 < 256" "n mod 128 < 256" by linarith+
  then show "unat (of_nat (n mod 128 + 128) :: byte) = n mod 128 + 128" "unat (of_nat (n mod 128) :: byte) = n mod 128"
    by (simp_all only: unat_of_nat_small)
qed

lemma read_varint_hi:
  "n \<le> imax div 128 \<Longrightarrow> n * 128 + d mod 128 \<noteq> imax \<Longrightarrow>
    read_varint imax n (of_nat (d mod 128 + 128) # st) = read_varint imax (n * 128 + d mod 128 + 1) st"
  by (simp only: read_varint.simps unat_digit Let_def) simp

lemma read_varint_lo:
  "n \<le> imax div 128 \<Longrightarrow> read_varint imax n (of_nat (d mod 128) # st) = Inr (n * 128 + d mod 128, st)"
  using mod_less_divisor [of 128 d] by (simp only: read_varint.simps unat_digit Let_def) (simp add: not_le [symmetric])

lemma read_varint_more:
  assumes "n < imax"
  shows "read_varint imax 0 (rev (varint_tmp n True) @ st) = read_varint imax (n + 1) st"
  using assms
proof (induction n arbitrary: st rule: less_induct)
  case (less n)
  show ?case
  proof (cases "n \<le> 0x7f")
    case True
    then have "n mod 128 = n" by simp
    then show ?thesis using True less.prems read_varint_hi [of 0 imax n st]
      unfolding varint_tmp_True [of n] by (simp del: read_varint.simps of_nat_add)
  next
    case False
    let ?m = "n div 128 - 1"
    have m: "?m < n" "?m + 1 = n div 128" using False by linarith+
    have le: "n div 128 \<le> imax div 128" using less.prems by (intro div_le_mono) simp
    have "read_varint imax (?m + 1) (of_nat (n mod 128 + 128) # st) = read_varint imax (n + 1) st"
      using less.prems read_varint_hi [OF le, of n st] unfolding m(2) by (simp del: read_varint.simps of_nat_add)
    then show ?thesis unfolding varint_tmp_True [of n] using False less.IH [of ?m] m less.prems
      by (simp del: read_varint.simps of_nat_add)
  qed
qed

lemma ReadVarInt_Write:
  assumes "n \<le> imax"
  shows "ReadVarInt imax (WriteVarInt n @ r) = Inr (n, r)"
proof (cases "n \<le> 0x7f")
  case True
  then show ?thesis unfolding ReadVarInt_def WriteVarInt_rec
    using read_varint_lo [of 0 imax n r] by (simp del: read_varint.simps)
next
  case False
  let ?m = "n div 128 - 1"
  have m: "?m < imax" "?m + 1 = n div 128" using False assms by linarith+
  have le: "n div 128 \<le> imax div 128" using assms by (rule div_le_mono)
  have "read_varint imax 0 (rev (varint_tmp ?m True) @ of_nat (n mod 128) # r) = Inr (n, r)"
    using read_varint_more [OF m(1)] read_varint_lo [OF le, of n r] unfolding m(2) by simp
  then show ?thesis unfolding ReadVarInt_def WriteVarInt_rec using False by simp
qed

lemma byte_high: "128 \<le> unat (c :: byte) \<Longrightarrow> of_nat (unat c mod 128 + 128) = c"
proof -
  assume a: "128 \<le> unat c"
  have "unat c - 128 < 128" using unat_byte_less [of c] by linarith
  then have "unat c mod 128 + 128 = unat c" using a by (simp add: le_mod_geq)
  then show ?thesis by (metis of_nat_unat ucast_id)
qed

lemma byte_low: "\<not> 128 \<le> unat (c :: byte) \<Longrightarrow> of_nat (unat c mod 128) = c"
  by simp

text \<open>What the reader has consumed when its accumulator is \<open>n\<close>.\<close>

abbreviation varint_prefix :: "nat \<Rightarrow> bytes" where
  "varint_prefix n \<equiv> (if n = 0 then [] else rev (varint_tmp (n - 1) True))"

lemma prefix_step:
  "varint_prefix n @ [of_nat (d mod 128 + 128)] = varint_prefix (n * 128 + d mod 128 + 1)"
  "varint_prefix n @ [of_nat (d mod 128)] = WriteVarInt (n * 128 + d mod 128)"
proof -
  let ?n = "n * 128 + d mod 128"
  have q: "?n div 128 = n" "?n mod 128 = d mod 128" by simp_all
  have z: "?n \<le> 0x7f \<longleftrightarrow> n = 0" by (cases n) auto
  show "varint_prefix n @ [of_nat (d mod 128 + 128)] = varint_prefix (?n + 1)"
    using varint_tmp_True [of ?n] unfolding q z by simp
  show "varint_prefix n @ [of_nat (d mod 128)] = WriteVarInt ?n"
    using WriteVarInt_rec [of ?n] unfolding q z by simp
qed

lemma read_varint_sound:
  assumes "read_varint imax n st = Inr (v, r)"
  shows "varint_prefix n @ st = WriteVarInt v @ r \<and> v div 128 \<le> imax div 128"
  using assms
proof (induction imax n st rule: read_varint.induct)
  case (2 imax n c st)
  let ?n = "n * 128 + unat c mod 128"
  have le: "n \<le> imax div 128" using "2.prems" by (auto split: if_splits)
  show ?case
  proof (cases "128 \<le> unat c")
    case True
    then have rd: "read_varint imax (?n + 1) st = Inr (v, r)" and ne: "?n \<noteq> imax"
      using "2.prems" le by (auto simp: Let_def split: if_splits)
    have "varint_prefix (?n + 1) @ st = WriteVarInt v @ r \<and> v div 128 \<le> imax div 128"
      using "2.IH" [OF _ refl True ne rd] le by simp
    moreover have "varint_prefix n @ c # st = varint_prefix (?n + 1) @ st"
      unfolding prefix_step(1) [symmetric] byte_high [OF True] by simp
    ultimately show ?thesis by simp
  next
    case False
    then have "v = ?n" "r = st" using "2.prems" le by (auto simp: Let_def split: if_splits)
    moreover have "varint_prefix n @ c # st = WriteVarInt ?n @ st"
      unfolding prefix_step(2) [symmetric] byte_low [OF False] by simp
    ultimately show ?thesis using le by simp
  qed
qed simp

lemma varint_codec:
  assumes "imax mod 128 = 127"
  shows "codec WriteVarInt (ReadVarInt imax) (\<lambda>n. n \<le> imax)"
proof
  fix n and r st :: bytes
  show "n \<le> imax \<Longrightarrow> ReadVarInt imax (WriteVarInt n @ r) = Inr (n, r)" by (rule ReadVarInt_Write)
  assume "ReadVarInt imax st = Inr (n, r)"
  then have a: "st = WriteVarInt n @ r" "n div 128 \<le> imax div 128"
    using read_varint_sound [of imax 0 st n r] by (simp_all add: ReadVarInt_def)
  have "n = 128 * (n div 128) + n mod 128" "imax = 128 * (imax div 128) + 127" "n mod 128 < 128"
    using assms mult_div_mod_eq [of 128 imax] by simp_all
  then have "n \<le> imax" using a(2) by linarith
  then show "st = WriteVarInt n @ r \<and> n \<le> imax" using a(1) by blast
qed

text \<open>The widths the node uses: \<^verbatim>\<open>uint32_t\<close>, \<^verbatim>\<open>uint64_t\<close> and non-negative \<^verbatim>\<open>int\<close>.\<close>

interpretation varint32: codec WriteVarInt "ReadVarInt (2 ^ 32 - 1)" "\<lambda>n. n \<le> 2 ^ 32 - 1"
  by (rule varint_codec) simp

interpretation varint64: codec WriteVarInt "ReadVarInt (2 ^ 64 - 1)" "\<lambda>n. n \<le> 2 ^ 64 - 1"
  by (rule varint_codec) simp

interpretation varint31: codec WriteVarInt "ReadVarInt (2 ^ 31 - 1)" "\<lambda>n. n \<le> 2 ^ 31 - 1"
  by (rule varint_codec) simp

lemma size_of_varint: "length (varint_tmp n b) = size_of_varint n"
proof (induction n arbitrary: b rule: less_induct)
  case (less n)
  show ?case
  proof (cases "n \<le> 0x7f")
    case True
    then show ?thesis by (simp add: varint_tmp.simps [of n] size_of_varint.simps [of n])
  next
    case False
    then have "n div 128 - 1 < n" by linarith
    then show ?thesis using False less.IH by (simp add: varint_tmp.simps [of n] size_of_varint.simps [of n])
  qed
qed

section \<open>Vectors\<close>

context codec
begin

lemma vector_enc:
  "length v \<le> MAX_SIZE \<Longrightarrow> \<forall>x\<in>set v. ok x \<Longrightarrow> unser_vector dec (ser_vector enc v @ r) = Inr (v, r)"
  by (simp add: unser_vector_def ser_vector_def compact.bind_enc elems_enc)

lemma vector_dec:
  assumes "unser_vector dec st = Inr (v, r)"
  shows "st = ser_vector enc v @ r \<and> length v \<le> MAX_SIZE \<and> (\<forall>x\<in>set v. ok x)"
proof -
  from assms obtain n st' where n: "ReadCompactSize True st = Inr (n, st')" and e: "unser_elems dec n st' = Inr (v, r)"
    unfolding unser_vector_def bindr_Inr by blast
  show ?thesis using compact.enc_dec [OF n] elems_dec [OF e] by (simp add: ser_vector_def)
qed

lemma vector_codec: "codec (ser_vector enc) (unser_vector dec) (\<lambda>v. length v \<le> MAX_SIZE \<and> (\<forall>x\<in>set v. ok x))"
  using vector_enc vector_dec by unfold_locales auto

end

lemma read_split: "read (a + b) st = bindr (read a) (\<lambda>x. bindr (read b) (\<lambda>y. returnr (x @ y))) st"
  by (auto simp: read_def bindr_def returnr_def take_add add.commute)

lemma read_blocks_eq: "i \<le> nSize \<Longrightarrow> read_blocks i nSize v st = bindr (read (nSize - i)) (\<lambda>b. returnr (v @ b)) st"
proof (induction "nSize - i" arbitrary: i v st rule: less_induct)
  case less
  show ?case
  proof (cases "i < nSize")
    case True
    define blk where "blk = min (nSize - i) 5000000"
    have blk: "0 < blk" "i + blk \<le> nSize" "nSize - i = blk + (nSize - (i + blk))"
      using True by (auto simp: blk_def)
    have dec_arg: "nSize - (i + blk) < nSize - i" using blk True by linarith
    have IH: "read_blocks (i + blk) nSize (v @ b) = bindr (read (nSize - (i + blk))) (\<lambda>c. returnr ((v @ b) @ c))" for b
      using less.hyps [OF dec_arg, of "v @ b"] blk(2) by (simp add: fun_eq_iff)
    have "read_blocks i nSize v st = bindr (read blk) (\<lambda>b. bindr (read (nSize - (i + blk))) (\<lambda>c. returnr ((v @ b) @ c))) st"
      using True by (subst read_blocks.simps) (simp add: IH blk_def [symmetric] Let_def)
    also have "\<dots> = bindr (read (blk + (nSize - (i + blk)))) (\<lambda>b. returnr (v @ b)) st"
      by (simp add: read_split [abs_def] bindr_assoc)
    finally show ?thesis using blk(3) by simp
  next
    case False
    then show ?thesis using less.prems by (subst read_blocks.simps) (simp add: read_def bindr_def returnr_def)
  qed
qed

interpretation bytevec: codec ser_bytes unser_bytes "\<lambda>v. length v \<le> MAX_SIZE"
proof
  fix v r st :: bytes
  show "length v \<le> MAX_SIZE \<Longrightarrow> unser_bytes (ser_bytes v @ r) = Inr (v, r)"
    by (simp add: unser_bytes_def ser_bytes_def compact.dec_enc read_blocks_eq bindr_def read_append returnr_def)
  assume "unser_bytes st = Inr (v, r)"
  then obtain n st' where n: "ReadCompactSize True st = Inr (n, st')" and e: "read_blocks 0 n [] st' = Inr (v, r)"
    unfolding unser_bytes_def bindr_Inr by blast
  from e have "read n st' = Inr (v, r)" by (simp add: read_blocks_eq bindr_Inr)
  then show "st = ser_bytes v @ r \<and> length v \<le> MAX_SIZE"
    using compact.enc_dec [OF n] by (simp add: ser_bytes_def read_Inr)
qed

text \<open>C12. CompactSize is canonical: for sizes up to the limit, reading what was written returns it, and
  every byte sequence the range-checked reader accepts is exactly the encoding the writer emits
  for the value it returns.\<close>

theorem CompactSize_canonical:
  "(n \<le> MAX_SIZE \<longrightarrow> ReadCompactSize True (WriteCompactSize n @ r) = Inr (n, r))
    \<and> (ReadCompactSize True st = Inr (k, r') \<longrightarrow> st = WriteCompactSize k @ r' \<and> k \<le> MAX_SIZE)"
  using compact.dec_enc compact.enc_dec by blast

theorem CompactSize_canonical_witness:
  "ReadCompactSize True (WriteCompactSize 300 @ [7]) = Inr (300, [7])"
  using CompactSize_canonical by (simp add: MAX_SIZE_def)

text \<open>C13. Every 64-bit integer has exactly one VarInt encoding: the reader inverts the writer, and whatever
  it accepts is what the writer produces.\<close>

theorem VarInt_one_to_one:
  "(n < 2 ^ 64 \<longrightarrow> ReadVarInt (2 ^ 64 - 1) (WriteVarInt n @ r) = Inr (n, r))
    \<and> (ReadVarInt (2 ^ 64 - 1) st = Inr (k, r') \<longrightarrow> st = WriteVarInt k @ r' \<and> k < 2 ^ 64)"
proof
  show "n < 2 ^ 64 \<longrightarrow> ReadVarInt (2 ^ 64 - 1) (WriteVarInt n @ r) = Inr (n, r)"
    using varint64.dec_enc [of n r] by linarith
  show "ReadVarInt (2 ^ 64 - 1) st = Inr (k, r') \<longrightarrow> st = WriteVarInt k @ r' \<and> k < 2 ^ 64"
    using varint64.enc_dec [of st k r'] by fastforce
qed

theorem VarInt_one_to_one_witness:
  "ReadVarInt (2 ^ 64 - 1) (WriteVarInt 65535 @ [1]) = Inr (65535, [1])"
  using VarInt_one_to_one [of 65535 "[1]"] by simp

end
