(* ===== verification/Transaction.thy ===== *)
theory Transaction
  imports Params Sha256_D64 Serialize
begin

unbundle bit_operations_syntax

text \<open>
  \<^verbatim>\<open>primitives/transaction.h\<close>, \<^verbatim>\<open>primitives/block.h\<close> and the weight functions of
  \<^verbatim>\<open>consensus/validation.h\<close>: outpoints, inputs, outputs, transactions, headers and blocks, their
  serialization with and without witness data, and their hashes.  A script and a witness stack
  item are byte lists.
\<close>

section \<open>Data\<close>

type_synonym CScript = bytes

definition uint256_IsNull :: "uint256 \<Rightarrow> bool" where
  "uint256_IsNull h = list_all (\<lambda>val. val = 0) h"

definition uint256_zero :: uint256 where
  "uint256_zero = replicate 32 0"

record COutPoint =
  op_hash :: uint256
  op_n :: u32

definition NULL_INDEX :: u32 where
  [const_defs]: "NULL_INDEX = 0xffffffff"

definition COutPoint_IsNull :: "COutPoint \<Rightarrow> bool" where
  "COutPoint_IsNull p = (uint256_IsNull (op_hash p) \<and> op_n p = NULL_INDEX)"

record CTxIn =
  prevout :: COutPoint
  scriptSig :: CScript
  nSequence :: u32
  scriptWitness :: "bytes list"

definition SEQUENCE_FINAL :: u32 where
  [const_defs]: "SEQUENCE_FINAL = 0xffffffff"

definition SEQUENCE_LOCKTIME_DISABLE_FLAG :: u32 where
  [const_defs]: "SEQUENCE_LOCKTIME_DISABLE_FLAG = 0x80000000"

definition SEQUENCE_LOCKTIME_TYPE_FLAG :: u32 where
  [const_defs]: "SEQUENCE_LOCKTIME_TYPE_FLAG = 0x00400000"

definition SEQUENCE_LOCKTIME_MASK :: u32 where
  [const_defs]: "SEQUENCE_LOCKTIME_MASK = 0x0000ffff"

definition SEQUENCE_LOCKTIME_GRANULARITY :: nat where
  [const_defs]: "SEQUENCE_LOCKTIME_GRANULARITY = 9"

record CTxOut =
  nValue :: CAmount
  scriptPubKey :: CScript

definition CTxOut_IsNull :: "CTxOut \<Rightarrow> bool" where
  "CTxOut_IsNull out = (nValue out = - 1)"

definition CTxOut_null :: CTxOut where
  "CTxOut_null = \<lparr>nValue = - 1, scriptPubKey = []\<rparr>"

record CTransaction =
  vin :: "CTxIn list"
  vout :: "CTxOut list"
  version :: u32
  nLockTime :: u32

record CBlockHeader =
  nVersion :: u32
  hashPrevBlock :: uint256
  hashMerkleRoot :: uint256
  nTime :: u32
  nBits :: u32
  nNonce :: u32

record CBlock =
  header :: CBlockHeader
  vtx :: "CTransaction list"

section \<open>Serialization\<close>

definition ser_outpoint :: "COutPoint \<Rightarrow> bytes" where
  "ser_outpoint p = ser_uint256 (op_hash p) @ ser_writedata32 (op_n p)"

definition unser_outpoint :: "COutPoint reader" where
  "unser_outpoint = bindr unser_uint256 (\<lambda>h. bindr ser_readdata32 (\<lambda>k. returnr \<lparr>op_hash = h, op_n = k\<rparr>))"

definition ser_txin :: "CTxIn \<Rightarrow> bytes" where
  "ser_txin i = ser_outpoint (prevout i) @ ser_bytes (scriptSig i) @ ser_writedata32 (nSequence i)"

definition unser_txin :: "CTxIn reader" where
  "unser_txin = bindr unser_outpoint (\<lambda>p. bindr unser_bytes (\<lambda>sc. bindr ser_readdata32 (\<lambda>sq.
     returnr \<lparr>prevout = p, scriptSig = sc, nSequence = sq, scriptWitness = []\<rparr>)))"

definition ser_txout :: "CTxOut \<Rightarrow> bytes" where
  "ser_txout out = ser_int64 (nValue out) @ ser_bytes (scriptPubKey out)"

definition unser_txout :: "CTxOut reader" where
  "unser_txout = bindr unser_int64 (\<lambda>v. bindr unser_bytes (\<lambda>sc. returnr \<lparr>nValue = v, scriptPubKey = sc\<rparr>))"

definition ser_stack :: "bytes list \<Rightarrow> bytes" where
  "ser_stack = ser_vector ser_bytes"

definition unser_stack :: "bytes list reader" where
  "unser_stack = unser_vector unser_bytes"

definition HasWitness :: "CTransaction \<Rightarrow> bool" where
  "HasWitness tx = list_ex (\<lambda>input. scriptWitness input \<noteq> []) (vin tx)"

definition SerializeTransaction :: "bool \<Rightarrow> CTransaction \<Rightarrow> bytes" where
  "SerializeTransaction fAllowWitness tx =
     (let flags = (if fAllowWitness \<and> HasWitness tx then 1 else 0 :: byte)
      in ser_writedata32 (version tx)
         @ (if flags \<noteq> 0 then ser_vector ser_txin [] @ ser_writedata8 flags else [])
         @ ser_vector ser_txin (vin tx) @ ser_vector ser_txout (vout tx)
         @ (if flags AND 1 \<noteq> 0 then concat (map (\<lambda>i. ser_stack (scriptWitness i)) (vin tx)) else [])
         @ ser_writedata32 (nLockTime tx))"

primrec unser_witnesses :: "CTxIn list \<Rightarrow> CTxIn list reader" where
  "unser_witnesses [] = returnr []"
| "unser_witnesses (i # is) =
     bindr unser_stack (\<lambda>stk. bindr (unser_witnesses is) (\<lambda>is'. returnr (i\<lparr>scriptWitness := stk\<rparr> # is')))"

definition unser_vin_vout :: "bool \<Rightarrow> (byte \<times> CTxIn list \<times> CTxOut list) reader" where
  "unser_vin_vout fAllowWitness =
     bindr (unser_vector unser_txin) (\<lambda>ins.
       if ins = [] \<and> fAllowWitness
       then bindr ser_readdata8 (\<lambda>flags.
              if flags \<noteq> 0
              then bindr (unser_vector unser_txin) (\<lambda>ins'.
                   bindr (unser_vector unser_txout) (\<lambda>outs. returnr (flags, ins', outs)))
              else returnr (flags, [], []))
       else bindr (unser_vector unser_txout) (\<lambda>outs. returnr (0, ins, outs)))"

definition unser_witness_part :: "bool \<Rightarrow> byte \<Rightarrow> CTxIn list \<Rightarrow> (byte \<times> CTxIn list) reader" where
  "unser_witness_part fAllowWitness flags ins =
     (if flags AND 1 \<noteq> 0 \<and> fAllowWitness
      then bindr (unser_witnesses ins) (\<lambda>ins'.
             if \<not> list_ex (\<lambda>input. scriptWitness input \<noteq> []) ins' then failr SuperfluousWitness
             else returnr (flags XOR 1, ins'))
      else returnr (flags, ins))"

definition UnserializeTransaction :: "bool \<Rightarrow> CTransaction reader" where
  "UnserializeTransaction fAllowWitness =
     bindr ser_readdata32 (\<lambda>ver.
     bindr (unser_vin_vout fAllowWitness) (\<lambda>(flags, ins, outs).
     bindr (unser_witness_part fAllowWitness flags ins) (\<lambda>(flags', ins').
       if flags' \<noteq> 0 then failr UnknownOptionalData
       else bindr ser_readdata32 (\<lambda>lock.
         returnr \<lparr>vin = ins', vout = outs, version = ver, nLockTime = lock\<rparr>))))"

definition ser_header :: "CBlockHeader \<Rightarrow> bytes" where
  "ser_header h = ser_writedata32 (nVersion h) @ ser_uint256 (hashPrevBlock h) @ ser_uint256 (hashMerkleRoot h)
     @ ser_writedata32 (nTime h) @ ser_writedata32 (nBits h) @ ser_writedata32 (nNonce h)"

definition unser_header :: "CBlockHeader reader" where
  "unser_header = bindr ser_readdata32 (\<lambda>v. bindr unser_uint256 (\<lambda>p. bindr unser_uint256 (\<lambda>mr.
     bindr ser_readdata32 (\<lambda>t. bindr ser_readdata32 (\<lambda>b. bindr ser_readdata32 (\<lambda>k.
       returnr \<lparr>nVersion = v, hashPrevBlock = p, hashMerkleRoot = mr, nTime = t, nBits = b, nNonce = k\<rparr>))))))"

definition SerializeBlock :: "bool \<Rightarrow> CBlock \<Rightarrow> bytes" where
  "SerializeBlock allow_witness b = ser_header (header b) @ ser_vector (SerializeTransaction allow_witness) (vtx b)"

definition UnserializeBlock :: "bool \<Rightarrow> CBlock reader" where
  "UnserializeBlock allow_witness = bindr unser_header (\<lambda>h.
     bindr (unser_vector (UnserializeTransaction allow_witness)) (\<lambda>txs. returnr \<lparr>header = h, vtx = txs\<rparr>))"

section \<open>Hashes, amounts and weights\<close>

text \<open>\<^verbatim>\<open>HashWriter\<close> receives the serialization in pieces; how it is cut does not matter
  (theory \<open>Sha256\<close>), so it is written in one call here.\<close>

definition HashOf :: "bytes \<Rightarrow> uint256" where
  "HashOf bs = HashWriter_GetHash (CSHA256_Write CSHA256_init bs)"

definition GetHash :: "CTransaction \<Rightarrow> uint256" where
  "GetHash tx = HashOf (SerializeTransaction False tx)"

definition GetWitnessHash :: "CTransaction \<Rightarrow> uint256" where
  "GetWitnessHash tx = (if \<not> HasWitness tx then GetHash tx else HashOf (SerializeTransaction True tx))"

definition BlockHash :: "CBlockHeader \<Rightarrow> uint256" where
  "BlockHash h = HashOf (ser_header h)"

definition IsCoinBase :: "CTransaction \<Rightarrow> bool" where
  "IsCoinBase tx = (length (vin tx) = 1 \<and> COutPoint_IsNull (prevout (vin tx ! 0)))"

definition CalculateOutputValue :: "CTransaction \<Rightarrow> CAmount" where
  "CalculateOutputValue tx = foldl (\<lambda>acc txout. acc + nValue txout) 0 (vout tx)"

text \<open>\<^verbatim>\<open>GetValueOut\<close> throws when an output or the running sum leaves the money range.\<close>

fun value_out_loop :: "CAmount \<Rightarrow> CTxOut list \<Rightarrow> CAmount option" where
  "value_out_loop nValueOut [] = Some nValueOut"
| "value_out_loop nValueOut (tx_out # outs) =
     (if \<not> MoneyRange (nValue tx_out) \<or> \<not> MoneyRange (nValueOut + nValue tx_out) then None
      else value_out_loop (nValueOut + nValue tx_out) outs)"

definition GetValueOut :: "CTransaction \<Rightarrow> CAmount option" where
  "GetValueOut tx = value_out_loop 0 (vout tx)"

definition ComputeTotalSize :: "CTransaction \<Rightarrow> int" where
  "ComputeTotalSize tx = int (length (SerializeTransaction True tx))"

definition GetTransactionWeight :: "CTransaction \<Rightarrow> int" where
  "GetTransactionWeight tx =
     int (length (SerializeTransaction False tx)) * (WITNESS_SCALE_FACTOR - 1) + int (length (SerializeTransaction True tx))"

definition GetBlockWeight :: "CBlock \<Rightarrow> int" where
  "GetBlockWeight b =
     int (length (SerializeBlock False b)) * (WITNESS_SCALE_FACTOR - 1) + int (length (SerializeBlock True b))"

definition GetTransactionInputWeight :: "CTxIn \<Rightarrow> int" where
  "GetTransactionInputWeight txin =
     int (length (ser_txin txin)) * (WITNESS_SCALE_FACTOR - 1) + int (length (ser_txin txin))
       + int (length (ser_stack (scriptWitness txin)))"

section \<open>Round trips\<close>

lemmas ser_append = append_assoc append_Nil append_Cons

definition outpoint_ok :: "COutPoint \<Rightarrow> bool" where
  "outpoint_ok p \<longleftrightarrow> length (op_hash p) = 32"

interpretation outpoint: codec ser_outpoint unser_outpoint outpoint_ok
proof
  fix p :: COutPoint and r st :: bytes
  show "outpoint_ok p \<Longrightarrow> unser_outpoint (ser_outpoint p @ r) = Inr (p, r)"
    by (simp add: unser_outpoint_def ser_outpoint_def outpoint_ok_def blob.bind_enc c32.bind_enc returnr_def)
  assume "unser_outpoint st = Inr (p, r)"
  then obtain h k st' where h: "unser_uint256 st = Inr (h, st')" and k: "ser_readdata32 st' = Inr (k, r)"
    and p: "p = \<lparr>op_hash = h, op_n = k\<rparr>" by (auto simp: unser_outpoint_def bindr_Inr)
  show "st = ser_outpoint p @ r \<and> outpoint_ok p"
    using blob.enc_dec [OF h] c32.enc_dec [OF k] by (simp add: p ser_outpoint_def outpoint_ok_def)
qed

definition txin_ok :: "CTxIn \<Rightarrow> bool" where
  "txin_ok i \<longleftrightarrow> outpoint_ok (prevout i) \<and> length (scriptSig i) \<le> MAX_SIZE"

interpretation txin: codec ser_txin unser_txin "\<lambda>i. txin_ok i \<and> scriptWitness i = []"
proof
  fix i :: CTxIn and r st :: bytes
  show "txin_ok i \<and> scriptWitness i = [] \<Longrightarrow> unser_txin (ser_txin i @ r) = Inr (i, r)"
    by (simp add: unser_txin_def ser_txin_def txin_ok_def outpoint.bind_enc bytevec.bind_enc c32.bind_enc returnr_def)
  assume "unser_txin st = Inr (i, r)"
  then obtain p st1 sc st2 q where p: "unser_outpoint st = Inr (p, st1)" and sc: "unser_bytes st1 = Inr (sc, st2)"
    and q: "ser_readdata32 st2 = Inr (q, r)"
    and i: "i = \<lparr>prevout = p, scriptSig = sc, nSequence = q, scriptWitness = []\<rparr>"
    by (auto simp: unser_txin_def bindr_Inr)
  show "st = ser_txin i @ r \<and> txin_ok i \<and> scriptWitness i = []"
    using outpoint.enc_dec [OF p] bytevec.enc_dec [OF sc] c32.enc_dec [OF q] by (simp add: i ser_txin_def txin_ok_def)
qed

definition txout_ok :: "CTxOut \<Rightarrow> bool" where
  "txout_ok out \<longleftrightarrow> - (2 ^ 63) \<le> nValue out \<and> nValue out < 2 ^ 63 \<and> length (scriptPubKey out) \<le> MAX_SIZE"

interpretation txout: codec ser_txout unser_txout txout_ok
proof
  fix out :: CTxOut and r st :: bytes
  show "txout_ok out \<Longrightarrow> unser_txout (ser_txout out @ r) = Inr (out, r)"
    by (simp add: unser_txout_def ser_txout_def txout_ok_def ci64.bind_enc bytevec.bind_enc returnr_def)
  assume "unser_txout st = Inr (out, r)"
  then obtain v st1 sc where v: "unser_int64 st = Inr (v, st1)" and sc: "unser_bytes st1 = Inr (sc, r)"
    and out: "out = \<lparr>nValue = v, scriptPubKey = sc\<rparr>" by (auto simp: unser_txout_def bindr_Inr)
  show "st = ser_txout out @ r \<and> txout_ok out"
    using ci64.enc_dec [OF v] bytevec.enc_dec [OF sc] by (simp add: out ser_txout_def txout_ok_def)
qed

interpretation txins: codec "ser_vector ser_txin" "unser_vector unser_txin"
  "\<lambda>v. length v \<le> MAX_SIZE \<and> (\<forall>i\<in>set v. txin_ok i \<and> scriptWitness i = [])"
  by (rule txin.vector_codec)

interpretation txouts: codec "ser_vector ser_txout" "unser_vector unser_txout"
  "\<lambda>v. length v \<le> MAX_SIZE \<and> (\<forall>out\<in>set v. txout_ok out)"
  by (rule txout.vector_codec)

definition stack_ok :: "bytes list \<Rightarrow> bool" where
  "stack_ok stk \<longleftrightarrow> length stk \<le> MAX_SIZE \<and> (\<forall>b\<in>set stk. length b \<le> MAX_SIZE)"

interpretation wstack: codec ser_stack unser_stack stack_ok
  unfolding ser_stack_def unser_stack_def stack_ok_def by (rule bytevec.vector_codec)

interpretation blkheader: codec ser_header unser_header
  "\<lambda>h. length (hashPrevBlock h) = 32 \<and> length (hashMerkleRoot h) = 32"
proof
  fix h :: CBlockHeader and r st :: bytes
  show "length (hashPrevBlock h) = 32 \<and> length (hashMerkleRoot h) = 32 \<Longrightarrow> unser_header (ser_header h @ r) = Inr (h, r)"
    by (simp add: unser_header_def ser_header_def blob.bind_enc c32.bind_enc returnr_def)
  assume "unser_header st = Inr (h, r)"
  then obtain v st1 p st2 m st3 t st4 b st5 k where
    x: "ser_readdata32 st = Inr (v, st1)" "unser_uint256 st1 = Inr (p, st2)" "unser_uint256 st2 = Inr (m, st3)"
      "ser_readdata32 st3 = Inr (t, st4)" "ser_readdata32 st4 = Inr (b, st5)" "ser_readdata32 st5 = Inr (k, r)"
    and h: "h = \<lparr>nVersion = v, hashPrevBlock = p, hashMerkleRoot = m, nTime = t, nBits = b, nNonce = k\<rparr>"
    by (auto simp: unser_header_def bindr_Inr)
  show "st = ser_header h @ r \<and> length (hashPrevBlock h) = 32 \<and> length (hashMerkleRoot h) = 32"
    using c32.enc_dec [OF x(1)] blob.enc_dec [OF x(2)] blob.enc_dec [OF x(3)] c32.enc_dec [OF x(4)]
      c32.enc_dec [OF x(5)] c32.enc_dec [OF x(6)] by (simp add: h ser_header_def)
qed

section \<open>Transactions\<close>

abbreviation strip :: "CTxIn \<Rightarrow> CTxIn" where
  "strip i \<equiv> i\<lparr>scriptWitness := []\<rparr>"

lemma ser_txin_strip [simp]: "ser_txin (strip i) = ser_txin i"
  by (simp add: ser_txin_def)

lemma ser_txins_strip: "ser_vector ser_txin (map strip v) = ser_vector ser_txin v"
  by (simp add: ser_vector_def comp_def)

lemma strip_witness [simp]: "scriptWitness i = [] \<Longrightarrow> strip i = i"
  by simp

lemma witnesses_enc:
  "\<forall>i\<in>set v. stack_ok (scriptWitness i) \<Longrightarrow>
    unser_witnesses (map strip v) (concat (map (\<lambda>i. ser_stack (scriptWitness i)) v) @ r) = Inr (v, r)"
  by (induction v) (simp_all add: wstack.bind_enc bindr_def returnr_def wstack.dec_enc)

lemma witnesses_dec:
  "unser_witnesses is st = Inr (v, r) \<Longrightarrow>
    st = concat (map (\<lambda>i. ser_stack (scriptWitness i)) v) @ r \<and> map strip v = map strip is
      \<and> (\<forall>i\<in>set v. stack_ok (scriptWitness i))"
proof (induction "is" arbitrary: st v)
  case (Cons i "is")
  then obtain stk st' v' where s: "unser_stack st = Inr (stk, st')" and w: "unser_witnesses is st' = Inr (v', r)"
    and v: "v = i\<lparr>scriptWitness := stk\<rparr> # v'" by (auto simp: bindr_Inr)
  show ?case using wstack.enc_dec [OF s] Cons.IH [OF w] by (simp add: v)
qed simp

definition tx_ok :: "CTransaction \<Rightarrow> bool" where
  "tx_ok tx \<longleftrightarrow> length (vin tx) \<le> MAX_SIZE \<and> (\<forall>i\<in>set (vin tx). txin_ok i \<and> stack_ok (scriptWitness i))
     \<and> length (vout tx) \<le> MAX_SIZE \<and> (\<forall>out\<in>set (vout tx). txout_ok out)"

lemma txins_strip_ok: "tx_ok tx \<Longrightarrow> length (map strip (vin tx)) \<le> MAX_SIZE \<and>
    (\<forall>i\<in>set (map strip (vin tx)). txin_ok i \<and> scriptWitness i = [])"
  by (auto simp: tx_ok_def txin_ok_def)

lemma not_HasWitness: "\<not> HasWitness tx \<longleftrightarrow> map strip (vin tx) = vin tx"
proof -
  have "map strip v = v \<longleftrightarrow> (\<forall>i\<in>set v. scriptWitness i = [])" for v
  proof (induction v)
    case (Cons i v)
    have "strip i = i \<longleftrightarrow> scriptWitness i = []" by (cases i) auto
    then show ?case using Cons by simp
  qed simp
  then show ?thesis by (auto simp: HasWitness_def list_ex_iff)
qed

lemma txins_bind: "tx_ok tx \<Longrightarrow> bindr (unser_vector unser_txin) f (ser_vector ser_txin (vin tx) @ r) = f (map strip (vin tx)) r"
  using txins.bind_enc [OF txins_strip_ok] by (simp add: ser_txins_strip)

lemma txouts_bind: "tx_ok tx \<Longrightarrow> bindr (unser_vector unser_txout) f (ser_vector ser_txout (vout tx) @ r) = f (vout tx) r"
  by (rule txouts.bind_enc) (simp add: tx_ok_def)

lemma empty_bind: "bindr (unser_vector unser_txin) f (ser_vector ser_txin [] @ r) = f [] r"
  by (rule txins.bind_enc) simp

lemma witnesses_bind: "tx_ok tx \<Longrightarrow>
    bindr (unser_witnesses (map strip (vin tx))) f (concat (map (\<lambda>i. ser_stack (scriptWitness i)) (vin tx)) @ r) = f (vin tx) r"
  using witnesses_enc [of "vin tx" r] by (simp add: bindr_def tx_ok_def)

lemma vin_vout_plain:
  "tx_ok tx \<Longrightarrow> fAllowWitness \<longrightarrow> vin tx \<noteq> [] \<Longrightarrow>
    bindr (unser_vin_vout fAllowWitness) f (ser_vector ser_txin (vin tx) @ ser_vector ser_txout (vout tx) @ r)
      = f (0, map strip (vin tx), vout tx) r"
  by (auto simp: unser_vin_vout_def bindr_assoc txins_bind txouts_bind)

lemma vin_vout_empty: "bindr (unser_vin_vout True) f (ser_vector ser_txin [] @ ser_vector ser_txout [] @ r) = f (0, [], []) r"
proof -
  have "ser_vector ser_txout [] = ser_writedata8 0" by (simp add: ser_vector_def WriteCompactSize_def)
  then show ?thesis by (simp add: unser_vin_vout_def bindr_assoc empty_bind c8.bind_enc)
qed

lemma vin_vout_flags:
  "tx_ok tx \<Longrightarrow> bindr (unser_vin_vout True) f
      (ser_vector ser_txin [] @ ser_writedata8 1 @ ser_vector ser_txin (vin tx) @ ser_vector ser_txout (vout tx) @ r)
      = f (1, map strip (vin tx), vout tx) r"
  by (simp add: unser_vin_vout_def bindr_assoc empty_bind c8.bind_enc txins_bind txouts_bind)

lemma tx_plain_enc:
  assumes "tx_ok tx" "\<not> HasWitness tx" "fAllowWitness \<longrightarrow> vin tx \<noteq> [] \<or> vout tx = []"
  shows "UnserializeTransaction fAllowWitness (SerializeTransaction fAllowWitness tx @ r) = Inr (tx, r)"
proof -
  have s: "map strip (vin tx) = vin tx" using assms(2) not_HasWitness by blast
  have e: "SerializeTransaction fAllowWitness tx @ r = ser_writedata32 (version tx)
      @ ser_vector ser_txin (vin tx) @ ser_vector ser_txout (vout tx) @ ser_writedata32 (nLockTime tx) @ r"
    using assms(2) by (simp add: SerializeTransaction_def)
  show ?thesis
  proof (cases "fAllowWitness \<and> vin tx = []")
    case True
    then have [simp]: "vin tx = []" "vout tx = []" and f: "fAllowWitness" using assms(3) by auto
    show ?thesis unfolding e using f
      by (simp add: UnserializeTransaction_def c32.bind_enc vin_vout_empty unser_witness_part_def returnr_def)
  next
    case False
    then have f: "fAllowWitness \<longrightarrow> vin tx \<noteq> []" by blast
    show ?thesis unfolding e
      by (simp add: UnserializeTransaction_def c32.bind_enc vin_vout_plain [OF assms(1) f] s unser_witness_part_def returnr_def)
  qed
qed

lemma tx_witness_enc:
  assumes "tx_ok tx" "HasWitness tx"
  shows "UnserializeTransaction True (SerializeTransaction True tx @ r) = Inr (tx, r)"
proof -
  have "SerializeTransaction True tx @ r = ser_writedata32 (version tx) @ ser_vector ser_txin [] @ ser_writedata8 1
      @ ser_vector ser_txin (vin tx) @ ser_vector ser_txout (vout tx)
      @ concat (map (\<lambda>i. ser_stack (scriptWitness i)) (vin tx)) @ ser_writedata32 (nLockTime tx) @ r"
    using assms(2) by (simp add: SerializeTransaction_def)
  moreover have "list_ex (\<lambda>input. scriptWitness input \<noteq> []) (vin tx)" using assms(2) by (simp add: HasWitness_def)
  ultimately show ?thesis
    by (simp add: UnserializeTransaction_def c32.bind_enc vin_vout_flags [OF assms(1)] unser_witness_part_def
        bindr_assoc witnesses_bind [OF assms(1)] returnr_def)
qed

lemma vin_vout_dec:
  assumes "unser_vin_vout fAllowWitness st = Inr ((flags, ins, outs), r)"
  shows "(st = (if flags = 0 then [] else ser_vector ser_txin [] @ ser_writedata8 flags)
        @ ser_vector ser_txin ins @ ser_vector ser_txout outs @ r)
    \<and> length ins \<le> MAX_SIZE \<and> (\<forall>i\<in>set ins. txin_ok i \<and> scriptWitness i = [])
    \<and> length outs \<le> MAX_SIZE \<and> (\<forall>out\<in>set outs. txout_ok out)
    \<and> (flags = 0 \<and> fAllowWitness \<longrightarrow> ins \<noteq> [] \<or> outs = []) \<and> (flags \<noteq> 0 \<longrightarrow> fAllowWitness)"
proof -
  from assms obtain ins0 st1 where i: "unser_vector unser_txin st = Inr (ins0, st1)"
    and b: "(if ins0 = [] \<and> fAllowWitness
       then bindr ser_readdata8 (\<lambda>flags.
              if flags \<noteq> 0
              then bindr (unser_vector unser_txin) (\<lambda>ins'.
                   bindr (unser_vector unser_txout) (\<lambda>outs. returnr (flags, ins', outs)))
              else returnr (flags, [], []))
       else bindr (unser_vector unser_txout) (\<lambda>outs. returnr (0, ins0, outs))) st1 = Inr ((flags, ins, outs), r)"
    unfolding unser_vin_vout_def bindr_Inr by blast
  note I = txins.enc_dec [OF i]
  consider (plain) "unser_vector unser_txout st1 = Inr (outs, r)" "flags = 0" "ins = ins0" "\<not> (ins0 = [] \<and> fAllowWitness)"
    | (empty) "ins0 = []" "fAllowWitness" "ser_readdata8 st1 = Inr (0, r)" "flags = 0" "ins = []" "outs = []"
    | (flag) st2 st3 where "ins0 = []" "fAllowWitness" "ser_readdata8 st1 = Inr (flags, st2)" "flags \<noteq> 0"
        "unser_vector unser_txin st2 = Inr (ins, st3)" "unser_vector unser_txout st3 = Inr (outs, r)"
    using b by (auto simp: bindr_Inr split: if_splits)
  then show ?thesis
  proof cases
    case plain
    then show ?thesis using I txouts.enc_dec [OF plain(1)] by auto
  next
    case empty
    then show ?thesis using I c8.enc_dec [OF empty(3)] by (simp add: ser_vector_def WriteCompactSize_def)
  next
    case flag
    then show ?thesis using I c8.enc_dec [OF flag(3)] txins.enc_dec [OF flag(5)] txouts.enc_dec [OF flag(6)] by simp
  qed
qed

lemma byte_xor_1: "(f :: byte) XOR 1 = 0 \<longleftrightarrow> f = 1"
proof
  assume a: "f XOR 1 = 0"
  have "f = (f XOR 1) XOR 1" by (simp only: xor.assoc xor_self_eq xor.right_neutral)
  then show "f = 1" by (simp only: a xor.left_neutral)
qed simp

lemma tx_dec:
  assumes "UnserializeTransaction fAllowWitness st = Inr (tx, r)"
  shows "st = SerializeTransaction fAllowWitness tx @ r \<and> tx_ok tx
    \<and> (fAllowWitness \<longrightarrow> vin tx \<noteq> [] \<or> vout tx = []) \<and> (\<not> fAllowWitness \<longrightarrow> \<not> HasWitness tx)"
proof -
  from assms obtain ver st1 flags ins outs st2 flags' ins' st3 lock where
    x: "ser_readdata32 st = Inr (ver, st1)" "unser_vin_vout fAllowWitness st1 = Inr ((flags, ins, outs), st2)"
      "unser_witness_part fAllowWitness flags ins st2 = Inr ((flags', ins'), st3)" "flags' = 0"
      "ser_readdata32 st3 = Inr (lock, r)"
    and tx: "tx = \<lparr>vin = ins', vout = outs, version = ver, nLockTime = lock\<rparr>"
    by (auto simp: UnserializeTransaction_def bindr_Inr split: if_splits)
  note V = vin_vout_dec [OF x(2)] and H = c32.enc_dec [OF x(1)] and L = c32.enc_dec [OF x(5)]
  show ?thesis
  proof (cases "flags AND 1 \<noteq> 0 \<and> fAllowWitness")
    case True
    then have w: "unser_witnesses ins st2 = Inr (ins', st3)" and ex: "list_ex (\<lambda>input. scriptWitness input \<noteq> []) ins'"
      and f: "flags = 1" using x(3,4) by (auto simp: unser_witness_part_def bindr_Inr byte_xor_1 split: if_splits)
    note W = witnesses_dec [OF w]
    have s: "map strip ins' = ins" using W V by (metis map_idI strip_witness)
    have "ser_vector ser_txin ins = ser_vector ser_txin ins'" using ser_txins_strip [of ins'] s by simp
    moreover have "length ins' \<le> MAX_SIZE" using V s by (metis length_map)
    moreover have "txin_ok i \<and> stack_ok (scriptWitness i)" if "i \<in> set ins'" for i
    proof -
      have "strip i \<in> set ins" using that by (simp flip: s)
      then have "txin_ok (strip i)" using V by blast
      then show ?thesis using W that by (simp add: txin_ok_def)
    qed
    moreover have "HasWitness tx" "ins' \<noteq> []" using ex by (auto simp: HasWitness_def tx)
    ultimately show ?thesis using True H L f unfolding tx
      by (simp add: SerializeTransaction_def tx_ok_def V [THEN conjunct1] W [THEN conjunct1]) (use V in blast)
  next
    case False
    then have e: "flags = 0" "ins' = ins" "st3 = st2" using x(3,4) by (auto simp: unser_witness_part_def split: if_splits)
    then have "\<not> HasWitness tx" using V by (auto simp: HasWitness_def tx list_ex_iff)
    moreover have "stack_ok []" by (simp add: stack_ok_def)
    ultimately show ?thesis using e H L unfolding tx
      by (simp add: SerializeTransaction_def tx_ok_def V [THEN conjunct1]) (use V in auto)
  qed
qed


interpretation tx_wit: codec "SerializeTransaction True" "UnserializeTransaction True"
  "\<lambda>tx. tx_ok tx \<and> (vin tx \<noteq> [] \<or> vout tx = [])"
proof
  fix tx and r st :: bytes
  show "tx_ok tx \<and> (vin tx \<noteq> [] \<or> vout tx = []) \<Longrightarrow> UnserializeTransaction True (SerializeTransaction True tx @ r) = Inr (tx, r)"
    using tx_plain_enc [of tx True r] tx_witness_enc [of tx r] by blast
  show "UnserializeTransaction True st = Inr (tx, r) \<Longrightarrow>
      st = SerializeTransaction True tx @ r \<and> tx_ok tx \<and> (vin tx \<noteq> [] \<or> vout tx = [])"
    using tx_dec [of True st tx r] by blast
qed

interpretation tx_nowit: codec "SerializeTransaction False" "UnserializeTransaction False"
  "\<lambda>tx. tx_ok tx \<and> \<not> HasWitness tx"
proof
  fix tx and r st :: bytes
  show "tx_ok tx \<and> \<not> HasWitness tx \<Longrightarrow> UnserializeTransaction False (SerializeTransaction False tx @ r) = Inr (tx, r)"
    using tx_plain_enc [of tx False r] by blast
  show "UnserializeTransaction False st = Inr (tx, r) \<Longrightarrow>
      st = SerializeTransaction False tx @ r \<and> tx_ok tx \<and> \<not> HasWitness tx"
    using tx_dec [of False st tx r] by blast
qed

interpretation txs: codec "ser_vector (SerializeTransaction True)" "unser_vector (UnserializeTransaction True)"
  "\<lambda>v. length v \<le> MAX_SIZE \<and> (\<forall>tx\<in>set v. tx_ok tx \<and> (vin tx \<noteq> [] \<or> vout tx = []))"
  by (rule tx_wit.vector_codec)

definition block_ok :: "CBlock \<Rightarrow> bool" where
  "block_ok b \<longleftrightarrow> (length (hashPrevBlock (header b)) = 32 \<and> length (hashMerkleRoot (header b)) = 32)
     \<and> length (vtx b) \<le> MAX_SIZE \<and> (\<forall>tx\<in>set (vtx b). tx_ok tx \<and> (vin tx \<noteq> [] \<or> vout tx = []))"

interpretation blk: codec "SerializeBlock True" "UnserializeBlock True" block_ok
proof
  fix b and r st :: bytes
  show "block_ok b \<Longrightarrow> UnserializeBlock True (SerializeBlock True b @ r) = Inr (b, r)"
    by (simp add: UnserializeBlock_def SerializeBlock_def block_ok_def blkheader.bind_enc txs.bind_enc returnr_def)
  assume "UnserializeBlock True st = Inr (b, r)"
  then obtain h st1 ts where h: "unser_header st = Inr (h, st1)"
    and ts: "unser_vector (UnserializeTransaction True) st1 = Inr (ts, r)" and b: "b = \<lparr>header = h, vtx = ts\<rparr>"
    by (auto simp: UnserializeBlock_def bindr_Inr)
  show "st = SerializeBlock True b @ r \<and> block_ok b"
    using blkheader.enc_dec [OF h] txs.enc_dec [OF ts] by (simp add: b SerializeBlock_def block_ok_def)
qed

section \<open>Hashes, amounts and weights\<close>

lemma HashOf_eq: "HashOf bs = sha256 (sha256 bs)"
  using Hash_eq [of bs] by (simp add: HashOf_def HashWriter_GetHash_def Hash_def)

lemma length_HashOf [simp]: "length (HashOf bs) = 32"
  by (simp add: HashOf_eq)

lemma length_ser_header: "length (hashPrevBlock h) = 32 \<Longrightarrow> length (hashMerkleRoot h) = 32 \<Longrightarrow> length (ser_header h) = 80"
  by (simp add: ser_header_def ser_writedata32_def ser_uint256_def)

text \<open>The transaction id does not see the witnesses.\<close>

lemma txid_ignores_witness: "GetHash tx = GetHash (tx\<lparr>vin := map strip (vin tx)\<rparr>)"
  by (simp add: GetHash_def SerializeTransaction_def ser_txins_strip)

lemma sum_values_nonneg: "\<forall>out\<in>set outs. MoneyRange (nValue out) \<Longrightarrow> 0 \<le> (\<Sum>out\<leftarrow>outs. nValue out)"
  by (rule sum_list_nonneg) (auto simp: MoneyRange_def)

lemma value_out_loop_eq:
  "0 \<le> acc \<Longrightarrow> value_out_loop acc outs =
     (if (\<forall>out\<in>set outs. MoneyRange (nValue out)) \<and> (outs \<noteq> [] \<longrightarrow> MoneyRange (acc + (\<Sum>out\<leftarrow>outs. nValue out)))
      then Some (acc + (\<Sum>out\<leftarrow>outs. nValue out)) else None)"
proof (induction acc outs rule: value_out_loop.induct)
  case (2 acc out outs)
  let ?S = "\<Sum>out\<leftarrow>outs. nValue out"
  show ?case
  proof (cases "MoneyRange (nValue out) \<and> MoneyRange (acc + nValue out)")
    case True
    then have "0 \<le> acc + nValue out" by (simp add: MoneyRange_def)
    then show ?thesis using True "2.IH" by (auto simp: add.assoc)
  next
    case False
    have "MoneyRange (acc + nValue out)"
      if "\<forall>out\<in>set (out # outs). MoneyRange (nValue out)" "MoneyRange (acc + (nValue out + ?S))"
      using that sum_values_nonneg [of outs] "2.prems" by (auto simp: MoneyRange_def)
    then show ?thesis using False by auto
  qed
qed simp

lemma value_out_loop_range: "MoneyRange acc \<Longrightarrow> value_out_loop acc outs = Some v \<Longrightarrow> MoneyRange v"
  by (induction acc outs rule: value_out_loop.induct) (auto split: if_splits)

lemma value_out_loop_sum: "value_out_loop acc outs = Some v \<Longrightarrow> v = acc + (\<Sum>out\<leftarrow>outs. nValue out)"
  by (induction acc outs rule: value_out_loop.induct) (auto split: if_splits)

lemma total_ge_stripped: "length (SerializeTransaction False tx) \<le> length (SerializeTransaction True tx)"
  by (simp add: SerializeTransaction_def)

text \<open>C14. A transaction has exactly one serialization with witnesses.  Parsing what was written returns the
  transaction and leaves the rest of the stream; and any bytes the parser accepts are the bytes the
  writer produces for the transaction it returns, so a relayed transaction cannot be re-encoded.
  The only transactions the format cannot carry have outputs but no inputs.\<close>

theorem transaction_serialization_canonical:
  "(tx_ok tx \<and> (vin tx \<noteq> [] \<or> vout tx = []) \<longrightarrow>
      UnserializeTransaction True (SerializeTransaction True tx @ r) = Inr (tx, r))
   \<and> (UnserializeTransaction True st = Inr (tx', r') \<longrightarrow>
      st = SerializeTransaction True tx' @ r' \<and> tx_ok tx' \<and> (vin tx' \<noteq> [] \<or> vout tx' = []))"
  using tx_wit.dec_enc tx_wit.enc_dec by blast

definition example_tx :: CTransaction where
  "example_tx = \<lparr>vin = [\<lparr>prevout = \<lparr>op_hash = replicate 32 7, op_n = 1\<rparr>, scriptSig = [], nSequence = 5,
       scriptWitness = [[1, 2, 3]]\<rparr>], vout = [\<lparr>nValue = 10, scriptPubKey = [0x6a]\<rparr>], version = 2, nLockTime = 0\<rparr>"

theorem transaction_serialization_canonical_witness:
  "UnserializeTransaction True (SerializeTransaction True example_tx @ [9]) = Inr (example_tx, [9])"
  using transaction_serialization_canonical [of example_tx "[9]"]
  by (simp add: example_tx_def tx_ok_def txin_ok_def outpoint_ok_def stack_ok_def txout_ok_def MAX_SIZE_def)

text \<open>C15. \<^verbatim>\<open>GetValueOut\<close> returns the sum of the outputs, inside the money range, or throws; it throws exactly
  when some output or the sum leaves the money range.\<close>

theorem GetValueOut_spec:
  "GetValueOut tx =
     (if (\<forall>out\<in>set (vout tx). MoneyRange (nValue out)) \<and> MoneyRange (\<Sum>out\<leftarrow>vout tx. nValue out)
      then Some (\<Sum>out\<leftarrow>vout tx. nValue out) else None)"
proof -
  have "MoneyRange 0" by (simp add: MoneyRange_def MAX_MONEY_def COIN_def)
  then show ?thesis unfolding GetValueOut_def value_out_loop_eq [OF order_refl] by (cases "vout tx") auto
qed

theorem GetValueOut_spec_witness: "GetValueOut example_tx = Some 10"
  unfolding GetValueOut_spec by (simp add: example_tx_def MoneyRange_def MAX_MONEY_def COIN_def)

end
