(* ===== verification/Block_Chain.thy ===== *)
theory Block_Chain
  imports Arith_Uint256 Transaction "HOL-Library.Monad_Syntax"
begin

unbundle bit_operations_syntax

text \<open>
  \<^verbatim>\<open>chain.h\<close>, \<^verbatim>\<open>chain.cpp\<close> and the insertion of headers into the block index
  (\<^verbatim>\<open>node/blockstorage.cpp\<close>).  The block index is a map from block hash to entry; a pointer to an
  entry is the hash it is stored under.  \<open>index_ok\<close> is the invariant of that map: heights, skip
  pointers, chain work and maximal times all follow from the parent.  The lemmas show that every
  insertion keeps it, that \<^verbatim>\<open>GetAncestor\<close> with its skip pointers returns what walking the parents
  returns, that the last common ancestor and the active-chain vector are what they claim, and
  that the median time past never decreases along a chain that respects it.
\<close>

section \<open>Entries\<close>

record CBlockIndex =
  pprev :: "uint256 option"
  pskip :: "uint256 option"
  nHeight :: int
  nChainWork :: limbs
  nTx :: nat
  m_chain_tx_count :: nat
  nStatus :: u32
  bi_nVersion :: u32
  bi_hashMerkleRoot :: uint256
  bi_nTime :: u32
  bi_nBits :: u32
  bi_nNonce :: u32
  nSequenceId :: int
  nTimeMax :: u32

type_synonym BlockMap = "uint256 \<rightharpoonup> CBlockIndex"

definition SEQ_ID_INIT_FROM_DISK :: int where
  [const_defs]: "SEQ_ID_INIT_FROM_DISK = 1"

definition BLOCK_VALID_TREE :: u32 where
  [const_defs]: "BLOCK_VALID_TREE = 2"

definition BLOCK_VALID_TRANSACTIONS :: u32 where
  [const_defs]: "BLOCK_VALID_TRANSACTIONS = 3"

definition BLOCK_VALID_CHAIN :: u32 where
  [const_defs]: "BLOCK_VALID_CHAIN = 4"

definition BLOCK_VALID_SCRIPTS :: u32 where
  [const_defs]: "BLOCK_VALID_SCRIPTS = 5"

definition BLOCK_VALID_MASK :: u32 where
  [const_defs]: "BLOCK_VALID_MASK = 1 OR 2 OR 3 OR 4 OR 5"

definition BLOCK_FAILED_VALID :: u32 where
  [const_defs]: "BLOCK_FAILED_VALID = 32"

definition CBlockIndex_of :: "CBlockHeader \<Rightarrow> CBlockIndex" where
  "CBlockIndex_of block =
     \<lparr>pprev = None, pskip = None, nHeight = 0, nChainWork = base_uint_of_u64 0, nTx = 0, m_chain_tx_count = 0,
      nStatus = 0, bi_nVersion = nVersion block, bi_hashMerkleRoot = hashMerkleRoot block, bi_nTime = nTime block,
      bi_nBits = nBits block, bi_nNonce = nNonce block, nSequenceId = SEQ_ID_INIT_FROM_DISK, nTimeMax = 0\<rparr>"

text \<open>The header of an entry stored under the parent it names.\<close>

definition GetBlockHeader :: "CBlockIndex \<Rightarrow> CBlockHeader" where
  "GetBlockHeader b =
     \<lparr>nVersion = bi_nVersion b, hashPrevBlock = (case pprev b of Some q \<Rightarrow> q | None \<Rightarrow> uint256_zero),
      hashMerkleRoot = bi_hashMerkleRoot b, nTime = bi_nTime b, nBits = bi_nBits b, nNonce = bi_nNonce b\<rparr>"

definition IsValid :: "CBlockIndex \<Rightarrow> u32 \<Rightarrow> bool" where
  "IsValid b nUpTo =
     (if nStatus b AND BLOCK_FAILED_VALID \<noteq> 0 then False else nStatus b AND BLOCK_VALID_MASK \<ge> nUpTo)"

definition RaiseValidity :: "CBlockIndex \<Rightarrow> u32 \<Rightarrow> CBlockIndex \<times> bool" where
  "RaiseValidity b nUpTo =
     (if nStatus b AND BLOCK_FAILED_VALID \<noteq> 0 then (b, False)
      else if nStatus b AND BLOCK_VALID_MASK < nUpTo
      then (b\<lparr>nStatus := (nStatus b AND NOT BLOCK_VALID_MASK) OR nUpTo\<rparr>, True)
      else (b, False))"

definition GetBlockTime :: "CBlockIndex \<Rightarrow> int" where
  "GetBlockTime b = uint (bi_nTime b)"

section \<open>Skip pointers\<close>

definition InvertLowestOne :: "int \<Rightarrow> int" where
  "InvertLowestOne n = n AND (n - 1)"

definition GetSkipHeight :: "int \<Rightarrow> int" where
  "GetSkipHeight height =
     (if height < 2 then 0
      else if height AND 1 \<noteq> 0 then InvertLowestOne (InvertLowestOne (height - 1)) + 1
      else InvertLowestOne height)"

lemma InvertLowestOne_bounds: "0 < n \<Longrightarrow> 0 \<le> InvertLowestOne n \<and> InvertLowestOne n < n"
  unfolding InvertLowestOne_def using AND_upper2 [of "n - 1" n] by (auto simp: and_nonnegative_int_iff)

lemma GetSkipHeight_bounds: "0 < h \<Longrightarrow> 0 \<le> GetSkipHeight h \<and> GetSkipHeight h < h"
proof -
  assume h: "0 < h"
  have "0 \<le> InvertLowestOne n \<and> InvertLowestOne n \<le> n" if "0 \<le> n" for n
    using InvertLowestOne_bounds [of n] that by (cases "n = 0") (auto simp: InvertLowestOne_def)
  from this [of "InvertLowestOne (h - 1)"] show ?thesis
    using h InvertLowestOne_bounds [of h] InvertLowestOne_bounds [of "h - 1"] by (auto simp: GetSkipHeight_def)
qed

text \<open>The walk of \<^verbatim>\<open>GetAncestor\<close>; its caller has checked that the height is not negative.  \<open>None\<close> is the
  failed assertion that a parent exists.\<close>

function ancestor_walk :: "BlockMap \<Rightarrow> uint256 \<Rightarrow> int \<Rightarrow> int \<Rightarrow> uint256 option" where
  "ancestor_walk t pindexWalk heightWalk height =
     (if 0 \<le> height \<and> heightWalk > height
      then case t pindexWalk of None \<Rightarrow> None
      | Some b \<Rightarrow>
          let heightSkip = GetSkipHeight heightWalk; heightSkipPrev = GetSkipHeight (heightWalk - 1)
          in if pskip b \<noteq> None \<and>
                (heightSkip = height \<or>
                 (heightSkip > height \<and> \<not> (heightSkipPrev < heightSkip - 2 \<and> heightSkipPrev \<ge> height)))
             then ancestor_walk t (the (pskip b)) heightSkip height
             else (case pprev b of None \<Rightarrow> None | Some q \<Rightarrow> ancestor_walk t q (heightWalk - 1) height)
      else Some pindexWalk)"
  by pat_completeness auto
termination
proof (relation "measure (\<lambda>(t, p, hw, h). nat hw)")
  fix t :: BlockMap and p b hw h hs hp
  assume a: "0 \<le> h \<and> h < hw" "t p = Some b" "hs = GetSkipHeight hw"
  then show "((t, the (pskip b), hs, h), t, p, hw, h) \<in> measure (\<lambda>(t, p, hw, h). nat hw)"
    using GetSkipHeight_bounds [of hw] by auto
qed auto

declare ancestor_walk.simps [simp del]

definition GetAncestor :: "BlockMap \<Rightarrow> uint256 \<Rightarrow> int \<Rightarrow> uint256 option" where
  "GetAncestor t p height =
     (case t p of None \<Rightarrow> None
      | Some b \<Rightarrow> if height > nHeight b \<or> height < 0 then None else ancestor_walk t p (nHeight b) height)"

definition BuildSkip :: "BlockMap \<Rightarrow> CBlockIndex \<Rightarrow> CBlockIndex" where
  "BuildSkip t b =
     (case pprev b of None \<Rightarrow> b | Some q \<Rightarrow> b\<lparr>pskip := GetAncestor t q (GetSkipHeight (nHeight b))\<rparr>)"

section \<open>Chain work\<close>

text \<open>\<open>None\<close> is the exception of a division by zero.\<close>

definition GetBitsProof :: "u32 \<Rightarrow> limbs option" where
  "GetBitsProof bits =
     (let (bnTarget, fNegative, fOverflow) = SetCompact bits
      in if fNegative \<or> fOverflow \<or> EqualTo bnTarget 0 then Some (base_uint_of_u64 0)
         else map_option (\<lambda>q. uint_add q (base_uint_of_u64 1))
                (uint_div (uint_not bnTarget) (uint_add bnTarget (base_uint_of_u64 1))))"

definition GetBlockProofEquivalentTime :: "CBlockIndex \<Rightarrow> CBlockIndex \<Rightarrow> CBlockIndex \<Rightarrow> Params \<Rightarrow> int option" where
  "GetBlockProofEquivalentTime to from tip params =
     do {
       let (r, sgn) = (if uint_gt (nChainWork to) (nChainWork from) then (uint_sub (nChainWork to) (nChainWork from), 1)
                      else (uint_sub (nChainWork from) (nChainWork to), - 1));
       prf \<leftarrow> GetBitsProof (bi_nBits tip);
       q \<leftarrow> uint_div (uint_mul r (base_uint_of_u64 (of_int (nPowTargetSpacing params)))) prf;
       Some (if uint_bits q > 63 then sgn * (2 ^ 63 - 1) else sgn * sint (GetLow64 q))
     }"

section \<open>Inserting a header\<close>

text \<open>\<^verbatim>\<open>BlockManager::AddToBlockIndex\<close> on the index and the best header; the set of entries to be
  flushed is returned as well.\<close>

definition AddToBlockIndex ::
  "BlockMap \<Rightarrow> uint256 set \<Rightarrow> CBlockHeader \<Rightarrow> uint256 option \<Rightarrow> (uint256 \<times> BlockMap \<times> uint256 set \<times> uint256 option) option" where
  "AddToBlockIndex t dirty block best_header =
     (let h = BlockHash block
      in case t h of Some _ \<Rightarrow> Some (h, t, dirty, best_header)
      | None \<Rightarrow>
          let t1 = t(h \<mapsto> CBlockIndex_of block);
              b1 = (CBlockIndex_of block)\<lparr>nSequenceId := SEQ_ID_INIT_FROM_DISK\<rparr>;
              prev = hashPrevBlock block;
              b2 = (case t1 prev of None \<Rightarrow> b1
                    | Some c \<Rightarrow> BuildSkip t1 (b1\<lparr>pprev := Some prev, nHeight := nHeight c + 1\<rparr>));
              b3 = b2\<lparr>nTimeMax := (case pprev b2 of Some q \<Rightarrow> max (nTimeMax (the (t1 q))) (bi_nTime b2) | None \<Rightarrow> bi_nTime b2)\<rparr>
          in do {
               prf \<leftarrow> GetBitsProof (bi_nBits b3);
               let b4 = b3\<lparr>nChainWork := uint_add (case pprev b3 of Some q \<Rightarrow> nChainWork (the (t1 q)) | None \<Rightarrow> base_uint_of_u64 0) prf\<rparr>;
               let b5 = fst (RaiseValidity b4 BLOCK_VALID_TREE);
               let best = (case best_header of None \<Rightarrow> Some h
                          | Some bh \<Rightarrow> if uint_gt (nChainWork b5) (nChainWork (the (t bh))) then Some h else best_header);
               Some (h, t(h \<mapsto> b5), insert h dirty, best)
             })"

text \<open>\<^verbatim>\<open>CBlockIndexWorkComparator\<close>; the address comparison that breaks ties is the parameter \<open>less_ptr\<close>.\<close>

definition work_less :: "(uint256 \<Rightarrow> uint256 \<Rightarrow> bool) \<Rightarrow> uint256 \<times> CBlockIndex \<Rightarrow> uint256 \<times> CBlockIndex \<Rightarrow> bool" where
  "work_less less_ptr a b =
     (if uint_gt (nChainWork (snd a)) (nChainWork (snd b)) then False
      else if uint_gt (nChainWork (snd b)) (nChainWork (snd a)) then True
      else if nSequenceId (snd a) < nSequenceId (snd b) then False
      else if nSequenceId (snd a) > nSequenceId (snd b) then True
      else if less_ptr (fst a) (fst b) then False
      else if less_ptr (fst b) (fst a) then True
      else False)"

section \<open>Median time\<close>

primrec recent_times :: "BlockMap \<Rightarrow> nat \<Rightarrow> uint256 option \<Rightarrow> int list" where
  "recent_times t 0 p = []"
| "recent_times t (Suc n) p =
     (case p of None \<Rightarrow> []
      | Some q \<Rightarrow> (case t q of None \<Rightarrow> [] | Some b \<Rightarrow> GetBlockTime b # recent_times t n (pprev b)))"

definition nMedianTimeSpan :: nat where
  [const_defs]: "nMedianTimeSpan = 11"

definition GetMedianTimePast :: "BlockMap \<Rightarrow> uint256 \<Rightarrow> int" where
  "GetMedianTimePast t p =
     (let pmedian = sort (recent_times t nMedianTimeSpan (Some p)) in pmedian ! (length pmedian div 2))"

section \<open>Last common ancestor\<close>

text \<open>A pointer is an optional hash; \<open>None\<close> as a whole is a null dereference or a loop that never ends.\<close>

partial_function (option) lca_skip :: "BlockMap \<Rightarrow> uint256 \<Rightarrow> uint256 \<Rightarrow> (uint256 \<times> uint256) option" where
  "lca_skip t pa pb =
     do { a \<leftarrow> t pa; b \<leftarrow> t pb;
          if pskip a \<noteq> pskip b
          then do { sa \<leftarrow> pskip a; sb \<leftarrow> pskip b; lca_skip t sa sb }
          else Some (pa, pb) }"

partial_function (option) lca_loop :: "BlockMap \<Rightarrow> uint256 option \<Rightarrow> uint256 option \<Rightarrow> uint256 option option" where
  "lca_loop t pa pb =
     (if pa \<noteq> pb
      then do { qa \<leftarrow> pa; qb \<leftarrow> pb; (ra, rb) \<leftarrow> lca_skip t qa qb; a \<leftarrow> t ra; b \<leftarrow> t rb; lca_loop t (pprev a) (pprev b) }
      else Some pa)"

definition LastCommonAncestor :: "BlockMap \<Rightarrow> uint256 \<Rightarrow> uint256 \<Rightarrow> uint256 option option" where
  "LastCommonAncestor t pa pb =
     do { a \<leftarrow> t pa; b \<leftarrow> t pb;
          if nHeight a > nHeight b then lca_loop t (GetAncestor t pa (nHeight b)) (Some pb)
          else if nHeight b > nHeight a then lca_loop t (Some pa) (GetAncestor t pb (nHeight a))
          else lca_loop t (Some pa) (Some pb) }"

section \<open>The active chain\<close>

type_synonym CChain = "uint256 option list"

definition CChain_Height :: "CChain \<Rightarrow> int" where
  "CChain_Height vChain = int (length vChain) - 1"

definition CChain_at :: "CChain \<Rightarrow> int \<Rightarrow> uint256 option" where
  "CChain_at vChain h = (if h < 0 \<or> h \<ge> int (length vChain) then None else vChain ! nat h)"

definition CChain_Genesis :: "CChain \<Rightarrow> uint256 option" where
  "CChain_Genesis vChain = (if length vChain > 0 then vChain ! 0 else None)"

definition CChain_Tip :: "CChain \<Rightarrow> uint256 option" where
  "CChain_Tip vChain = (if length vChain > 0 then vChain ! (length vChain - 1) else None)"

definition CChain_Contains :: "BlockMap \<Rightarrow> CChain \<Rightarrow> uint256 \<Rightarrow> bool" where
  "CChain_Contains t vChain p = (CChain_at vChain (nHeight (the (t p))) = Some p)"

definition CChain_Next :: "BlockMap \<Rightarrow> CChain \<Rightarrow> uint256 \<Rightarrow> uint256 option" where
  "CChain_Next t vChain p =
     (if CChain_Contains t vChain p then CChain_at vChain (nHeight (the (t p)) + 1) else None)"

partial_function (option) set_tip_loop :: "BlockMap \<Rightarrow> CChain \<Rightarrow> uint256 option \<Rightarrow> CChain option" where
  "set_tip_loop t vChain pindex =
     (case pindex of None \<Rightarrow> Some vChain
      | Some p \<Rightarrow>
          do { b \<leftarrow> t p;
               if vChain ! nat (nHeight b) \<noteq> Some p
               then set_tip_loop t (vChain[nat (nHeight b) := Some p]) (pprev b)
               else Some vChain })"

text \<open>\<^verbatim>\<open>resize\<close> truncates or appends null pointers.\<close>

definition CChain_SetTip :: "BlockMap \<Rightarrow> CChain \<Rightarrow> uint256 \<Rightarrow> CChain option" where
  "CChain_SetTip t vChain p =
     do { b \<leftarrow> t p;
          let n = nat (nHeight b + 1);
          set_tip_loop t (take n vChain @ replicate (n - length vChain) None) (Some p) }"

partial_function (option) find_fork_loop :: "BlockMap \<Rightarrow> CChain \<Rightarrow> uint256 option \<Rightarrow> uint256 option option" where
  "find_fork_loop t vChain pindex =
     (case pindex of None \<Rightarrow> Some None
      | Some p \<Rightarrow> if CChain_Contains t vChain p then Some (Some p)
                  else do { b \<leftarrow> t p; find_fork_loop t vChain (pprev b) })"

definition CChain_FindFork :: "BlockMap \<Rightarrow> CChain \<Rightarrow> uint256 option \<Rightarrow> uint256 option option" where
  "CChain_FindFork t vChain pindex =
     (case pindex of None \<Rightarrow> Some None
      | Some p \<Rightarrow> do { b \<leftarrow> t p;
          find_fork_loop t vChain (if nHeight b > CChain_Height vChain then GetAncestor t p (CChain_Height vChain) else Some p) })"

text \<open>\<^verbatim>\<open>LocatorEntries\<close>: the hashes at exponentially growing distances, then the genesis block.\<close>

definition locator_step :: "uint256 list \<Rightarrow> int \<Rightarrow> int" where
  "locator_step hashes step = (if length hashes > 10 then step * 2 else step)"

partial_function (option) locator_loop :: "BlockMap \<Rightarrow> int \<Rightarrow> uint256 list \<Rightarrow> uint256 option \<Rightarrow> uint256 list option" where
  "locator_loop t step hashes index =
     (if index = None then Some hashes
      else do { p \<leftarrow> index; b \<leftarrow> t p;
                if nHeight b = 0 then Some (hashes @ [p])
                else locator_loop t (locator_step (hashes @ [p]) step) (hashes @ [p])
                       (GetAncestor t p (max (nHeight b - step) 0)) })"

definition LocatorEntries :: "BlockMap \<Rightarrow> uint256 option \<Rightarrow> uint256 list option" where
  "LocatorEntries t index = (case index of None \<Rightarrow> Some [] | Some p \<Rightarrow> locator_loop t 1 [] (Some p))"

section \<open>Walking the parents\<close>

text \<open>\<open>up t p k\<close> follows \<open>k\<close> parent pointers: the reference for every search below.\<close>

primrec up :: "BlockMap \<Rightarrow> uint256 \<Rightarrow> nat \<Rightarrow> uint256 option" where
  "up t p 0 = Some p"
| "up t p (Suc k) = Option.bind (Option.bind (t p) pprev) (\<lambda>q. up t q k)"

definition height :: "BlockMap \<Rightarrow> uint256 \<Rightarrow> int" where
  "height t p = nHeight (the (t p))"

definition anc :: "BlockMap \<Rightarrow> uint256 \<Rightarrow> int \<Rightarrow> uint256 option" where
  "anc t p h = up t p (nat (height t p - h))"

text \<open>An entry agrees with its parent.\<close>

definition proof_of :: "u32 \<Rightarrow> limbs" where
  "proof_of bits = the (GetBitsProof bits)"

definition entry_ok :: "BlockMap \<Rightarrow> CBlockIndex \<Rightarrow> bool" where
  "entry_ok t b \<longleftrightarrow>
     (case pprev b of
        None \<Rightarrow> nHeight b = 0 \<and> pskip b = None \<and> nTimeMax b = bi_nTime b \<and> nChainWork b = uint_add (base_uint_of_u64 0) (proof_of (bi_nBits b))
      | Some q \<Rightarrow> (case t q of None \<Rightarrow> False
          | Some c \<Rightarrow> 0 \<le> nHeight c \<and> nHeight b = nHeight c + 1 \<and> pskip b = anc t q (GetSkipHeight (nHeight b)) \<and>
              nTimeMax b = max (nTimeMax c) (bi_nTime b) \<and> nChainWork b = uint_add (nChainWork c) (proof_of (bi_nBits b))))"

definition index_ok :: "BlockMap \<Rightarrow> bool" where
  "index_ok t \<longleftrightarrow> (\<forall>p b. t p = Some b \<longrightarrow> entry_ok t b)"

lemma index_okD: "index_ok t \<Longrightarrow> t p = Some b \<Longrightarrow> entry_ok t b"
  by (simp add: index_ok_def)

lemma entry_height: "entry_ok t b \<Longrightarrow> 0 \<le> nHeight b"
  by (auto simp: entry_ok_def split: option.splits)

lemma height_nonneg: "index_ok t \<Longrightarrow> p \<in> dom t \<Longrightarrow> 0 \<le> height t p"
  using index_okD [of t p] by (auto simp: height_def intro: entry_height)

lemma parent_exists:
  assumes "index_ok t" "t p = Some b" "0 < nHeight b"
  obtains q c where "pprev b = Some q" "t q = Some c" "nHeight b = nHeight c + 1" "0 \<le> nHeight c"
    "pskip b = anc t q (GetSkipHeight (nHeight b))"
  using index_okD [OF assms(1,2)] assms(3) by (auto simp: entry_ok_def split: option.splits)

lemma root_entry: "index_ok t \<Longrightarrow> t p = Some b \<Longrightarrow> nHeight b = 0 \<Longrightarrow> pprev b = None \<and> pskip b = None"
  by (drule (1) index_okD) (auto simp: entry_ok_def split: option.splits)

lemma up_add: "up t p (j + k) = Option.bind (up t p j) (\<lambda>q. up t q k)"
proof (induction j arbitrary: p)
  case (Suc j)
  show ?case by (cases "Option.bind (t p) pprev") (auto simp: Suc.IH)
qed simp

lemma up_defined:
  assumes "index_ok t"
  shows "t p = Some b \<Longrightarrow> int k \<le> nHeight b \<Longrightarrow> \<exists>q c. up t p k = Some q \<and> t q = Some c \<and> nHeight c = nHeight b - int k"
proof (induction k arbitrary: p b)
  case (Suc k)
  from Suc.prems(2) have "0 < nHeight b" by simp
  with assms Suc.prems(1) obtain q c where qc: "pprev b = Some q" "t q = Some c" "nHeight b = nHeight c + 1"
    by (rule parent_exists)
  with Suc.IH [OF qc(2)] Suc.prems show ?case by auto
qed simp

lemma anc_defined:
  assumes "index_ok t" "p \<in> dom t" "0 \<le> h" "h \<le> height t p"
  obtains q where "anc t p h = Some q" "q \<in> dom t" "height t q = h"
proof -
  from assms(2) obtain b where b: "t p = Some b" by auto
  then have "height t p = nHeight b" by (simp add: height_def)
  with up_defined [OF assms(1) b, of "nat (height t p - h)"] assms(3,4) that show ?thesis
    by (fastforce simp: anc_def height_def)
qed

lemma anc_self: "anc t p (height t p) = Some p"
  by (simp add: anc_def)

lemma anc_anc:
  assumes "index_ok t" "p \<in> dom t" "0 \<le> h" "h \<le> k" "k \<le> height t p" "anc t p k = Some q"
  shows "anc t q h = anc t p h"
proof -
  obtain q' where "anc t p k = Some q'" "height t q' = k"
    using assms by (metis anc_defined order_trans)
  with assms(6) have q: "height t q = k" by simp
  have "nat (height t p - h) = nat (height t p - k) + nat (k - h)" using assms by simp
  then show ?thesis using assms(6) q by (simp add: anc_def up_add)
qed

lemma anc_parent:
  assumes "index_ok t" "t p = Some b" "pprev b = Some q" "0 \<le> h" "h < nHeight b"
  shows "anc t p h = anc t q h"
proof -
  have e: "height t p = nHeight b" "height t q = nHeight b - 1"
    using index_okD [OF assms(1,2)] assms(2,3) by (auto simp: entry_ok_def height_def split: option.splits)
  then have "nat (height t p - h) = Suc (nat (height t q - h))" using assms by simp
  then show ?thesis using assms by (simp add: anc_def)
qed

lemma skip_entry:
  assumes "index_ok t" "t p = Some b" "0 < nHeight b"
  shows "pskip b = anc t p (GetSkipHeight (nHeight b))"
proof -
  from assms obtain q c where qc: "pprev b = Some q" "pskip b = anc t q (GetSkipHeight (nHeight b))"
    by (rule parent_exists)
  with anc_parent [OF assms(1,2) qc(1)] GetSkipHeight_bounds [OF assms(3)] show ?thesis by simp
qed

lemma ancestor_walk_anc:
  "index_ok t \<Longrightarrow> p \<in> dom t \<Longrightarrow> hw = height t p \<Longrightarrow> 0 \<le> h \<Longrightarrow> h \<le> hw \<Longrightarrow> ancestor_walk t p hw h = anc t p h"
proof (induction t p hw h rule: ancestor_walk.induct)
  case (1 t p hw h)
  show ?case
  proof (cases "h < hw")
    case False
    with 1 show ?thesis by (simp add: ancestor_walk.simps anc_self)
  next
    case True
    from \<open>p \<in> dom t\<close> obtain b where b: "t p = Some b" by auto
    with 1 True have hb: "nHeight b = hw" "0 < nHeight b" by (auto simp: height_def)
    from \<open>index_ok t\<close> b hb(2) obtain q c where qc: "pprev b = Some q" "t q = Some c" "nHeight b = nHeight c + 1"
      by (rule parent_exists)
    let ?sk = "GetSkipHeight hw"
    have "0 \<le> ?sk" "?sk < hw" using GetSkipHeight_bounds [of hw] hb by auto
    then obtain s where s: "anc t p ?sk = Some s" "s \<in> dom t" "height t s = ?sk"
      using anc_defined [OF \<open>index_ok t\<close> \<open>p \<in> dom t\<close>, of ?sk] 1(5) by auto
    have ps: "pskip b = Some s" using skip_entry [OF \<open>index_ok t\<close> b hb(2)] hb s by simp
    have IHs: "ancestor_walk t s ?sk h = anc t p h" if "h \<le> ?sk"
         "?sk = h \<or> (?sk > h \<and> \<not> (GetSkipHeight (hw - 1) < ?sk - 2 \<and> GetSkipHeight (hw - 1) \<ge> h))"
      using 1(1) [OF _ b refl refl] that ps s 1 True anc_anc [OF _ _ _ _ _ s(1)] \<open>?sk < hw\<close> by simp
    have IHp: "ancestor_walk t q (hw - 1) h = anc t p h" if
         "\<not> (?sk = h \<or> (?sk > h \<and> \<not> (GetSkipHeight (hw - 1) < ?sk - 2 \<and> GetSkipHeight (hw - 1) \<ge> h)))"
      using 1(2) [OF _ b refl refl _ qc(1)] that ps 1 True qc hb anc_parent [OF \<open>index_ok t\<close> b qc(1)] by (auto simp: height_def)
    show ?thesis
      using 1 True b ps qc IHs IHp by (subst ancestor_walk.simps) (auto simp: Let_def)
  qed
qed

lemma GetAncestor_anc:
  assumes "index_ok t" "p \<in> dom t"
  shows "GetAncestor t p h = (if 0 \<le> h \<and> h \<le> height t p then anc t p h else None)"
  using assms ancestor_walk_anc [OF assms refl, of h] by (auto simp: GetAncestor_def height_def)

section \<open>The work of a target\<close>

text \<open>The work of a block is the expected number of hashes to meet its target, \<open>2\<^sup>2\<^sup>5\<^sup>6 div (t + 1)\<close>; no
  target of the compact form makes the division fail.\<close>

lemma compact_target_small:
  assumes "SetCompact bits = (v, negative, False)"
  shows "length v = WIDTH" "uval v < 2 ^ 256 - 1"
proof -
  note sp = SetCompact_spec [OF assms]
  show "length v = WIDTH" by (rule sp)
  let ?sz = "unat bits div 2 ^ 24" and ?m = "unat bits mod 2 ^ 23"
  have lt: "compact_value ?sz ?m < 2 ^ 256" using sp(3) by simp
  then have e: "uval v = compact_value ?sz ?m" using sp(2) by simp
  show "uval v < 2 ^ 256 - 1"
  proof (cases "?sz \<le> 3")
    case True
    have "compact_value ?sz ?m \<le> ?m" using True by (simp add: compact_value_def)
    also have "?m < 2 ^ 23" by simp
    finally show ?thesis using e by simp
  next
    case False
    then obtain k where "?sz - 3 = Suc k" by (metis Suc_diff_Suc not_le)
    then have "even (compact_value ?sz ?m)" using False by (simp add: compact_value_def)
    then have "compact_value ?sz ?m \<noteq> 2 ^ 256 - 1" by (metis even_Suc even_power Suc_pred' dvd_refl zero_less_numeral zero_less_power)
    with e lt show ?thesis by linarith
  qed
qed

lemma GetBitsProof_work:
  obtains w where "GetBitsProof bits = Some w" "length w = WIDTH"
    "uval w = (case SetCompact bits of (v, negative, overflow) \<Rightarrow>
       if negative \<or> overflow \<or> uval v = 0 then 0 else 2 ^ 256 div (uval v + 1))"
proof -
  obtain v negative overflow where sc: "SetCompact bits = (v, negative, overflow)" by (cases "SetCompact bits") auto
  have len: "length v = WIDTH" by (rule SetCompact_spec [OF sc])
  have eq0: "EqualTo v 0 \<longleftrightarrow> uval v = 0" using EqualTo_iff [of v 0] len by (simp add: WIDTH_def)
  show ?thesis
  proof (cases "negative \<or> overflow \<or> uval v = 0")
    case True
    then show ?thesis using that [of "base_uint_of_u64 0"] sc eq0 by (auto simp: GetBitsProof_def)
  next
    case False
    then have "SetCompact bits = (v, negative, False)" using sc by simp
    then have "uval v < 2 ^ 256 - 1" by (rule compact_target_small)
    with len False obtain q where "uint_div (uint_not v) (uint_add v (base_uint_of_u64 1)) = Some q"
      "uval (uint_add q (base_uint_of_u64 1)) = 2 ^ 256 div (uval v + 1)" "length (uint_add q (base_uint_of_u64 1)) = WIDTH"
      using arith256.block_proof [of v] by blast
    then show ?thesis using that [of "uint_add q (base_uint_of_u64 1)"] False sc eq0 by (auto simp: GetBitsProof_def)
  qed
qed

lemma GetBitsProof_proof_of: "GetBitsProof bits = Some (proof_of bits)"
  by (rule GetBitsProof_work [of bits]) (simp add: proof_of_def)

lemma length_proof_of [simp]: "length (proof_of bits) = WIDTH"
  by (rule GetBitsProof_work [of bits]) (simp add: proof_of_def)

section \<open>Insertion keeps the index well formed\<close>

lemma parent_in_dom: "index_ok t \<Longrightarrow> t p = Some b \<Longrightarrow> pprev b = Some q \<Longrightarrow> q \<in> dom t"
  by (drule (1) index_okD) (auto simp: entry_ok_def split: option.splits)

lemma up_extend:
  assumes "index_ok t" "h \<notin> dom t"
  shows "p \<in> dom t \<Longrightarrow> up (t(h \<mapsto> x)) p k = up t p k"
proof (induction k arbitrary: p)
  case (Suc k)
  then obtain b where b: "t p = Some b" by auto
  from assms Suc.prems have "(t(h \<mapsto> x)) p = t p" by auto
  with b Suc.IH parent_in_dom [OF assms(1) b] show ?case by (cases "pprev b") auto
qed simp

lemma height_extend: "h \<notin> dom t \<Longrightarrow> p \<in> dom t \<Longrightarrow> height (t(h \<mapsto> x)) p = height t p"
  by (auto simp: height_def)

lemma anc_extend: "index_ok t \<Longrightarrow> h \<notin> dom t \<Longrightarrow> p \<in> dom t \<Longrightarrow> anc (t(h \<mapsto> x)) p k = anc t p k"
  by (simp add: anc_def up_extend height_extend)

lemma entry_ok_extend:
  assumes "index_ok t" "h \<notin> dom t" "entry_ok t b"
  shows "entry_ok (t(h \<mapsto> x)) b"
proof (cases "pprev b")
  case (Some q)
  with assms(3) obtain c where "t q = Some c" by (auto simp: entry_ok_def split: option.splits)
  moreover have "q \<noteq> h" using assms(2) calculation by auto
  moreover have "anc (t(h \<mapsto> x)) q k = anc t q k" for k using anc_extend [OF assms(1,2)] calculation by auto
  ultimately show ?thesis using assms(3) Some by (auto simp: entry_ok_def)
qed (use assms in \<open>auto simp: entry_ok_def\<close>)

lemma index_ok_extend:
  assumes "index_ok t" "h \<notin> dom t" "entry_ok t b"
  shows "index_ok (t(h \<mapsto> b))"
  unfolding index_ok_def using assms entry_ok_extend [OF assms(1,2)] index_okD [OF assms(1)] by auto

lemma index_ok_empty [simp]: "index_ok Map.empty"
  by (simp add: index_ok_def)

lemma skip_in_dom:
  assumes "index_ok t" "t p = Some b" "pskip b = Some r"
  shows "r \<in> dom t"
proof -
  have "0 < nHeight b" using assms root_entry [OF assms(1,2)] entry_height [OF index_okD [OF assms(1,2)]] by force
  then show ?thesis using skip_entry [OF assms(1,2)] anc_defined [OF assms(1), of p] GetSkipHeight_bounds assms
    by (metis domI height_def less_imp_le option.inject option.sel)
qed

lemma ancestor_walk_extend:
  "index_ok t \<Longrightarrow> h \<notin> dom t \<Longrightarrow> p \<in> dom t \<Longrightarrow> ancestor_walk (t(h \<mapsto> x)) p hw k = ancestor_walk t p hw k"
proof (induction t p hw k rule: ancestor_walk.induct)
  case (1 t p hw k)
  from \<open>p \<in> dom t\<close> obtain b where b: "t p = Some b" by auto
  have eq: "(t(h \<mapsto> x)) p = Some b" using b 1 by auto
  have sk: "ancestor_walk (t(h \<mapsto> x)) (the (pskip b)) (GetSkipHeight hw) k = ancestor_walk t (the (pskip b)) (GetSkipHeight hw) k"
    if "0 \<le> k \<and> k < hw" "pskip b \<noteq> None \<and> (GetSkipHeight hw = k \<or>
      (GetSkipHeight hw > k \<and> \<not> (GetSkipHeight (hw - 1) < GetSkipHeight hw - 2 \<and> GetSkipHeight (hw - 1) \<ge> k)))"
    by (rule 1(1) [OF that(1) b refl refl that(2) 1(3,4)]) (use skip_in_dom [OF 1(3) b] that(2) in auto)
  have pp: "ancestor_walk (t(h \<mapsto> x)) q (hw - 1) k = ancestor_walk t q (hw - 1) k"
    if "0 \<le> k \<and> k < hw" "pprev b = Some q" "\<not> (pskip b \<noteq> None \<and> (GetSkipHeight hw = k \<or>
      (GetSkipHeight hw > k \<and> \<not> (GetSkipHeight (hw - 1) < GetSkipHeight hw - 2 \<and> GetSkipHeight (hw - 1) \<ge> k))))" for q
    by (rule 1(2) [OF that(1) b refl refl that(3,2) 1(3,4) parent_in_dom [OF 1(3) b that(2)]])
  show ?case
    unfolding ancestor_walk.simps [of "t(h \<mapsto> x)" p] ancestor_walk.simps [of t p] eq b option.case Let_def
    by (intro if_cong refl) (use sk pp in \<open>auto split: option.split\<close>)
qed

lemma GetAncestor_extend:
  assumes "index_ok t" "h \<notin> dom t" "p \<in> dom t"
  shows "GetAncestor (t(h \<mapsto> x)) p k = GetAncestor t p k"
proof -
  have "(t(h \<mapsto> x)) p = t p" using assms by auto
  then show ?thesis using ancestor_walk_extend [OF assms] by (simp add: GetAncestor_def split: option.split)
qed

text \<open>What an insertion stores, in closed form.\<close>

definition insert_entry :: "BlockMap \<Rightarrow> CBlockHeader \<Rightarrow> CBlockIndex" where
  "insert_entry t block =
     (let b = (CBlockIndex_of block)\<lparr>nStatus := BLOCK_VALID_TREE\<rparr>; w = proof_of (nBits block)
      in case t (hashPrevBlock block) of
           None \<Rightarrow> b\<lparr>nTimeMax := nTime block, nChainWork := uint_add (base_uint_of_u64 0) w\<rparr>
         | Some c \<Rightarrow> b\<lparr>pprev := Some (hashPrevBlock block), pskip := anc t (hashPrevBlock block) (GetSkipHeight (nHeight c + 1)),
              nHeight := nHeight c + 1, nTimeMax := max (nTimeMax c) (nTime block), nChainWork := uint_add (nChainWork c) w\<rparr>)"

lemma RaiseValidity_fresh: "nStatus b = 0 \<Longrightarrow> fst (RaiseValidity b BLOCK_VALID_TREE) = b\<lparr>nStatus := BLOCK_VALID_TREE\<rparr>"
  by (simp add: RaiseValidity_def BLOCK_VALID_TREE_def)

lemma GetAncestor_skip:
  assumes "index_ok t" "t q = Some c"
  shows "GetAncestor t q (GetSkipHeight (nHeight c + 1)) = anc t q (GetSkipHeight (nHeight c + 1))"
proof -
  have "0 < nHeight c + 1" using entry_height [OF index_okD [OF assms]] by simp
  then show ?thesis using GetAncestor_anc [OF assms(1) domI [of t, OF assms(2)]] GetSkipHeight_bounds [of "nHeight c + 1"] assms(2)
    by (simp add: height_def)
qed

lemma AddToBlockIndex_new:
  assumes "index_ok t" "BlockHash block \<notin> dom t" "hashPrevBlock block \<noteq> BlockHash block"
  shows "AddToBlockIndex t dirty block best = Some (BlockHash block, t(BlockHash block \<mapsto> insert_entry t block), insert (BlockHash block) dirty,
    (case best of None \<Rightarrow> Some (BlockHash block)
     | Some bh \<Rightarrow> if uint_gt (nChainWork (insert_entry t block)) (nChainWork (the (t bh))) then Some (BlockHash block) else best))"
proof -
  have n: "t (BlockHash block) = None" using assms(2) by auto
  have u: "(t(BlockHash block \<mapsto> y)) (hashPrevBlock block) = t (hashPrevBlock block)" for y
    using assms(3) by simp
  show ?thesis
  proof (cases "t (hashPrevBlock block)")
    case None
    then show ?thesis unfolding AddToBlockIndex_def Let_def n u
      by (cases best) (simp_all add: GetBitsProof_proof_of RaiseValidity_fresh insert_entry_def CBlockIndex_of_def)
  next
    case (Some c)
    then have "hashPrevBlock block \<in> dom t" by auto
    with Some GetAncestor_extend [OF assms(1,2) this] GetAncestor_skip [OF assms(1) Some] show ?thesis
      unfolding AddToBlockIndex_def Let_def n u
      by (cases best) (simp_all add: assms(3) GetBitsProof_proof_of RaiseValidity_fresh insert_entry_def CBlockIndex_of_def BuildSkip_def)
  qed
qed

lemma insert_entry_ok:
  assumes "index_ok t"
  shows "entry_ok t (insert_entry t block)"
proof (cases "t (hashPrevBlock block)")
  case (Some c)
  then show ?thesis using entry_height [OF index_okD [OF assms Some]]
    by (simp add: insert_entry_def entry_ok_def CBlockIndex_of_def Let_def)
qed (simp add: insert_entry_def entry_ok_def CBlockIndex_of_def Let_def)

lemma AddToBlockIndex_ok:
  assumes "index_ok t" "hashPrevBlock block \<noteq> BlockHash block"
  obtains t' dirty' best' where "AddToBlockIndex t dirty block best = Some (BlockHash block, t', dirty', best')" "index_ok t'"
    "\<forall>p\<in>dom t. t' p = t p" "dom t' = insert (BlockHash block) (dom t)"
proof (cases "BlockHash block \<in> dom t")
  case True
  then obtain b where "t (BlockHash block) = Some b" by auto
  then have "AddToBlockIndex t dirty block best = Some (BlockHash block, t, dirty, best)" by (simp add: AddToBlockIndex_def)
  then show ?thesis by (rule that) (use assms(1) True in \<open>simp_all add: insert_absorb\<close>)
next
  case False
  show ?thesis
    by (rule that [OF AddToBlockIndex_new [OF assms(1) False assms(2)] index_ok_extend [OF assms(1) False insert_entry_ok [OF assms(1)]]])
      (use False in \<open>simp_all only: fun_upd_apply dom_fun_upd\<close>, auto)
qed

text \<open>The work of a chain: the sum of the work of its blocks, as long as it stays below \<open>2\<^sup>2\<^sup>5\<^sup>6\<close>.\<close>

lemma length_nChainWork:
  assumes "index_ok t"
  shows "t p = Some b \<Longrightarrow> length (nChainWork b) = WIDTH"
proof (induction "nat (nHeight b)" arbitrary: p b rule: less_induct)
  case less
  note e = index_okD [OF assms less.prems]
  show ?case
  proof (cases "pprev b")
    case None
    then show ?thesis using e by (simp add: entry_ok_def)
  next
    case (Some q)
    then obtain c where c: "t q = Some c" "0 \<le> nHeight c" "nHeight b = nHeight c + 1" "nChainWork b = uint_add (nChainWork c) (proof_of (bi_nBits b))"
      using e by (auto simp: entry_ok_def split: option.splits)
    then have "length (nChainWork c) = WIDTH" using less.hyps [of c q] by simp
    then show ?thesis using c by simp
  qed
qed

section \<open>Last common ancestor\<close>

text \<open>The highest common ancestor of two blocks of one height, by walking both parents.\<close>

primrec common :: "BlockMap \<Rightarrow> nat \<Rightarrow> uint256 \<Rightarrow> uint256 \<Rightarrow> uint256 option" where
  "common t 0 pa pb = (if pa = pb then Some pa else None)"
| "common t (Suc n) pa pb =
     (if pa = pb then Some pa else common t n (the (anc t pa (int n))) (the (anc t pb (int n))))"

lemma common_same [simp]: "common t n p p = Some p"
  by (cases n) auto

lemma anc_step:
  assumes "index_ok t" "p \<in> dom t" "height t p = int (Suc n)"
  obtains q b where "t p = Some b" "pprev b = Some q" "anc t p (int n) = Some q" "q \<in> dom t" "height t q = int n"
proof -
  from assms(2) obtain b where b: "t p = Some b" by auto
  with assms(3) have "0 < nHeight b" by (simp add: height_def)
  with assms(1) b obtain q c where qc: "pprev b = Some q" "t q = Some c" "nHeight b = nHeight c + 1" by (rule parent_exists)
  have h: "height t q = int n" using assms(3) b qc by (simp add: height_def)
  have "anc t p (int n) = Some q" using anc_parent [OF assms(1) b qc(1), of "int n"] anc_self [of t q] h assms(3) b
    by (simp add: height_def)
  with b qc h that show ?thesis by blast
qed

text \<open>A jump to two different ancestors of one height does not pass the last common one.\<close>

lemma common_jump:
  assumes "index_ok t"
  shows "pa \<in> dom t \<Longrightarrow> pb \<in> dom t \<Longrightarrow> height t pa = int n \<Longrightarrow> height t pb = int n \<Longrightarrow> m \<le> n \<Longrightarrow>
    anc t pa (int m) = Some qa \<Longrightarrow> anc t pb (int m) = Some qb \<Longrightarrow> qa \<noteq> qb \<Longrightarrow> common t n pa pb = common t m qa qb"
proof (induction n arbitrary: pa pb)
  case 0
  then show ?case using anc_self [of t pa] anc_self [of t pb] by simp
next
  case (Suc n)
  show ?case
  proof (cases "m = Suc n")
    case True
    then show ?thesis using Suc.prems anc_self [of t pa] anc_self [of t pb] by simp
  next
    case False
    then have mn: "m \<le> n" using Suc.prems by simp
    obtain ra where ra: "anc t pa (int n) = Some ra" "ra \<in> dom t" "height t ra = int n"
      by (rule anc_step [OF assms Suc.prems(1,3)])
    obtain rb where rb: "anc t pb (int n) = Some rb" "rb \<in> dom t" "height t rb = int n"
      by (rule anc_step [OF assms Suc.prems(2,4)])
    have "anc t ra (int m) = Some qa" "anc t rb (int m) = Some qb"
      using anc_anc [OF assms Suc.prems(1) _ _ _ ra(1), of "int m"] anc_anc [OF assms Suc.prems(2) _ _ _ rb(1), of "int m"]
        Suc.prems mn by simp_all
    moreover have "pa \<noteq> pb" using Suc.prems by auto
    ultimately show ?thesis using Suc.IH [OF ra(2) rb(2) ra(3) rb(3) mn] Suc.prems ra rb by simp
  qed
qed

lemma skip_defined:
  assumes "index_ok t" "t p = Some b" "0 < nHeight b"
  obtains r where "pskip b = Some r" "r \<in> dom t" "height t r = GetSkipHeight (nHeight b)" "anc t p (GetSkipHeight (nHeight b)) = Some r"
proof -
  have "height t p = nHeight b" using assms(2) by (simp add: height_def)
  then obtain r where r: "anc t p (GetSkipHeight (nHeight b)) = Some r" "r \<in> dom t" "height t r = GetSkipHeight (nHeight b)"
    using anc_defined [OF assms(1) domI [of t, OF assms(2)], of "GetSkipHeight (nHeight b)"] GetSkipHeight_bounds [OF assms(3)] by auto
  with skip_entry [OF assms] have "pskip b = Some r" by simp
  from this r(2,3,1) show ?thesis by (rule that)
qed

text \<open>Both loops return, and keep the last common ancestor.\<close>

lemma lca_skip_correct:
  assumes "index_ok t"
  shows "pa \<in> dom t \<Longrightarrow> pb \<in> dom t \<Longrightarrow> height t pa = int n \<Longrightarrow> height t pb = int n \<Longrightarrow> pa \<noteq> pb \<Longrightarrow>
    \<exists>qa qb m. lca_skip t pa pb = Some (qa, qb) \<and> m \<le> n \<and> qa \<in> dom t \<and> qb \<in> dom t \<and> height t qa = int m \<and> height t qb = int m \<and>
      qa \<noteq> qb \<and> common t n pa pb = common t m qa qb"
proof (induction n arbitrary: pa pb rule: less_induct)
  case (less n)
  from less.prems obtain a b where ab: "t pa = Some a" "t pb = Some b" by auto
  with less.prems have h: "nHeight a = int n" "nHeight b = int n" by (auto simp: height_def)
  show ?case
  proof (cases "pskip a = pskip b")
    case True
    then have "lca_skip t pa pb = Some (pa, pb)" using ab by (simp add: lca_skip.simps)
    then show ?thesis using less.prems by blast
  next
    case False
    then have n: "0 < n" using root_entry [OF assms ab(1)] root_entry [OF assms ab(2)] h by (cases n) auto
    obtain ra where ra: "pskip a = Some ra" "ra \<in> dom t" "height t ra = GetSkipHeight (int n)" "anc t pa (GetSkipHeight (int n)) = Some ra"
      using skip_defined [OF assms ab(1)] h n by auto
    obtain rb where rb: "pskip b = Some rb" "rb \<in> dom t" "height t rb = GetSkipHeight (int n)" "anc t pb (GetSkipHeight (int n)) = Some rb"
      using skip_defined [OF assms ab(2)] h n by auto
    define m where "m = nat (GetSkipHeight (int n))"
    have m: "m < n" "GetSkipHeight (int n) = int m" using GetSkipHeight_bounds [of "int n"] n by (auto simp: m_def)
    have ne: "ra \<noteq> rb" using False ra rb by auto
    have c: "common t n pa pb = common t m ra rb"
      using common_jump [OF assms less.prems(1-4), of m ra rb] m ra rb ne by simp
    have s: "lca_skip t pa pb = lca_skip t ra rb" using ab ra rb ne by (subst lca_skip.simps) simp
    from less.IH [OF m(1) ra(2) rb(2)] ra rb m ne obtain qa qb k where
      "lca_skip t ra rb = Some (qa, qb)" "k \<le> m" "qa \<in> dom t" "qb \<in> dom t" "height t qa = int k" "height t qb = int k"
      "qa \<noteq> qb" "common t m ra rb = common t k qa qb" by auto
    with m c s show ?thesis by (intro exI [of _ qa] exI [of _ qb] exI [of _ k]) simp
  qed
qed

lemma lca_loop_correct:
  assumes "index_ok t"
  shows "pa \<in> dom t \<Longrightarrow> pb \<in> dom t \<Longrightarrow> height t pa = int n \<Longrightarrow> height t pb = int n \<Longrightarrow>
    lca_loop t (Some pa) (Some pb) = Some (common t n pa pb)"
proof (induction n arbitrary: pa pb rule: less_induct)
  case (less n)
  show ?case
  proof (cases "pa = pb")
    case True
    then show ?thesis by (simp add: lca_loop.simps)
  next
    case False
    from lca_skip_correct [OF assms less.prems False] obtain qa qb m where
      s: "lca_skip t pa pb = Some (qa, qb)" "m \<le> n" "qa \<in> dom t" "qb \<in> dom t" "height t qa = int m" "height t qb = int m"
      "qa \<noteq> qb" "common t n pa pb = common t m qa qb" by auto
    from s(3,4) obtain a b where ab: "t qa = Some a" "t qb = Some b" by auto
    have l: "lca_loop t (Some pa) (Some pb) = lca_loop t (pprev a) (pprev b)"
      using False s(1) ab by (subst lca_loop.simps) simp
    show ?thesis
    proof (cases m)
      case 0
      then have "pprev a = None" "pprev b = None" using root_entry [OF assms] ab s by (auto simp: height_def)
      then show ?thesis using l s 0 by (simp add: lca_loop.simps)
    next
      case (Suc k)
      obtain ra a' where ra: "t qa = Some a'" "pprev a' = Some ra" "anc t qa (int k) = Some ra" "ra \<in> dom t" "height t ra = int k"
        using anc_step [OF assms s(3)] s(5) Suc by metis
      obtain rb b' where rb: "t qb = Some b'" "pprev b' = Some rb" "anc t qb (int k) = Some rb" "rb \<in> dom t" "height t rb = int k"
        using anc_step [OF assms s(4)] s(6) Suc by metis
      show ?thesis using l less.IH [OF _ ra(4) rb(4) ra(5) rb(5)] s Suc ra rb ab by simp
    qed
  qed
qed

text \<open>What the walk of both parents finds.\<close>

lemma common_height:
  assumes "index_ok t"
  shows "pa \<in> dom t \<Longrightarrow> pb \<in> dom t \<Longrightarrow> height t pa = int n \<Longrightarrow> height t pb = int n \<Longrightarrow> common t n pa pb = Some x \<Longrightarrow>
    x \<in> dom t \<and> 0 \<le> height t x \<and> height t x \<le> int n \<and> anc t pa (height t x) = Some x \<and> anc t pb (height t x) = Some x"
proof (induction n arbitrary: pa pb)
  case 0
  then show ?case using anc_self [of t pa] by (auto split: if_splits)
next
  case (Suc n)
  obtain ra where ra: "anc t pa (int n) = Some ra" "ra \<in> dom t" "height t ra = int n"
    by (rule anc_step [OF assms Suc.prems(1,3)])
  obtain rb where rb: "anc t pb (int n) = Some rb" "rb \<in> dom t" "height t rb = int n"
    by (rule anc_step [OF assms Suc.prems(2,4)])
  show ?case
  proof (cases "pa = pb")
    case True
    then show ?thesis using Suc.prems anc_self [of t pa] by auto
  next
    case False
    then have c: "common t n ra rb = Some x" using ra rb Suc.prems by simp
    note IH = Suc.IH [OF ra(2) rb(2) ra(3) rb(3) c]
    then have "anc t pa (height t x) = anc t ra (height t x)" "anc t pb (height t x) = anc t rb (height t x)"
      using anc_anc [OF assms Suc.prems(1) _ _ _ ra(1), of "height t x"] anc_anc [OF assms Suc.prems(2) _ _ _ rb(1), of "height t x"] Suc.prems
      by simp_all
    then show ?thesis using IH by simp
  qed
qed

lemma common_spec:
  assumes "index_ok t"
  shows "pa \<in> dom t \<Longrightarrow> pb \<in> dom t \<Longrightarrow> height t pa = int n \<Longrightarrow> height t pb = int n \<Longrightarrow> 0 \<le> h \<Longrightarrow> h \<le> int n \<Longrightarrow>
    (anc t pa h = anc t pb h) = (\<exists>x. common t n pa pb = Some x \<and> h \<le> height t x)"
proof (induction n arbitrary: pa pb)
  case 0
  then show ?case using anc_self [of t pa] anc_self [of t pb] by auto
next
  case (Suc n)
  obtain ra where ra: "anc t pa (int n) = Some ra" "ra \<in> dom t" "height t ra = int n"
    by (rule anc_step [OF assms Suc.prems(1,3)])
  obtain rb where rb: "anc t pb (int n) = Some rb" "rb \<in> dom t" "height t rb = int n"
    by (rule anc_step [OF assms Suc.prems(2,4)])
  show ?case
  proof (cases "pa = pb")
    case True
    then show ?thesis using Suc.prems by auto
  next
    case False
    then have c: "common t (Suc n) pa pb = common t n ra rb" using ra rb by simp
    show ?thesis
    proof (cases "h \<le> int n")
      case True
      then have "anc t pa h = anc t ra h" "anc t pb h = anc t rb h"
        using anc_anc [OF assms Suc.prems(1) _ _ _ ra(1), of h] anc_anc [OF assms Suc.prems(2) _ _ _ rb(1), of h] Suc.prems by simp_all
      then show ?thesis using Suc.IH [OF ra(2) rb(2) ra(3) rb(3) Suc.prems(5) True] c by simp
    next
      case h: False
      then have "h = height t pa" "h = height t pb" using Suc.prems by auto
      then have "anc t pa h \<noteq> anc t pb h" using anc_self [of t pa] anc_self [of t pb] False by auto
      moreover have "height t x \<le> int n" if "common t n ra rb = Some x" for x
        using common_height [OF assms ra(2) rb(2) ra(3) rb(3) that] by simp
      ultimately show ?thesis using c h by fastforce
    qed
  qed
qed

lemma LastCommonAncestor_eq:
  assumes "index_ok t" "pa \<in> dom t" "pb \<in> dom t"
  defines "n \<equiv> nat (min (height t pa) (height t pb))"
  obtains qa qb where "anc t pa (int n) = Some qa" "anc t pb (int n) = Some qb" "qa \<in> dom t" "qb \<in> dom t"
    "height t qa = int n" "height t qb = int n" "LastCommonAncestor t pa pb = Some (common t n qa qb)"
proof -
  from assms(2,3) obtain a b where ab: "t pa = Some a" "t pb = Some b" by auto
  have h: "height t pa = nHeight a" "height t pb = nHeight b" using ab by (simp_all add: height_def)
  have n: "0 \<le> int n" "int n \<le> height t pa" "int n \<le> height t pb" "int n = min (nHeight a) (nHeight b)"
    using height_nonneg [OF assms(1,2)] height_nonneg [OF assms(1,3)] h by (auto simp: n_def)
  obtain qa where qa: "anc t pa (int n) = Some qa" "qa \<in> dom t" "height t qa = int n" by (rule anc_defined [OF assms(1,2) n(1,2)])
  obtain qb where qb: "anc t pb (int n) = Some qb" "qb \<in> dom t" "height t qb = int n" by (rule anc_defined [OF assms(1,3) n(1,3)])
  have "GetAncestor t pa (int n) = Some qa" "GetAncestor t pb (int n) = Some qb"
    using GetAncestor_anc [OF assms(1,2)] GetAncestor_anc [OF assms(1,3)] n qa qb by simp_all
  moreover have "int n = nHeight a \<Longrightarrow> qa = pa" "int n = nHeight b \<Longrightarrow> qb = pb"
    using anc_self [of t pa] anc_self [of t pb] qa qb h by simp_all
  ultimately have "LastCommonAncestor t pa pb = lca_loop t (Some qa) (Some qb)"
    using ab n by (auto simp: LastCommonAncestor_def min_def split: if_splits)
  with lca_loop_correct [OF assms(1) qa(2) qb(2) qa(3) qb(3)] qa qb that show ?thesis by simp
qed

section \<open>The active chain\<close>

text \<open>The vector of the active chain lists the ancestors of its tip by height.\<close>

definition path :: "BlockMap \<Rightarrow> uint256 \<Rightarrow> CChain" where
  "path t p = map (\<lambda>i. anc t p (int i)) [0..<nat (height t p) + 1]"

lemma length_path [simp]: "length (path t p) = nat (height t p) + 1"
  by (simp add: path_def)

lemma nth_path: "i \<le> nat (height t p) \<Longrightarrow> path t p ! i = anc t p (int i)"
  unfolding path_def by (subst nth_map) (simp_all del: upt_Suc)

text \<open>Below \<open>n\<close> an entry of the resized vector comes from the old chain, above it is a null pointer.\<close>

definition stale :: "BlockMap \<Rightarrow> uint256 \<Rightarrow> nat \<Rightarrow> CChain \<Rightarrow> nat \<Rightarrow> bool" where
  "stale t q n w i \<longleftrightarrow> (if i < n then int i \<le> height t q \<and> w ! i = anc t q (int i) else w ! i = None)"

lemma set_tip_loop_correct:
  assumes "index_ok t" "q \<in> dom t"
  shows "cur \<in> dom t \<Longrightarrow> height t cur = int k \<Longrightarrow> k < length w \<Longrightarrow> \<forall>i\<le>k. stale t q n w i \<Longrightarrow>
    \<exists>w'. set_tip_loop t w (Some cur) = Some w' \<and> length w' = length w \<and>
      (\<forall>i\<le>k. w' ! i = anc t cur (int i)) \<and> (\<forall>i. k < i \<longrightarrow> w' ! i = w ! i)"
proof (induction k arbitrary: cur w)
  case 0
  from 0 obtain b where b: "t cur = Some b" by auto
  then have "nHeight b = 0" using 0 by (simp add: height_def)
  then have "set_tip_loop t w (Some cur) = Some (if w ! 0 = Some cur then w else w[0 := Some cur])"
    using root_entry [OF assms(1) b] b by (simp add: set_tip_loop.simps)
  then show ?case using 0 anc_self [of t cur] by simp
next
  case (Suc k)
  obtain b r where b: "t cur = Some b" "pprev b = Some r" and r: "anc t cur (int k) = Some r" "r \<in> dom t" "height t r = int k"
    by (rule anc_step [OF assms(1) Suc.prems(1,2)])
  have h: "nat (nHeight b) = Suc k" using b Suc.prems by (simp add: height_def)
  have self: "anc t cur (int (Suc k)) = Some cur" using anc_self [of t cur] Suc.prems by simp
  show ?case
  proof (cases "w ! Suc k = Some cur")
    case True
    then have q: "Suc k < n" "int (Suc k) \<le> height t q" "anc t q (int (Suc k)) = Some cur"
      using Suc.prems(4) [rule_format, of "Suc k"] by (auto simp: stale_def split: if_splits)
    have "w ! i = anc t cur (int i)" if "i \<le> Suc k" for i
      using anc_anc [OF assms _ _ q(2) q(3), of "int i"] Suc.prems(4) [rule_format, OF that] that q(1) by (simp add: stale_def)
    then show ?thesis using True b h by (subst set_tip_loop.simps) simp
  next
    case False
    let ?w = "w[Suc k := Some cur]"
    have l: "set_tip_loop t w (Some cur) = set_tip_loop t ?w (Some r)" using False b h by (subst set_tip_loop.simps) simp
    have "\<forall>i\<le>k. stale t q n ?w i" using Suc.prems(4) by (auto simp: stale_def)
    with Suc.IH [OF r(2,3), of ?w] Suc.prems obtain w' where w': "set_tip_loop t ?w (Some r) = Some w'" "length w' = length w"
      "\<forall>i\<le>k. w' ! i = anc t r (int i)" "\<forall>i. k < i \<longrightarrow> w' ! i = ?w ! i" by auto
    have "w' ! i = anc t cur (int i)" if "i \<le> Suc k" for i
      using w' that self anc_anc [OF assms(1) Suc.prems(1) _ _ _ r(1), of "int i"] Suc.prems(2,3) by (cases "i = Suc k") simp_all
    then show ?thesis using l w' by simp
  qed
qed

lemma SetTip_path:
  assumes "index_ok t" "p \<in> dom t" "v = [] \<or> (\<exists>q\<in>dom t. v = path t q)"
  shows "CChain_SetTip t v p = Some (path t p)"
proof -
  from assms(2) obtain b where b: "t p = Some b" by auto
  define k where "k = nat (height t p)"
  have k: "height t p = int k" "nat (nHeight b + 1) = Suc k"
    using height_nonneg [OF assms(1,2)] b by (auto simp: k_def height_def)
  let ?w = "take (Suc k) v @ replicate (Suc k - length v) None"
  obtain q where q: "q \<in> dom t" "v = [] \<or> v = path t q" using assms by blast
  have "stale t q (length v) ?w i" if "i \<le> k" for i
    using q(2) that height_nonneg [OF assms(1) q(1)] nth_path [of i t q] by (auto simp: stale_def nth_append)
  moreover have len: "length ?w = Suc k" by simp
  ultimately obtain w' where w':
    "set_tip_loop t ?w (Some p) = Some w'" "length w' = Suc k" "\<forall>i\<le>k. w' ! i = anc t p (int i)"
    using set_tip_loop_correct [OF assms(1) q(1) assms(2) k(1), of ?w "length v"] by (metis lessI)
  have "w' = path t p" by (rule nth_equalityI) (simp_all add: w' k(1) nth_path)
  then show ?thesis using w' b k by (simp add: CChain_SetTip_def)
qed

lemma CChain_at_path:
  "0 \<le> height t p \<Longrightarrow> CChain_at (path t p) h = (if 0 \<le> h \<and> h \<le> height t p then anc t p h else None)"
  by (auto simp: CChain_at_def nth_path)

lemma Contains_path:
  assumes "index_ok t" "p \<in> dom t" "q \<in> dom t"
  shows "CChain_Contains t (path t p) q \<longleftrightarrow> height t q \<le> height t p \<and> anc t p (height t q) = Some q"
  using CChain_at_path [OF height_nonneg [OF assms(1,2)]] height_nonneg [OF assms(1,3)]
  by (auto simp: CChain_Contains_def height_def)

lemma Next_path:
  assumes "index_ok t" "p \<in> dom t" "q \<in> dom t" "CChain_Next t (path t p) q = Some r"
  shows "r \<in> dom t \<and> pprev (the (t r)) = Some q"
proof -
  have c: "height t q \<le> height t p" "anc t p (height t q) = Some q" and n: "height t q + 1 \<le> height t p" "anc t p (height t q + 1) = Some r"
    using assms Contains_path [OF assms(1-3)] CChain_at_path [OF height_nonneg [OF assms(1,2)], of "height t q + 1"]
    by (auto simp: CChain_Next_def height_def split: if_splits)
  have q0: "0 \<le> height t q" by (rule height_nonneg [OF assms(1,3)])
  have r: "r \<in> dom t" "height t r = height t q + 1" using anc_defined [OF assms(1,2), of "height t q + 1"] n q0 by auto
  have "height t r = int (Suc (nat (height t q)))" using r q0 by simp
  with assms(1) r(1) obtain s' b where "t r = Some b" "pprev b = Some s'" "anc t r (int (nat (height t q))) = Some s'"
    by (rule anc_step)
  with q0 have "t r = Some b" "pprev b = Some s'" "anc t r (height t q) = Some s'" by simp_all
  with anc_anc [OF assms(1,2) q0 _ n(1) n(2)] c show ?thesis using r by simp
qed

lemma find_fork_loop_common:
  assumes "index_ok t" "p \<in> dom t"
  shows "q \<in> dom t \<Longrightarrow> height t q = int n \<Longrightarrow> int n \<le> height t p \<Longrightarrow> anc t p (int n) = Some r \<Longrightarrow>
    find_fork_loop t (path t p) (Some q) = Some (common t n r q)"
proof (induction n arbitrary: q r)
  case 0
  from 0 obtain b where b: "t q = Some b" by auto
  have "pprev b = None" using root_entry [OF assms(1) b] 0 b by (simp add: height_def)
  then show ?case using 0 b Contains_path [OF assms 0(1)] by (auto simp: find_fork_loop.simps)
next
  case (Suc n)
  obtain b q' where b: "t q = Some b" "pprev b = Some q'" and q': "anc t q (int n) = Some q'" "q' \<in> dom t" "height t q' = int n"
    by (rule anc_step [OF assms(1) Suc.prems(1,2)])
  have r: "r \<in> dom t" "height t r = int (Suc n)" using anc_defined [OF assms, of "int (Suc n)"] Suc.prems by auto
  obtain r' where r': "anc t r (int n) = Some r'" by (rule anc_step [OF assms(1) r])
  have "anc t p (int n) = Some r'" using anc_anc [OF assms _ _ _ Suc.prems(4), of "int n"] Suc.prems r' by simp
  then have IH: "find_fork_loop t (path t p) (Some q') = Some (common t n r' q')" using Suc q' by simp
  show ?case
  proof (cases "r = q")
    case True
    then have "CChain_Contains t (path t p) q" using Contains_path [OF assms Suc.prems(1)] Suc.prems by simp
    then show ?thesis using True by (subst find_fork_loop.simps) simp
  next
    case False
    then have "\<not> CChain_Contains t (path t p) q" using Contains_path [OF assms Suc.prems(1)] Suc.prems by simp
    then show ?thesis using False IH b r' q' by (subst find_fork_loop.simps) simp
  qed
qed

lemma FindFork_LastCommonAncestor:
  assumes "index_ok t" "p \<in> dom t" "q \<in> dom t"
  shows "CChain_FindFork t (path t p) (Some q) = LastCommonAncestor t p q"
proof -
  define n where "n = nat (min (height t p) (height t q))"
  have pos: "0 \<le> height t p" "0 \<le> height t q" using height_nonneg assms by auto
  obtain qa qb where q: "anc t p (int n) = Some qa" "anc t q (int n) = Some qb" "qa \<in> dom t" "qb \<in> dom t"
    "height t qa = int n" "height t qb = int n" "LastCommonAncestor t p q = Some (common t n qa qb)"
    unfolding n_def by (rule LastCommonAncestor_eq [OF assms])
  have H: "CChain_Height (path t p) = height t p" using pos by (simp add: CChain_Height_def)
  from assms(3) obtain b where b: "t q = Some b" by auto
  then have hb: "nHeight b = height t q" by (simp add: height_def)
  have "CChain_FindFork t (path t p) (Some q) = find_fork_loop t (path t p) (Some qb)"
  proof (cases "height t q > height t p")
    case True
    then have "int n = height t p" using pos by (simp add: n_def)
    then show ?thesis using GetAncestor_anc [OF assms(1,3)] True pos b hb H q(2) by (simp add: CChain_FindFork_def)
  next
    case False
    then have "int n = height t q" using pos by (simp add: n_def)
    then have "qb = q" using q(2) anc_self [of t q] by simp
    then show ?thesis using False b hb H by (simp add: CChain_FindFork_def)
  qed
  also have "\<dots> = Some (common t n qa qb)"
    by (rule find_fork_loop_common [OF assms(1,2) q(4,6) _ q(1)]) (use pos in \<open>simp add: n_def\<close>)
  finally show ?thesis using q(7) by simp
qed

section \<open>Block locators\<close>

lemma locator_loop_correct:
  assumes "index_ok t"
  shows "p \<in> dom t \<Longrightarrow> 1 \<le> step \<Longrightarrow> height t p = int n \<Longrightarrow>
    \<exists>ls. locator_loop t step hashes (Some p) = Some (hashes @ p # ls) \<and> set (p # ls) \<subseteq> dom t \<and>
      (\<forall>q\<in>set ls. anc t p (height t q) = Some q \<and> 0 \<le> height t q \<and> height t q < int n) \<and>
      sorted_wrt (\<lambda>x y. height t x > height t y) (p # ls) \<and> height t (last (p # ls)) = 0"
proof (induction n arbitrary: p step hashes rule: less_induct)
  case (less n)
  from less.prems obtain b where b: "t p = Some b" by auto
  then have hb: "nHeight b = int n" using less.prems by (simp add: height_def)
  show ?case
  proof (cases "n = 0")
    case True
    then have "locator_loop t step hashes (Some p) = Some (hashes @ p # [])" using b hb by (subst locator_loop.simps) simp
    then show ?thesis using True less.prems by (intro exI [of _ "[]"]) auto
  next
    case False
    define m where "m = nat (max (int n - step) 0)"
    have m: "m < n" "max (int n - step) 0 = int m" using False less.prems by (auto simp: m_def)
    obtain q where q: "anc t p (int m) = Some q" "q \<in> dom t" "height t q = int m"
      using anc_defined [OF assms less.prems(1), of "int m"] less.prems m by auto
    let ?st = "locator_step (hashes @ [p]) step"
    have st: "1 \<le> ?st" using less.prems by (simp add: locator_step_def)
    have l: "locator_loop t step hashes (Some p) = locator_loop t ?st (hashes @ [p]) (Some q)"
      using b hb False GetAncestor_anc [OF assms less.prems(1), of "int m"] m q less.prems
      by (subst locator_loop.simps) simp
    from less.IH [OF m(1) q(2) st q(3), of "hashes @ [p]"] obtain ls where ls:
      "locator_loop t ?st (hashes @ [p]) (Some q) = Some (hashes @ p # q # ls)" "set (q # ls) \<subseteq> dom t"
      "\<forall>x\<in>set ls. anc t q (height t x) = Some x \<and> 0 \<le> height t x \<and> height t x < int m"
      "sorted_wrt (\<lambda>x y. height t x > height t y) (q # ls)" "height t (last (q # ls)) = 0" by auto
    have "anc t p (height t x) = Some x \<and> 0 \<le> height t x \<and> height t x < int n" if "x \<in> set (q # ls)" for x
      using that ls(3) q m anc_anc [OF assms less.prems(1) _ _ _ q(1), of "height t x"] less.prems(3) by fastforce
    then have a: "\<forall>x\<in>set (q # ls). anc t p (height t x) = Some x \<and> 0 \<le> height t x \<and> height t x < int n" by blast
    then have "sorted_wrt (\<lambda>x y. height t x > height t y) (p # q # ls)" using ls(4) less.prems(3) by simp
    then show ?thesis using l ls less.prems a by (intro exI [of _ "q # ls"]) simp
  qed
qed

section \<open>Median time past\<close>

lemma median_ge_iff:
  fixes ts :: "int list"
  assumes "i < length ts"
  shows "m \<le> sort ts ! i \<longleftrightarrow> length (filter (\<lambda>x. x < m) ts) \<le> i"
proof -
  have gen: "sorted xs \<Longrightarrow> i < length xs \<Longrightarrow> m \<le> xs ! i \<longleftrightarrow> length (filter (\<lambda>x. x < m) xs) \<le> i" for xs :: "int list" and i
  proof (induction xs arbitrary: i)
    case (Cons x xs)
    show ?case
    proof (cases "x < m")
      case True
      then show ?thesis using Cons by (cases i) auto
    next
      case False
      then have "filter (\<lambda>x. x < m) xs = []" using Cons.prems by (auto simp: filter_empty_conv)
      moreover have "m \<le> (x # xs) ! i" using False sorted_nth_mono [of "x # xs" 0 i] Cons.prems by simp
      ultimately show ?thesis using False by simp
    qed
  qed simp
  have "length (filter (\<lambda>x. x < m) (sort ts)) = length (filter (\<lambda>x. x < m) ts)"
    by (simp add: filter_sort)
  with gen [of "sort ts" i] assms show ?thesis by simp
qed

lemma length_filter_butlast: "length (filter P (butlast xs)) \<le> length (filter P xs)"
  by (cases xs rule: rev_cases) auto

text \<open>A window that gains a new largest-half element and loses any other one has no smaller median.\<close>

lemma median_advance:
  fixes ts :: "int list"
  assumes "ts \<noteq> []" "sort ts ! (length ts div 2) < x" "ts' = x # ts \<or> ts' = x # butlast ts"
  shows "sort ts ! (length ts div 2) \<le> sort ts' ! (length ts' div 2)"
proof -
  let ?m = "sort ts ! (length ts div 2)"
  have "length ts div 2 < length ts" using assms(1) by (cases ts) auto
  then have le: "length (filter (\<lambda>y. y < ?m) ts) \<le> length ts div 2" using median_ge_iff by blast
  have "length (filter (\<lambda>y. y < ?m) ts') \<le> length (filter (\<lambda>y. y < ?m) ts)"
    using assms(2,3) length_filter_butlast [of _ ts] by auto
  also note le
  also have "length ts div 2 \<le> length ts' div 2" using assms by (auto intro: div_le_mono)
  finally show ?thesis using assms(3) by (subst median_ge_iff) auto
qed

lemma recent_times_take: "n \<le> m \<Longrightarrow> recent_times t n p = take n (recent_times t m p)"
proof (induction m arbitrary: n p)
  case (Suc m)
  show ?case
  proof (cases n)
    case (Suc k)
    then have IH: "recent_times t k r = take k (recent_times t m r)" for r using Suc.IH [of k r] Suc.prems by simp
    show ?thesis unfolding Suc by (simp add: IH split: option.split)
  qed simp
qed simp

lemma length_recent_times: "length (recent_times t n p) \<le> n"
proof (induction n arbitrary: p)
  case (Suc n)
  show ?case using Suc.IH by (simp split: option.split)
qed simp

lemma MedianTimePast_advance:
  assumes "t p = Some b" "pprev b = Some q" "t q = Some c" "GetMedianTimePast t q < GetBlockTime b"
  shows "GetMedianTimePast t q \<le> GetMedianTimePast t p"
proof -
  let ?ts = "recent_times t 11 (Some q)"
  have p: "recent_times t 11 (Some p) = GetBlockTime b # recent_times t 10 (Some q)"
    using assms by (simp add: numeral_eq_Suc)
  have q: "?ts = GetBlockTime c # recent_times t 10 (pprev c)" using assms(3) by (simp add: numeral_eq_Suc)
  have "recent_times t 10 (Some q) = take 10 ?ts" by (rule recent_times_take) simp
  moreover have "length ?ts \<le> 11" by (rule length_recent_times)
  ultimately have "recent_times t 10 (Some q) = ?ts \<or> recent_times t 10 (Some q) = butlast ?ts"
    by (cases "length ?ts = 11") (auto simp: butlast_conv_take)
  with median_advance [of ?ts "GetBlockTime b" "recent_times t 11 (Some p)"] assms(4) p q show ?thesis
    by (auto simp: GetMedianTimePast_def nMedianTimeSpan_def Let_def)
qed

section \<open>Indexes built from headers\<close>

inductive header_index :: "BlockMap \<Rightarrow> bool" where
  empty: "header_index Map.empty"
| add: "header_index t \<Longrightarrow> hashPrevBlock block \<noteq> BlockHash block \<Longrightarrow>
    AddToBlockIndex t dirty block best = Some (h, t', dirty', best') \<Longrightarrow> header_index t'"

lemma header_index_index_ok: "header_index t \<Longrightarrow> index_ok t"
proof (induction rule: header_index.induct)
  case (add t block dirty best h t' dirty' best')
  show ?case by (rule AddToBlockIndex_ok [OF add.IH add.hyps(2), of dirty best]) (use add.hyps(3) in simp)
qed simp

lemma length_BlockHash [simp]: "length (BlockHash b) = 32"
  by (simp add: BlockHash_def)

text \<open>A small index for the examples: a root with two children, and a grandchild.\<close>

definition example_header :: "uint256 \<Rightarrow> u32 \<Rightarrow> CBlockHeader" where
  "example_header prev time = \<lparr>nVersion = 4, hashPrevBlock = prev, hashMerkleRoot = uint256_zero, nTime = time, nBits = 0x1d00ffff, nNonce = 0\<rparr>"

definition example_add :: "uint256 \<Rightarrow> uint256 \<Rightarrow> u32 \<Rightarrow> BlockMap \<Rightarrow> BlockMap" where
  "example_add h prev time t = t(h \<mapsto> insert_entry t (example_header prev time))"

definition example_index :: BlockMap where
  "example_index = example_add [4] [2] 130 (example_add [3] [1] 120 (example_add [2] [1] 110 (example_add [1] [] 100 Map.empty)))"

lemma example_add_ok: "index_ok t \<Longrightarrow> h \<notin> dom t \<Longrightarrow> index_ok (example_add h prev time t)"
  unfolding example_add_def by (rule index_ok_extend [OF _ _ insert_entry_ok])

lemma dom_example_add [simp]: "dom (example_add h prev time t) = insert h (dom t)"
  by (simp add: example_add_def)

lemma example_index_ok: "index_ok example_index" "dom example_index = {[1], [2], [3], [4]}"
  unfolding example_index_def by (intro example_add_ok index_ok_empty; simp) auto

lemmas example_simps = example_index_def example_add_def insert_entry_def example_header_def CBlockIndex_of_def Let_def

lemma example_heights:
  "height example_index [1] = 0" "height example_index [2] = 1" "height example_index [3] = 1" "height example_index [4] = 2"
  by (simp_all add: height_def example_simps)

lemma example_grandparent: "up example_index [4] 2 = Some [1]"
  by (simp add: example_simps numeral_2_eq_2)

lemma recent_times_numeral:
  "recent_times t (numeral k) (Some q) = (case t q of None \<Rightarrow> [] | Some b \<Rightarrow> GetBlockTime b # recent_times t (pred_numeral k) (pprev b))"
  "recent_times t n None = []"
  by (simp add: numeral_eq_Suc) (cases n; simp)

text \<open>C16. Every block index that the node builds by inserting headers, in any order, is well formed, and the next insertion
  of a header that does not name itself as its parent succeeds: each entry with a parent is one higher than it, has the skip pointer to its ancestor at the skip height, the
  maximum of the times so far and the parent's chain work plus its own, and old entries are not touched.\<close>

theorem header_index_invariant:
  assumes "header_index t" "hashPrevBlock block \<noteq> BlockHash block"
  shows "index_ok t \<and> (\<exists>t' dirty' best'. AddToBlockIndex t dirty block best = Some (BlockHash block, t', dirty', best') \<and>
    index_ok t' \<and> dom t' = insert (BlockHash block) (dom t) \<and> (\<forall>p\<in>dom t. t' p = t p))"
  using header_index_index_ok [OF assms(1)] AddToBlockIndex_ok [OF header_index_index_ok [OF assms(1)] assms(2), of dirty best]
  by metis

theorem header_index_invariant_witness:
  "index_ok Map.empty \<and> (\<exists>t' dirty' best'.
     AddToBlockIndex Map.empty {} (example_header [] 5) None = Some (BlockHash (example_header [] 5), t', dirty', best') \<and>
     index_ok t' \<and> dom t' = {BlockHash (example_header [] 5)})"
proof -
  have "hashPrevBlock (example_header [] 5) \<noteq> BlockHash (example_header [] 5)"
  proof
    assume "hashPrevBlock (example_header [] 5) = BlockHash (example_header [] 5)"
    then have "length (hashPrevBlock (example_header [] 5)) = 32" by (metis length_BlockHash)
    then show False by (simp add: example_header_def)
  qed
  from header_index_invariant [OF header_index.empty this, of "{}" None] show ?thesis by auto
qed

text \<open>C17. The search along skip pointers is equivalent to walking the parents one by one: in a well-formed index
  \<^verbatim>\<open>GetAncestor\<close> returns the ancestor of the height asked for, and null exactly for a height outside the chain.\<close>

theorem GetAncestor_follows_parents:
  assumes "index_ok t" "t p = Some b"
  shows "GetAncestor t p h = (if 0 \<le> h \<and> h \<le> nHeight b then up t p (nat (nHeight b - h)) else None) \<and>
    (0 \<le> h \<and> h \<le> nHeight b \<longrightarrow> (\<exists>q c. GetAncestor t p h = Some q \<and> t q = Some c \<and> nHeight c = h))"
proof -
  have d: "p \<in> dom t" "height t p = nHeight b" using assms(2) by (auto simp: height_def)
  then have e: "GetAncestor t p h = (if 0 \<le> h \<and> h \<le> nHeight b then up t p (nat (nHeight b - h)) else None)"
    using GetAncestor_anc [OF assms(1)] by (simp add: anc_def)
  then show ?thesis using up_defined [OF assms, of "nat (nHeight b - h)"] by auto
qed

theorem GetAncestor_follows_parents_witness:
  "GetAncestor example_index [4] 0 = Some [1] \<and> GetAncestor example_index [4] 3 = None"
proof -
  obtain b where b: "example_index [4] = Some b" using example_index_ok(2) by blast
  then have h: "nHeight b = 2" using example_heights(4) by (simp add: height_def)
  show ?thesis
    using GetAncestor_follows_parents [OF example_index_ok(1) b, of 0] GetAncestor_follows_parents [OF example_index_ok(1) b, of 3]
      h example_grandparent by simp
qed

text \<open>C18. \<^verbatim>\<open>LastCommonAncestor\<close> returns, and its result is the highest block that both arguments descend from: the two
  chains agree at exactly the heights up to it, or nowhere when the result is null.\<close>

theorem LastCommonAncestor_correct:
  assumes "index_ok t" "pa \<in> dom t" "pb \<in> dom t"
  shows "\<exists>r. LastCommonAncestor t pa pb = Some r \<and>
    (\<forall>x. r = Some x \<longrightarrow> GetAncestor t pa (height t x) = Some x \<and> GetAncestor t pb (height t x) = Some x) \<and>
    (\<forall>h. 0 \<le> h \<and> h \<le> min (height t pa) (height t pb) \<longrightarrow>
      (GetAncestor t pa h = GetAncestor t pb h) = (\<exists>x. r = Some x \<and> h \<le> height t x))"
proof -
  define n where "n = nat (min (height t pa) (height t pb))"
  obtain qa qb where q: "anc t pa (int n) = Some qa" "anc t pb (int n) = Some qb" "qa \<in> dom t" "qb \<in> dom t"
    "height t qa = int n" "height t qb = int n" "LastCommonAncestor t pa pb = Some (common t n qa qb)"
    unfolding n_def by (rule LastCommonAncestor_eq [OF assms])
  have n: "int n = min (height t pa) (height t pb)" using height_nonneg [OF assms(1)] assms(2,3) by (simp add: n_def)
  have ga: "GetAncestor t pa h = anc t qa h" "GetAncestor t pb h = anc t qb h" if "0 \<le> h" "h \<le> int n" for h
    using anc_anc [OF assms(1,2) that(1,2) _ q(1)] anc_anc [OF assms(1,3) that(1,2) _ q(2)]
      GetAncestor_anc [OF assms(1,2), of h] GetAncestor_anc [OF assms(1,3), of h] that n by simp_all
  show ?thesis
  proof (intro exI conjI allI impI)
    fix x assume "common t n qa qb = Some x"
    from common_height [OF assms(1) q(3-6) this] ga show "GetAncestor t pa (height t x) = Some x" "GetAncestor t pb (height t x) = Some x"
      by simp_all
  next
    fix h assume "0 \<le> h \<and> h \<le> min (height t pa) (height t pb)"
    then show "(GetAncestor t pa h = GetAncestor t pb h) = (\<exists>x. common t n qa qb = Some x \<and> h \<le> height t x)"
      using common_spec [OF assms(1) q(3-6), of h] ga n by simp
  qed (rule q)
qed

theorem LastCommonAncestor_correct_witness:
  "\<exists>r. LastCommonAncestor example_index [4] [3] = Some r \<and>
    (\<forall>x. r = Some x \<longrightarrow> GetAncestor example_index [4] (height example_index x) = Some x \<and>
       GetAncestor example_index [3] (height example_index x) = Some x) \<and>
    (\<forall>h. 0 \<le> h \<and> h \<le> min (height example_index [4]) (height example_index [3]) \<longrightarrow>
      (GetAncestor example_index [4] h = GetAncestor example_index [3] h) = (\<exists>x. r = Some x \<and> h \<le> height example_index x))"
  by (rule LastCommonAncestor_correct [OF example_index_ok(1)]) (simp_all add: example_index_ok)

text \<open>C19. Setting the tip of the active chain always returns, and whatever chain was active before, the vector then lists
  exactly the ancestors of the new tip; on it \<^verbatim>\<open>FindFork\<close> is the last common ancestor with the tip.\<close>

theorem SetTip_FindFork:
  assumes "index_ok t" "p \<in> dom t" "q \<in> dom t" "v = [] \<or> CChain_SetTip t [] r = Some v \<and> r \<in> dom t"
  shows "CChain_SetTip t v p = Some (path t p) \<and>
    CChain_FindFork t (path t p) (Some q) = LastCommonAncestor t p q \<and>
    (CChain_Contains t (path t p) q \<longleftrightarrow> GetAncestor t p (height t q) = Some q) \<and>
    CChain_Tip (path t p) = Some p"
proof (intro conjI)
  have "v = [] \<or> (\<exists>q\<in>dom t. v = path t q)" using assms(4) SetTip_path [OF assms(1), of r "[]"] by force
  then show "CChain_SetTip t v p = Some (path t p)" by (rule SetTip_path [OF assms(1,2)])
  show "CChain_FindFork t (path t p) (Some q) = LastCommonAncestor t p q" by (rule FindFork_LastCommonAncestor [OF assms(1-3)])
  show "CChain_Contains t (path t p) q \<longleftrightarrow> GetAncestor t p (height t q) = Some q"
    using Contains_path [OF assms(1-3)] GetAncestor_anc [OF assms(1,2)] height_nonneg [OF assms(1,3)] by auto
  show "CChain_Tip (path t p) = Some p"
    using nth_path [of "nat (height t p)" t p] height_nonneg [OF assms(1,2)] anc_self [of t p] by (simp add: CChain_Tip_def)
qed

theorem SetTip_FindFork_witness:
  "CChain_SetTip example_index [] [4] = Some (path example_index [4]) \<and>
   CChain_FindFork example_index (path example_index [4]) (Some [3]) = LastCommonAncestor example_index [4] [3]"
  using SetTip_FindFork [OF example_index_ok(1), of "[4]" "[3]" "[]" "[]"] by (simp add: example_index_ok)

text \<open>C20. Building a block locator terminates from every block: the locator starts with the block, lists ancestors of it at
  strictly falling heights and ends with a root of the index.\<close>

theorem LocatorEntries_terminates:
  assumes "index_ok t" "p \<in> dom t"
  shows "\<exists>ls. LocatorEntries t (Some p) = Some (p # ls) \<and> (\<forall>q\<in>set ls. GetAncestor t p (height t q) = Some q) \<and>
    sorted_wrt (\<lambda>x y. height t x > height t y) (p # ls) \<and> height t (last (p # ls)) = 0"
proof -
  have h: "0 \<le> height t p" by (rule height_nonneg [OF assms])
  then obtain ls where ls: "locator_loop t 1 [] (Some p) = Some ([] @ p # ls)"
    "\<forall>q\<in>set ls. anc t p (height t q) = Some q \<and> 0 \<le> height t q \<and> height t q < int (nat (height t p))"
    "sorted_wrt (\<lambda>x y. height t x > height t y) (p # ls)" "height t (last (p # ls)) = 0"
    using locator_loop_correct [OF assms, of 1 "nat (height t p)" "[]"] by auto
  have "\<forall>q\<in>set ls. GetAncestor t p (height t q) = Some q" using ls(2) GetAncestor_anc [OF assms] h by auto
  with ls show ?thesis by (simp add: LocatorEntries_def)
qed

theorem LocatorEntries_terminates_witness:
  "\<exists>ls. LocatorEntries example_index (Some [4]) = Some ([4] # ls) \<and>
    (\<forall>q\<in>set ls. GetAncestor example_index [4] (height example_index q) = Some q) \<and>
    sorted_wrt (\<lambda>x y. height example_index x > height example_index y) ([4] # ls) \<and> height example_index (last ([4] # ls)) = 0"
  by (rule LocatorEntries_terminates [OF example_index_ok(1)]) (simp add: example_index_ok)

text \<open>C21. The work of a block is total on every \<^verbatim>\<open>nBits\<close> value and exact: zero for an encoding that is negative,
  overflows or is zero, and otherwise \<open>2\<^sup>2\<^sup>5\<^sup>6\<close> divided by target plus one, although the code never leaves 256 bits.\<close>

theorem GetBitsProof_exact:
  "\<exists>w. GetBitsProof bits = Some w \<and> length w = WIDTH \<and>
    uval w = (case SetCompact bits of (v, negative, overflow) \<Rightarrow>
      if negative \<or> overflow \<or> uval v = 0 then 0 else 2 ^ 256 div (uval v + 1))"
  by (rule GetBitsProof_work [of bits]) blast

text \<open>C22. Median time past never runs backwards: a block later than the median of its parent, which is what header
  validation demands, has a median at least that of its parent.\<close>

theorem MedianTimePast_monotone:
  assumes "t p = Some b" "pprev b = Some q" "t q = Some c" "GetMedianTimePast t q < GetBlockTime b"
  shows "GetMedianTimePast t q \<le> GetMedianTimePast t p"
  by (rule MedianTimePast_advance [OF assms])

theorem MedianTimePast_monotone_witness:
  "GetMedianTimePast example_index [2] < GetBlockTime (the (example_index [4])) \<and>
   GetMedianTimePast example_index [2] \<le> GetMedianTimePast example_index [4]"
proof -
  have "recent_times example_index 11 (Some [2]) = [110, 100]" by (simp add: recent_times_numeral GetBlockTime_def example_simps)
  then have lt: "GetMedianTimePast example_index [2] < GetBlockTime (the (example_index [4]))"
    by (simp add: GetMedianTimePast_def nMedianTimeSpan_def) (simp add: GetBlockTime_def example_simps)
  obtain b where "example_index [4] = Some b" using example_index_ok(2) by blast
  moreover obtain c where "example_index [2] = Some c" using example_index_ok(2) by blast
  moreover have "pprev (the (example_index [4])) = Some [2]" by (simp add: example_simps)
  ultimately show ?thesis using MedianTimePast_monotone [of example_index "[4]" b "[2]" c] lt by simp
qed

end
