(* ===== verification/Metal_Dag.thy ===== *)
theory Metal_Dag
  imports Params Transaction "HOL-Library.Product_Lexorder" "HOL-Library.Multiset"
begin

unbundle bit_operations_syntax

text \<open>
  \<^verbatim>\<open>metaldag/metaldag.cpp\<close>: the memory-hard proof-of-work hash.  Keccak, the derivation of the
  verification cache and of dataset items, the light hash, the sizing of an epoch, the resident
  caches and the budget for building cold ones.  64-bit sizes and counters are natural numbers;
  where a wrap is possible it is written out.  The lemmas show that the resident caches are
  invisible in the hash, that at most six of them stay, that the sizes are prime multiples, that every
  index the hash forms lies inside the cache and the dataset, and that the budget spaces its grants.
\<close>

section \<open>Keccak\<close>

definition KECCAK_RC :: "u64 list" where
  "KECCAK_RC =
    [0x0000000000000001, 0x0000000000008082, 0x800000000000808a, 0x8000000080008000,
     0x000000000000808b, 0x0000000080000001, 0x8000000080008081, 0x8000000000008009,
     0x000000000000008a, 0x0000000000000088, 0x0000000080008009, 0x000000008000000a,
     0x000000008000808b, 0x800000000000008b, 0x8000000000008089, 0x8000000000008003,
     0x8000000000008002, 0x8000000000000080, 0x000000000000800a, 0x800000008000000a,
     0x8000000080008081, 0x8000000000008080, 0x0000000080000001, 0x8000000080008008]"

definition KECCAK_ROT :: "nat list" where
  "KECCAK_ROT = [1, 3, 6, 10, 15, 21, 28, 36, 45, 55, 2, 14, 27, 41, 56, 8, 25, 43, 62, 18, 39, 61, 20, 44]"

definition KECCAK_PI :: "nat list" where
  "KECCAK_PI = [10, 7, 11, 17, 18, 3, 5, 16, 8, 21, 24, 4, 15, 23, 19, 13, 12, 2, 20, 14, 22, 9, 6, 1]"

definition rol64 :: "u64 \<Rightarrow> nat \<Rightarrow> u64" where
  "rol64 x n = push_bit n x OR drop_bit (64 - n) x"

definition keccak_theta :: "u64 list \<Rightarrow> u64 list" where
  "keccak_theta st =
     (let bc = map (\<lambda>i. st ! i XOR st ! (i + 5) XOR st ! (i + 10) XOR st ! (i + 15) XOR st ! (i + 20)) [0..<5];
          t = map (\<lambda>i. bc ! ((i + 4) mod 5) XOR rol64 (bc ! ((i + 1) mod 5)) 1) [0..<5]
      in map (\<lambda>k. st ! k XOR t ! (k mod 5)) [0..<25])"

text \<open>The loop that moves each lane to the place of the next one, in the source's order.\<close>

fun keccak_rho_pi_loop :: "(nat \<times> nat) list \<Rightarrow> u64 \<Rightarrow> u64 list \<Rightarrow> u64 list" where
  "keccak_rho_pi_loop [] t st = st"
| "keccak_rho_pi_loop ((j, rot) # rest) t st = keccak_rho_pi_loop rest (st ! j) (st[j := rol64 t rot])"

definition keccak_rho_pi :: "u64 list \<Rightarrow> u64 list" where
  "keccak_rho_pi st = keccak_rho_pi_loop (zip KECCAK_PI KECCAK_ROT) (st ! 1) st"

definition keccak_chi :: "u64 list \<Rightarrow> u64 list" where
  "keccak_chi st =
     map (\<lambda>k. let j = 5 * (k div 5); i = k mod 5
              in st ! k XOR (NOT (st ! (j + (i + 1) mod 5)) AND st ! (j + (i + 2) mod 5))) [0..<25]"

definition keccak_round :: "u64 \<Rightarrow> u64 list \<Rightarrow> u64 list" where
  "keccak_round rc st = (let st = keccak_chi (keccak_rho_pi (keccak_theta st)) in st[0 := st ! 0 XOR rc])"

definition keccakf :: "u64 list \<Rightarrow> u64 list" where
  "keccakf st = fold keccak_round KECCAK_RC st"

text \<open>Xor of one byte into the lanes, at byte offset \<open>pt\<close>.\<close>

definition xor_byte :: "nat \<Rightarrow> byte \<Rightarrow> u64 list \<Rightarrow> u64 list" where
  "xor_byte pt b st = st[pt div 8 := st ! (pt div 8) XOR push_bit (8 * (pt mod 8)) (ucast b)]"

fun keccak_absorb :: "nat \<Rightarrow> bytes \<Rightarrow> nat \<Rightarrow> u64 list \<Rightarrow> nat \<times> u64 list" where
  "keccak_absorb rate_bytes [] pt st = (pt, st)"
| "keccak_absorb rate_bytes (b # bs) pt st =
     (let st = xor_byte pt b st; pt = pt + 1
      in if pt = rate_bytes then keccak_absorb rate_bytes bs 0 (keccakf st) else keccak_absorb rate_bytes bs pt st)"

definition keccak_squeeze :: "u64 list \<Rightarrow> nat \<Rightarrow> bytes" where
  "keccak_squeeze st outlen = map (\<lambda>i. ucast (drop_bit (8 * (i mod 8)) (st ! (i div 8)))) [0..<outlen]"

definition keccak :: "nat \<Rightarrow> bytes \<Rightarrow> nat \<Rightarrow> bytes" where
  "keccak rate_bytes inp outlen =
     (let (pt, st) = keccak_absorb rate_bytes inp 0 (replicate 25 0);
          st = xor_byte pt 0x01 st;
          st = xor_byte (rate_bytes - 1) 0x80 st
      in keccak_squeeze (keccakf st) outlen)"

definition keccak256 :: "bytes \<Rightarrow> bytes" where
  "keccak256 inp = keccak 136 inp 32"

definition keccak512 :: "bytes \<Rightarrow> bytes" where
  "keccak512 inp = keccak 72 inp 64"

section \<open>Dataset items\<close>

definition fnv :: "u32 \<Rightarrow> u32 \<Rightarrow> u32" where
  "fnv a b = (a * 0x01000193) XOR b"

definition HASH_BYTES :: nat where [const_defs]: "HASH_BYTES = 64"
definition MIX_BYTES :: nat where [const_defs]: "MIX_BYTES = 128"
definition WORD_BYTES :: nat where [const_defs]: "WORD_BYTES = 4"
definition DATASET_PARENTS :: nat where [const_defs]: "DATASET_PARENTS = 256"
definition CACHE_ROUNDS :: nat where [const_defs]: "CACHE_ROUNDS = 3"
definition ACCESSES :: nat where [const_defs]: "ACCESSES = 64"

definition ReadLE32 :: "bytes \<Rightarrow> u32" where
  "ReadLE32 p = of_nat (from_le (take 4 p))"

definition WriteLE32 :: "u32 \<Rightarrow> bytes" where
  "WriteLE32 x = to_le 4 (unat x)"

text \<open>An item is its 64 bytes.\<close>

type_synonym Item = bytes

definition rd32 :: "Item \<Rightarrow> nat \<Rightarrow> u32" where
  "rd32 it k = ReadLE32 (drop (4 * k) it)"

definition wr32 :: "Item \<Rightarrow> nat \<Rightarrow> u32 \<Rightarrow> Item" where
  "wr32 it k v = take (4 * k) it @ WriteLE32 v @ drop (4 * k + 4) it"

text \<open>Writing all sixteen words of an item, word \<open>k\<close> as \<open>f k\<close>.\<close>

definition wr_all :: "(nat \<Rightarrow> u32) \<Rightarrow> Item" where
  "wr_all f = concat (map (\<lambda>k. WriteLE32 (f k)) [0..<16])"

primrec cache_init :: "nat \<Rightarrow> Item \<Rightarrow> Item list" where
  "cache_init 0 x = []"
| "cache_init (Suc n) x = x # cache_init n (keccak512 x)"

definition cache_mix :: "nat \<Rightarrow> nat \<Rightarrow> Item list \<Rightarrow> Item list" where
  "cache_mix n i o' =
     (let v = unat (rd32 (o' ! i) 0) mod (n mod 2 ^ 32);
          tmp = wr_all (\<lambda>k. rd32 (o' ! ((i + n - 1) mod n)) k XOR rd32 (o' ! v) k)
      in o'[i := keccak512 tmp])"

definition mkcache :: "nat \<Rightarrow> bytes \<Rightarrow> Item list" where
  "mkcache cache_size seed =
     (let n = cache_size div HASH_BYTES
      in fold (\<lambda>r. fold (cache_mix n) [0..<n]) [0..<CACHE_ROUNDS] (cache_init n (keccak512 seed)))"

definition dataset_parent :: "Item list \<Rightarrow> u32 \<Rightarrow> nat \<Rightarrow> Item \<Rightarrow> Item" where
  "dataset_parent cache i32 j mix =
     (let n = length cache; r = HASH_BYTES div WORD_BYTES;
          cache_index = unat (fnv (i32 XOR of_nat j) (rd32 mix (j mod r)));
          c = cache ! (cache_index mod n)
      in wr_all (\<lambda>k. fnv (rd32 mix k) (rd32 c k)))"

definition calc_dataset_item :: "Item list \<Rightarrow> nat \<Rightarrow> Item" where
  "calc_dataset_item cache i =
     (let n = length cache; i32 = of_nat i;
          mix = cache ! (i mod n);
          mix = keccak512 (wr32 mix 0 (rd32 mix 0 XOR i32))
      in keccak512 (fold (dataset_parent cache i32) [0..<DATASET_PARENTS] mix))"

section \<open>The light hash\<close>

definition access_index :: "nat \<Rightarrow> u32 \<Rightarrow> nat \<Rightarrow> u32 list \<Rightarrow> nat" where
  "access_index n s0 i mix =
     (let mixhashes = MIX_BYTES div HASH_BYTES
      in unat (fnv (of_nat i XOR s0) (mix ! (i mod 32))) mod (n div mixhashes) * mixhashes)"

definition hashimoto_access :: "nat \<Rightarrow> Item list \<Rightarrow> u32 \<Rightarrow> nat \<Rightarrow> u32 list \<Rightarrow> u32 list" where
  "hashimoto_access n cache s0 i mix =
     (let p = access_index n s0 i mix;
          newdata = concat (map (\<lambda>j. let di = calc_dataset_item cache (p + j) in map (rd32 di) [0..<16]) [0..<2])
      in map2 fnv mix newdata)"

definition hashimoto_light :: "nat \<Rightarrow> Item list \<Rightarrow> bytes \<Rightarrow> u64 \<Rightarrow> bytes" where
  "hashimoto_light full_bytes cache hdr_hash nonce =
     (let n = full_bytes div HASH_BYTES;
          s' = keccak512 (hdr_hash @ to_le 8 (unat nonce));
          mix = map (\<lambda>i. rd32 s' (i mod 16)) [0..<32];
          mix = fold (hashimoto_access n cache (rd32 s' 0)) [0..<ACCESSES] mix;
          cmix = map (\<lambda>i. fnv (fnv (fnv (mix ! (4 * i)) (mix ! (4 * i + 1))) (mix ! (4 * i + 2))) (mix ! (4 * i + 3))) [0..<8]
      in keccak256 (s' @ concat (map WriteLE32 cmix)))"

section \<open>Epoch sizing\<close>

text \<open>The argument of \<^verbatim>\<open>is_prime\<close> is a quotient by 64 or more, so the products \<^verbatim>\<open>i*i\<close> stay below \<open>2\<^sup>6\<^sup>4\<close>.\<close>

function is_prime_loop :: "nat \<Rightarrow> nat \<Rightarrow> bool" where
  "is_prime_loop n i = (if i * i \<le> n then (if n mod i = 0 then False else is_prime_loop n (i + 2)) else True)"
  by pat_completeness auto
termination
proof (relation "measure (\<lambda>(n, i). Suc n - i)")
  fix n i :: nat
  assume "i * i \<le> n"
  then have "i \<le> n" using le_square [of i] by linarith
  then show "((n, i + 2), n, i) \<in> measure (\<lambda>(n, i). Suc n - i)" by simp
qed simp

declare is_prime_loop.simps [simp del]

definition is_prime :: "nat \<Rightarrow> bool" where
  "is_prime n = (if n < 2 then False else if n mod 2 = 0 then n = 2 else is_prime_loop n 3)"

fun prime_down :: "nat \<Rightarrow> nat" where
  "prime_down items = (if items > 2 \<and> \<not> is_prime items then prime_down (items - 1) else items)"

declare prime_down.simps [simp del]

definition largest_prime_sized :: "nat \<Rightarrow> nat \<Rightarrow> nat" where
  "largest_prime_sized target unit =
     (let items = target div unit; items = (if items < 2 then 2 else items) in prime_down items * unit)"

record EpochSizing =
  epoch :: nat
  cache_size :: nat
  full_size :: nat

definition u64_of :: "int \<Rightarrow> nat" where
  "u64_of x = nat (x mod 2 ^ 64)"

definition GetEpochSizing :: "u32 \<Rightarrow> Params \<Rightarrow> EpochSizing" where
  "GetEpochSizing time params =
     (let epoch_seconds = (if metaldagEpochSeconds params \<noteq> 0 then u64_of (metaldagEpochSeconds params) else 1209600);
          base = u64_of (metaldagBaseTime params);
          rel = (if unat time > base then unat time - base else 0);
          ep = rel div epoch_seconds;
          raw_full = u64_of (metaldagDagInitBytes params + metaldagDagGrowthBytes params * int ep);
          divisor = (if metaldagCacheDivisor params \<noteq> 0 then nat (metaldagCacheDivisor params mod 2 ^ 32) else 128);
          raw_cache = raw_full div divisor;
          raw_full = (if raw_full < MIX_BYTES * 2 then MIX_BYTES * 2 else raw_full);
          raw_cache = (if raw_cache < HASH_BYTES * 2 then HASH_BYTES * 2 else raw_cache)
      in \<lparr>epoch = ep, cache_size = largest_prime_sized raw_cache HASH_BYTES, full_size = largest_prime_sized raw_full MIX_BYTES\<rparr>)"

section \<open>Resident caches\<close>

record CacheSlot =
  slot_cache :: "Item list"
  last_use :: nat

text \<open>The process-wide state: the chain of seeds, the caches by epoch and size in key order, and their clock.\<close>

record CacheState =
  seeds :: "bytes list"
  g_cache_by_key :: "((nat \<times> nat) \<times> CacheSlot) list"
  g_cache_clock :: nat

fun seeds_extend :: "nat \<Rightarrow> bytes list \<Rightarrow> bytes list" where
  "seeds_extend 0 ss = ss"
| "seeds_extend (Suc k) ss = seeds_extend k (ss @ [keccak256 (last ss)])"

definition seed_for_epoch :: "nat \<Rightarrow> bytes list \<Rightarrow> bytes \<times> bytes list" where
  "seed_for_epoch ep ss =
     (let ss = (if ss = [] then [replicate 32 0] else ss);
          ss = seeds_extend (Suc ep - length ss) ss
      in (ss ! ep, ss))"

definition METALDAG_CACHE_ENTRIES :: nat where [const_defs]: "METALDAG_CACHE_ENTRIES = 6"

text \<open>The first slot of least use in key order.\<close>

fun victim :: "((nat \<times> nat) \<times> CacheSlot) \<Rightarrow> ((nat \<times> nat) \<times> CacheSlot) list \<Rightarrow> (nat \<times> nat) \<times> CacheSlot" where
  "victim v [] = v"
| "victim v (x # xs) = victim (if last_use (snd x) < last_use (snd v) then x else v) xs"

function evict :: "((nat \<times> nat) \<times> CacheSlot) list \<Rightarrow> ((nat \<times> nat) \<times> CacheSlot) list" where
  "evict m = (if length m > METALDAG_CACHE_ENTRIES then evict (remove1 (victim (hd m) m) m) else m)"
  by pat_completeness auto

lemma victim_in: "victim v xs \<in> insert v (set xs)"
  by (induction xs arbitrary: v) (auto split: if_splits)

termination evict
proof (relation "measure length")
  fix m :: "((nat \<times> nat) \<times> CacheSlot) list"
  assume "METALDAG_CACHE_ENTRIES < length m"
  then have ne: "m \<noteq> []" by auto
  then have "victim (hd m) m \<in> set m" using victim_in [of "hd m" m] by (cases m) auto
  then show "(remove1 (victim (hd m) m) m, m) \<in> measure length" using ne by (simp add: length_remove1)
qed simp

declare evict.simps [simp del]

definition touch :: "nat \<times> nat \<Rightarrow> nat \<Rightarrow> (nat \<times> nat) \<times> CacheSlot \<Rightarrow> (nat \<times> nat) \<times> CacheSlot" where
  "touch key clock x = (if fst x = key then (fst x, (snd x)\<lparr>last_use := clock\<rparr>) else x)"

definition get_cache :: "nat \<Rightarrow> nat \<Rightarrow> CacheState \<Rightarrow> Item list \<times> CacheState" where
  "get_cache ep csize st =
     (let key = (ep, csize)
      in case map_of (g_cache_by_key st) key of
           Some slot \<Rightarrow>
             (slot_cache slot,
              st\<lparr>g_cache_clock := g_cache_clock st + 1,
                 g_cache_by_key := map (touch key (g_cache_clock st + 1)) (g_cache_by_key st)\<rparr>)
         | None \<Rightarrow>
             let (seed, ss) = seed_for_epoch ep (seeds st);
                 built = mkcache csize seed;
                 m = insort_key fst (key, \<lparr>slot_cache = built, last_use = g_cache_clock st + 1\<rparr>) (g_cache_by_key st)
             in (built, st\<lparr>seeds := ss, g_cache_clock := g_cache_clock st + 1, g_cache_by_key := evict m\<rparr>))"

definition CacheResident :: "u32 \<Rightarrow> Params \<Rightarrow> CacheState \<Rightarrow> bool" where
  "CacheResident time params st =
     (let e = GetEpochSizing time params in map_of (g_cache_by_key st) (epoch e, cache_size e) \<noteq> None)"

section \<open>The build budget\<close>

record CacheBuildBudget =
  m_interval_seconds :: int
  m_last_build :: int

definition budget_init :: "int \<Rightarrow> CacheBuildBudget" where
  "budget_init interval = \<lparr>m_interval_seconds = interval, m_last_build = - (2 ^ 62)\<rparr>"

definition budget_Take :: "int \<Rightarrow> CacheBuildBudget \<Rightarrow> bool \<times> CacheBuildBudget" where
  "budget_Take now_seconds b =
     (if now_seconds - m_last_build b < m_interval_seconds b then (False, b)
      else (True, b\<lparr>m_last_build := now_seconds\<rparr>))"

definition MayVerifyFromNetwork ::
  "CBlockHeader \<Rightarrow> Params \<Rightarrow> u32 \<Rightarrow> int \<Rightarrow> CacheState \<Rightarrow> CacheBuildBudget \<Rightarrow> bool \<times> CacheBuildBudget" where
  "MayVerifyFromNetwork hdr params best_header_time now st budget =
     (if CacheResident (nTime hdr) params st then (True, budget)
      else
        let ep = epoch (GetEpochSizing (nTime hdr) params);
            best_epoch = epoch (GetEpochSizing best_header_time params);
            now_time = (if now > 0 \<and> now \<le> 2 ^ 32 - 1 then of_int now else 0xffffffff);
            now_epoch = epoch (GetEpochSizing now_time params);
            lo = (if best_epoch > 0 then best_epoch - 1 else 0);
            hi = now_epoch + 1
        in if ep \<ge> lo \<and> ep \<le> hi then (True, budget)
           else if ep > hi then (False, budget)
           else budget_Take now budget)"

section \<open>The proof-of-work hash\<close>

definition METALDAG_MAX_CACHE_BYTES :: nat where [const_defs]: "METALDAG_MAX_CACHE_BYTES = 64 * 1024 * 1024 * 1024"

definition PoWHash :: "CBlockHeader \<Rightarrow> Params \<Rightarrow> CacheState \<Rightarrow> uint256 \<times> CacheState" where
  "PoWHash hdr params st =
     (let e = GetEpochSizing (nTime hdr) params
      in if cache_size e > METALDAG_MAX_CACHE_BYTES then (replicate 32 0xff, st)
         else let (cache, st') = get_cache (epoch e) (cache_size e) st;
                  hh = keccak256 (take 76 (ser_header hdr))
              in (hashimoto_light (full_size e) cache hh (ucast (nNonce hdr)), st'))"

section \<open>Prime sizes\<close>

definition prime_nat :: "nat \<Rightarrow> bool" where
  "prime_nat n \<longleftrightarrow> 2 \<le> n \<and> (\<forall>d. d dvd n \<longrightarrow> d = 1 \<or> d = n)"

lemma is_prime_loop_correct:
  "odd n \<Longrightarrow> 2 \<le> n \<Longrightarrow> odd i \<Longrightarrow> 3 \<le> i \<Longrightarrow> (\<And>d. 2 \<le> d \<Longrightarrow> d < i \<Longrightarrow> \<not> d dvd n) \<Longrightarrow> is_prime_loop n i \<longleftrightarrow> prime_nat n"
proof (induction n i rule: is_prime_loop.induct)
  case (1 n i)
  show ?case
  proof (cases "i * i \<le> n")
    case False
    have "d = 1 \<or> d = n" if d: "d dvd n" for d
    proof (rule ccontr)
      assume c: "\<not> (d = 1 \<or> d = n)"
      from d obtain e where e: "n = d * e" by auto
      have "e dvd n" using e by simp
      have "e \<noteq> 0" using e 1(3) by (cases "e = 0") auto
      moreover have "d \<noteq> 0" "e \<noteq> 1" using e c 1(3) by auto
      ultimately have "i \<le> d" "i \<le> e" using 1(6) [of d] 1(6) [of e] d \<open>e dvd n\<close> c by (metis One_nat_def Suc_1 less_2_cases not_less)+
      then have "i * i \<le> n" using e mult_le_mono by metis
      with False show False by simp
    qed
    then show ?thesis using False 1(3) by (simp add: is_prime_loop.simps prime_nat_def)
  next
    case True
    show ?thesis
    proof (cases "n mod i = 0")
      case d: True
      have "i \<noteq> n" using True 1(5) by (cases "i = n") auto
      moreover have "i dvd n" using d by auto
      ultimately have "\<not> prime_nat n" using 1(5) unfolding prime_nat_def by (metis numeral_3_eq_3 not_less_eq_eq One_nat_def le0)
      then show ?thesis using True d by (simp add: is_prime_loop.simps)
    next
      case nd: False
      have "\<not> d dvd n" if dd: "2 \<le> d" "d < i + 2" for d
      proof -
        consider "d < i" | "d = i" | "d = i + 1" using dd by arith
        then show ?thesis
        proof cases
          case 2
          then show ?thesis using nd by auto
        next
          case 3
          then have "even d" using 1(4) by simp
          then show ?thesis using 1(2) dvd_trans by blast
        qed (use 1(6) dd in auto)
      qed
      then have "is_prime_loop n (i + 2) \<longleftrightarrow> prime_nat n" using 1 True nd by simp
      then show ?thesis using True nd by (subst is_prime_loop.simps) simp
    qed
  qed
qed

lemma is_prime_iff: "is_prime n \<longleftrightarrow> prime_nat n"
proof -
  consider "n < 2" | "n = 2" | "2 < n" "even n" | "2 < n" "odd n" by (cases "n < 2"; cases "n = 2"; auto)
  then show ?thesis
  proof cases
    case 2
    have "d = 1 \<or> d = 2" if "d dvd 2" for d :: nat
      using dvd_imp_le [OF that] that by (cases "d = 0") auto
    then have "prime_nat 2" by (simp add: prime_nat_def)
    then show ?thesis using 2 by (simp add: is_prime_def)
  next
    case 3
    then have "2 dvd n" "(2 :: nat) \<noteq> 1" "2 \<noteq> n" by auto
    then have "\<not> prime_nat n" unfolding prime_nat_def by blast
    then show ?thesis using 3 by (auto simp: is_prime_def)
  next
    case 4
    have "\<not> d dvd n" if "2 \<le> d" "d < 3" for d using that 4 by (cases "d = 2") auto
    then have "is_prime_loop n 3 \<longleftrightarrow> prime_nat n" using 4 by (intro is_prime_loop_correct) auto
    moreover have "n mod 2 \<noteq> 0" using 4 by presburger
    ultimately show ?thesis using 4 by (simp add: is_prime_def)
  qed (auto simp: is_prime_def prime_nat_def)
qed

text \<open>No product the trial division forms leaves 64 bits: item counts are below \<open>2\<^sup>5\<^sup>8\<close>.\<close>

lemma trial_square_fits:
  assumes "n < 2 ^ 58" "i * i \<le> n"
  shows "(i + 2) * (i + 2) < (2 ^ 64 :: nat)"
proof -
  have "i < 2 ^ 29"
  proof (rule ccontr)
    assume "\<not> i < 2 ^ 29"
    then have "2 ^ 29 * 2 ^ 29 \<le> i * i" by (intro mult_le_mono) simp_all
    then show False using assms by simp
  qed
  then have "(i + 2) * (i + 2) \<le> (2 ^ 30) * (2 ^ 30)" by (intro mult_le_mono) simp_all
  then show ?thesis by simp
qed

lemma prime_down_spec:
  "2 \<le> n \<Longrightarrow> prime_nat (prime_down n) \<and> prime_down n \<le> n \<and> (\<forall>k. prime_down n < k \<and> k \<le> n \<longrightarrow> \<not> prime_nat k)"
proof (induction n rule: prime_down.induct)
  case (1 n)
  show ?case
  proof (cases "n > 2 \<and> \<not> is_prime n")
    case True
    then have "2 \<le> n - 1" by linarith
    with 1(1) [OF True] have IH: "prime_nat (prime_down (n - 1)) \<and> prime_down (n - 1) \<le> n - 1 \<and> (\<forall>k. prime_down (n - 1) < k \<and> k \<le> n - 1 \<longrightarrow> \<not> prime_nat k)"
      by blast
    have "prime_down n = prime_down (n - 1)" using True by (subst prime_down.simps) simp
    moreover have "\<not> prime_nat k" if "prime_down (n - 1) < k" "k \<le> n" for k
      using IH that True is_prime_iff by (cases "k = n") auto
    ultimately show ?thesis using IH by auto
  next
    case False
    then have "prime_down n = n" by (subst prime_down.simps) auto
    moreover have "prime_nat n" using False 1(2) is_prime_iff [of n] is_prime_def [of 2] by (cases "n = 2") auto
    ultimately show ?thesis by auto
  qed
qed

lemma largest_prime_sized_spec:
  assumes "0 < unit" "2 * unit \<le> target"
  obtains q where "largest_prime_sized target unit = q * unit" "prime_nat q" "q * unit \<le> target"
    "\<forall>k. prime_nat k \<and> k * unit \<le> target \<longrightarrow> k \<le> q"
proof -
  have i: "2 \<le> target div unit" using assms by (metis div_le_mono nonzero_mult_div_cancel_right not_gr_zero)
  note sp = prime_down_spec [OF i]
  show ?thesis
  proof
    show "largest_prime_sized target unit = prime_down (target div unit) * unit" using i by (simp add: largest_prime_sized_def Let_def)
    show "prime_down (target div unit) * unit \<le> target" using sp by (meson div_times_less_eq_dividend le_trans mult_le_mono1)
    show "\<forall>k. prime_nat k \<and> k * unit \<le> target \<longrightarrow> k \<le> prime_down (target div unit)"
      using sp assms(1) by (metis less_eq_div_iff_mult_less_eq not_le)
  qed (use sp in simp)
qed

section \<open>Sponge\<close>

lemma keccak_absorb_append:
  "keccak_absorb r (xs @ ys) pt st = (case keccak_absorb r xs pt st of (pt', st') \<Rightarrow> keccak_absorb r ys pt' st')"
  by (induction r xs pt st rule: keccak_absorb.induct) (auto simp: Let_def)

lemma absorb_pt:
  "0 < r \<Longrightarrow> pt < r \<Longrightarrow> fst (keccak_absorb r xs pt st) = (pt + length xs) mod r"
proof (induction r xs pt st rule: keccak_absorb.induct)
  case (2 r b bs pt st)
  show ?case
  proof (cases "pt + 1 = r")
    case True
    have "(pt + length (b # bs)) mod r = length bs mod r" using mod_add_self1 [of r "length bs"] unfolding True [symmetric] by (simp add: ac_simps)
    then show ?thesis using 2 True by (simp add: Let_def)
  qed (use 2 in \<open>simp add: Let_def\<close>)
qed simp

lemma xor_byte_0 [simp]: "xor_byte pt 0 st = st"
  by (simp add: xor_byte_def)

lemma xor_byte_twice:
  assumes "pt div 8 < length st"
  shows "xor_byte pt b (xor_byte pt a st) = xor_byte pt (a XOR b) st"
proof -
  have "ucast (a XOR b) = (ucast a XOR ucast b :: u64)" by (rule bit_word_eqI) (auto simp: bit_simps)
  then show ?thesis using assms by (simp add: xor_byte_def push_bit_xor ac_simps)
qed

lemma absorb_zeros:
  "pt + n < r \<Longrightarrow> keccak_absorb r (replicate n 0) pt st = (pt + n, st)"
  by (induction n arbitrary: pt) (auto simp: Let_def)

text \<open>The multi-rate padding of original Keccak.\<close>

definition keccak_pad :: "nat \<Rightarrow> nat \<Rightarrow> bytes" where
  "keccak_pad r len = (let k = r - len mod r in if k = 1 then [0x81] else 0x01 # replicate (k - 2) 0 @ [0x80])"

lemma length_keccak_pad: "0 < r \<Longrightarrow> (len + length (keccak_pad r len)) mod r = 0"
proof -
  assume r: "0 < r"
  then have "len mod r < r" by simp
  then have "length (keccak_pad r len) = r - len mod r" by (auto simp: keccak_pad_def Let_def)
  then have "len + length (keccak_pad r len) = len div r * r + r" using div_mult_mod_eq [of len r] \<open>len mod r < r\<close> by linarith
  then show ?thesis by simp
qed

lemma length_xor_byte [simp]: "length (xor_byte pt b st) = length st"
  by (simp add: xor_byte_def)

lemma length_keccak_chi [simp]: "length (keccak_chi st) = 25"
  by (simp add: keccak_chi_def)

lemma length_keccak_round [simp]: "length (keccak_round rc st) = 25"
  by (simp add: keccak_round_def Let_def)

lemma length_keccakf [simp]: "length (keccakf st) = 25"
  unfolding keccakf_def KECCAK_RC_def by (simp only: fold_simps length_keccak_round comp_def id_apply)

lemma length_absorb: "length st = 25 \<Longrightarrow> length (snd (keccak_absorb r xs pt st)) = 25"
  by (induction r xs pt st rule: keccak_absorb.induct) (auto simp: Let_def)

lemma absorb_pad:
  assumes "pt < r" "pt = len mod r" "pt div 8 < length st"
  shows "keccak_absorb r (keccak_pad r len) pt st = (0, keccakf (xor_byte (r - 1) 0x80 (xor_byte pt 0x01 st)))"
proof (cases "pt = r - 1")
  case True
  then have k: "r - len mod r = 1" using assms by simp
  have "(0x01 :: byte) XOR 0x80 = 0x81" by simp
  then show ?thesis using True k assms xor_byte_twice [of pt st "0x80" "0x01"] by (simp add: keccak_pad_def Let_def)
next
  case False
  define z where "z = r - pt - 2"
  have r: "r = pt + z + 2" using False assms(1) by (simp add: z_def)
  have p: "keccak_pad r len = 0x01 # replicate z 0 @ [0x80]"
  proof -
    have "r - len mod r = z + 2" using r assms(2) by linarith
    then show ?thesis by (simp add: keccak_pad_def Let_def)
  qed
  have "keccak_absorb r (keccak_pad r len) pt st = keccak_absorb r (replicate z 0 @ [0x80]) (pt + 1) (xor_byte pt 0x01 st)"
    unfolding p using r by (simp add: Let_def)
  also have "\<dots> = keccak_absorb r [0x80] (pt + 1 + z) (xor_byte pt 0x01 st)"
    using absorb_zeros [of "pt + 1" z r] r by (simp add: keccak_absorb_append)
  finally show ?thesis using r by (simp add: Let_def)
qed

lemma keccak_sponge:
  assumes "0 < r" "r \<le> 200"
  shows "keccak r inp n = keccak_squeeze (snd (keccak_absorb r (inp @ keccak_pad r (length inp)) 0 (replicate 25 0))) n"
proof -
  obtain pt st where a: "keccak_absorb r inp 0 (replicate 25 0) = (pt, st)" by force
  have pt: "pt = length inp mod r" using absorb_pt [OF assms(1), of 0 inp "replicate 25 0"] a assms(1) by simp
  have "length st = 25" using length_absorb [of "replicate 25 0" r inp 0] a by simp
  moreover have "pt < r" using pt assms(1) by simp
  ultimately have "keccak_absorb r (keccak_pad r (length inp)) pt st = (0, keccakf (xor_byte (r - 1) 0x80 (xor_byte pt 0x01 st)))"
    using assms by (intro absorb_pad pt) auto
  then show ?thesis using a by (simp add: keccak_def keccak_absorb_append Let_def)
qed

lemma length_keccak [simp]: "length (keccak r inp n) = n"
  by (simp add: keccak_def keccak_squeeze_def case_prod_beta Let_def)

lemma length_keccak256 [simp]: "length (keccak256 inp) = 32"
  by (simp add: keccak256_def)

lemma length_keccak512 [simp]: "length (keccak512 inp) = 64"
  by (simp add: keccak512_def)

section \<open>The lane permutation\<close>

text \<open>The rotation of lane \<open>(x, y)\<close> in the specification of Keccak: the \<open>t\<close>-th lane of the walk from \<open>(1, 0)\<close> by
  \<open>(x, y) \<mapsto> (y, 2x + 3y)\<close> turns by \<open>(t + 1)(t + 2)/2\<close>.\<close>

fun rho_walk :: "nat \<Rightarrow> nat \<Rightarrow> nat \<Rightarrow> nat \<Rightarrow> ((nat \<times> nat) \<times> nat) list" where
  "rho_walk 0 t x y = []"
| "rho_walk (Suc n) t x y = ((x, y), ((t + 1) * (t + 2) div 2) mod 64) # rho_walk n (t + 1) y ((2 * x + 3 * y) mod 5)"

definition rho_offset :: "nat \<Rightarrow> nat \<Rightarrow> nat" where
  "rho_offset x y = (case map_of (rho_walk 24 0 1 0) (x, y) of None \<Rightarrow> 0 | Some r \<Rightarrow> r)"

lemma rho_walk_numeral:
  "rho_walk (numeral k) t x y = ((x, y), ((t + 1) * (t + 2) div 2) mod 64) # rho_walk (pred_numeral k) (t + 1) y ((2 * x + 3 * y) mod 5)"
  by (simp only: numeral_eq_Suc [of k] rho_walk.simps)

lemma rho_walk_table:
  "rho_walk 24 0 1 0 =
    [((1, 0), 1), ((0, 2), 3), ((2, 1), 6), ((1, 2), 10), ((2, 3), 15), ((3, 3), 21), ((3, 0), 28), ((0, 1), 36),
     ((1, 3), 45), ((3, 1), 55), ((1, 4), 2), ((4, 4), 14), ((4, 0), 27), ((0, 3), 41), ((3, 4), 56), ((4, 3), 8),
     ((3, 2), 25), ((2, 2), 43), ((2, 0), 62), ((0, 4), 18), ((4, 2), 39), ((2, 4), 61), ((4, 1), 20), ((1, 1), 44)]"
  by (simp add: rho_walk_numeral)

lemma rol64_0: "rol64 x 0 = x"
proof -
  have "drop_bit 64 x = 0" by (rule bit_word_eqI) (simp add: bit_simps)
  then show ?thesis by (simp add: rol64_def)
qed

lemma list25:
  assumes "length st = 25"
  obtains a0 a1 a2 a3 a4 a5 a6 a7 a8 a9 a10 a11 a12 a13 a14 a15 a16 a17 a18 a19 a20 a21 a22 a23 a24 where
    "st = [a0, a1, a2, a3, a4, a5, a6, a7, a8, a9, a10, a11, a12, a13, a14, a15, a16, a17, a18, a19, a20, a21, a22, a23, a24]"
  using assms by (auto simp: numeral_eq_Suc length_Suc_conv)

lemma rho_pi_unrolled:
  "keccak_rho_pi [a0, a1, a2, a3, a4, a5, a6, a7, a8, a9, a10, a11, a12, a13, a14, a15, a16, a17, a18, a19, a20, a21, a22, a23, a24] =
    [a0, rol64 a6 44, rol64 a12 43, rol64 a18 21, rol64 a24 14, rol64 a3 28, rol64 a9 20, rol64 a10 3, rol64 a16 45, rol64 a22 61,
     rol64 a1 1, rol64 a7 6, rol64 a13 25, rol64 a19 8, rol64 a20 18, rol64 a4 27, rol64 a5 36, rol64 a11 10, rol64 a17 15, rol64 a23 56,
     rol64 a2 62, rol64 a8 55, rol64 a14 39, rol64 a15 41, rol64 a21 2]"
  by (simp add: keccak_rho_pi_def KECCAK_PI_def KECCAK_ROT_def)

lemma rho_pi_lane:
  assumes "length st = 25" "x < 5" "y < 5"
  shows "keccak_rho_pi st ! (y + 5 * ((2 * x + 3 * y) mod 5)) = rol64 (st ! (x + 5 * y)) (rho_offset x y)"
proof -
  obtain a0 a1 a2 a3 a4 a5 a6 a7 a8 a9 a10 a11 a12 a13 a14 a15 a16 a17 a18 a19 a20 a21 a22 a23 a24 where
    st: "st = [a0, a1, a2, a3, a4, a5, a6, a7, a8, a9, a10, a11, a12, a13, a14, a15, a16, a17, a18, a19, a20, a21, a22, a23, a24]"
    by (rule list25 [OF assms(1)])
  have "x \<in> {0, 1, 2, 3, 4}" "y \<in> {0, 1, 2, 3, 4}" using assms by auto
  then show ?thesis unfolding st rho_pi_unrolled rho_offset_def rho_walk_table
    by (elim insertE emptyE; simp add: rol64_0)
qed

section \<open>The resident caches\<close>

text \<open>What a cache table promises its client: a request returns the value of its key, whatever was requested before.\<close>

locale memo_table =
  fixes ok :: "'s \<Rightarrow> bool" and get :: "'k \<Rightarrow> 's \<Rightarrow> 'v \<times> 's" and value_of :: "'k \<Rightarrow> 'v"
  assumes get_value: "ok st \<Longrightarrow> fst (get k st) = value_of k"
    and get_ok: "ok st \<Longrightarrow> ok (snd (get k st))"
begin

lemma requests_ok: "ok st \<Longrightarrow> ok (fold (\<lambda>k st. snd (get k st)) ks st)"
  by (induction ks arbitrary: st) (auto intro: get_ok)

lemma request_after: "ok st \<Longrightarrow> fst (get k (fold (\<lambda>k st. snd (get k st)) ks st)) = value_of k"
  by (rule get_value [OF requests_ok])

end

definition seed_at :: "nat \<Rightarrow> bytes" where
  "seed_at ep = (keccak256 ^^ ep) (replicate 32 0)"

definition seeds_ok :: "bytes list \<Rightarrow> bool" where
  "seeds_ok ss \<longleftrightarrow> ss = map seed_at [0..<length ss]"

definition cache_value :: "nat \<times> nat \<Rightarrow> Item list" where
  "cache_value = (\<lambda>(ep, csize). mkcache csize (seed_at ep))"

definition slots_ok :: "nat \<Rightarrow> ((nat \<times> nat) \<times> CacheSlot) list \<Rightarrow> bool" where
  "slots_ok clock m \<longleftrightarrow> (\<forall>x\<in>set m. slot_cache (snd x) = cache_value (fst x) \<and> last_use (snd x) \<le> clock)"

definition caches_ok :: "CacheState \<Rightarrow> bool" where
  "caches_ok st \<longleftrightarrow>
     seeds_ok (seeds st) \<and> distinct (map fst (g_cache_by_key st)) \<and> length (g_cache_by_key st) \<le> METALDAG_CACHE_ENTRIES \<and>
     slots_ok (g_cache_clock st) (g_cache_by_key st)"

lemma seeds_extend_ok: "seeds_ok ss \<Longrightarrow> ss \<noteq> [] \<Longrightarrow> seeds_ok (seeds_extend k ss) \<and> length (seeds_extend k ss) = length ss + k"
proof (induction k arbitrary: ss)
  case (Suc k)
  have "last ss = seed_at (length ss - 1)" using Suc.prems unfolding seeds_ok_def by (metis diff_less last_conv_nth length_greater_0_conv nth_map_upt add_0 minus_nat.diff_0 zero_less_one)
  then have "keccak256 (last ss) = seed_at (length ss)" using Suc.prems(2) by (cases "length ss") (auto simp: seed_at_def)
  then have "seeds_ok (ss @ [keccak256 (last ss)])" using Suc.prems(1) by (simp add: seeds_ok_def)
  then show ?case using Suc.IH [of "ss @ [keccak256 (last ss)]"] by simp
qed simp

lemma seed_for_epoch_ok:
  assumes "seeds_ok ss"
  shows "fst (seed_for_epoch ep ss) = seed_at ep \<and> seeds_ok (snd (seed_for_epoch ep ss))"
proof -
  define s0 where "s0 = (if ss = [] then [replicate 32 0] else ss)"
  have s0: "seeds_ok s0" "s0 \<noteq> []" using assms by (auto simp: s0_def seeds_ok_def seed_at_def)
  define s1 where "s1 = seeds_extend (Suc ep - length s0) s0"
  have s1: "seeds_ok s1" "ep < length s1" using seeds_extend_ok [OF s0, of "Suc ep - length s0"] by (auto simp: s1_def)
  then have "s1 ! ep = seed_at ep" unfolding seeds_ok_def by (metis add_0 nth_map_upt diff_zero)
  moreover have "seed_for_epoch ep ss = (s1 ! ep, s1)" by (simp add: seed_for_epoch_def Let_def s0_def s1_def)
  ultimately show ?thesis using s1 by simp
qed

lemma victim_least: "last_use (snd (victim v xs)) \<le> last_use (snd v) \<and> (\<forall>x\<in>set xs. last_use (snd (victim v xs)) \<le> last_use (snd x))"
proof (induction xs arbitrary: v)
  case (Cons x xs)
  show ?case using Cons.IH [of "if last_use (snd x) < last_use (snd v) then x else v"] by (auto split: if_splits)
qed simp

lemma evict_spec:
  "distinct (map fst m) \<Longrightarrow> set (evict m) \<subseteq> set m \<and> distinct (map fst (evict m)) \<and> length (evict m) \<le> METALDAG_CACHE_ENTRIES"
proof (induction m rule: evict.induct)
  case (1 m)
  show ?case
  proof (cases "length m > METALDAG_CACHE_ENTRIES")
    case True
    have "distinct (map fst (remove1 (victim (hd m) m) m))" using 1(2) by (metis distinct_map distinct_remove1 inj_on_subset set_remove1_subset)
    with 1(1) [OF True] show ?thesis using True set_remove1_subset by (subst (1 2 3) evict.simps) fastforce
  next
    case False
    then show ?thesis using 1(2) by (subst (1 2 3) evict.simps) auto
  qed
qed

text \<open>A slot used more recently than all others is not the victim.\<close>

lemma evict_keeps:
  "x \<in> set m \<Longrightarrow> distinct m \<Longrightarrow> (\<forall>y\<in>set m. y \<noteq> x \<longrightarrow> last_use (snd y) < last_use (snd x)) \<Longrightarrow> x \<in> set (evict m)"
proof (induction m rule: evict.induct)
  case (1 m)
  show ?case
  proof (cases "length m > METALDAG_CACHE_ENTRIES")
    case True
    then have "2 \<le> length m" by (simp add: METALDAG_CACHE_ENTRIES_def)
    with 1(3) obtain y where y: "y \<in> set m" "y \<noteq> x"
      by (metis One_nat_def card_le_Suc0_iff_eq distinct_card finite_set less_eq_Suc_le not_less_eq_eq numeral_2_eq_2 1(2))
    have "victim (hd m) m \<noteq> x" using victim_least [of "hd m" m] y 1(4) by fastforce
    then have "x \<in> set (remove1 (victim (hd m) m) m)" using 1(2) by (simp add: in_set_remove1)
    moreover have "\<forall>y\<in>set (remove1 (victim (hd m) m) m). y \<noteq> x \<longrightarrow> last_use (snd y) < last_use (snd x)"
      using 1(4) set_remove1_subset by fastforce
    ultimately have "x \<in> set (evict (remove1 (victim (hd m) m) m))" using 1(1) [OF True] 1(3) by simp
    then show ?thesis using True by (subst evict.simps) simp
  qed (use 1(2) in \<open>subst evict.simps; simp\<close>)
qed

lemma fst_touch [simp]: "fst (touch key c x) = fst x"
  by (simp add: touch_def)

lemma slots_touch: "slots_ok c m \<Longrightarrow> slots_ok (Suc c) (map (touch key (Suc c)) m)"
  by (fastforce simp: slots_ok_def touch_def)

lemma slots_mono: "slots_ok c m \<Longrightarrow> set m' \<subseteq> set m \<Longrightarrow> slots_ok c m'"
  by (auto simp: slots_ok_def)

lemma slots_Suc: "slots_ok c m \<Longrightarrow> slots_ok (Suc c) m"
  by (auto simp: slots_ok_def le_Suc_eq)

lemma get_cache_hit:
  assumes "caches_ok st" "map_of (g_cache_by_key st) (ep, csize) = Some slot"
  shows "fst (get_cache ep csize st) = cache_value (ep, csize) \<and> caches_ok (snd (get_cache ep csize st)) \<and>
    (ep, csize) \<in> fst ` set (g_cache_by_key (snd (get_cache ep csize st)))"
proof -
  have i: "((ep, csize), slot) \<in> set (g_cache_by_key st)" using assms(2) by (rule map_of_SomeD)
  then have v: "slot_cache slot = cache_value (ep, csize)" using assms(1) by (force simp: caches_ok_def slots_ok_def)
  have g: "get_cache ep csize st = (slot_cache slot,
      st\<lparr>g_cache_clock := g_cache_clock st + 1, g_cache_by_key := map (touch (ep, csize) (g_cache_clock st + 1)) (g_cache_by_key st)\<rparr>)"
    using assms(2) by (simp add: get_cache_def)
  have k: "(ep, csize) \<in> fst ` set (map (touch (ep, csize) (g_cache_clock st + 1)) (g_cache_by_key st))"
    using i by (force simp: image_image)
  have "caches_ok (snd (get_cache ep csize st))"
    using assms(1) slots_touch unfolding g caches_ok_def by (simp add: comp_def)
  with v k show ?thesis by (simp add: g)
qed

lemma get_cache_miss:
  assumes "caches_ok st" "map_of (g_cache_by_key st) (ep, csize) = None"
  shows "fst (get_cache ep csize st) = cache_value (ep, csize) \<and> caches_ok (snd (get_cache ep csize st)) \<and>
    (ep, csize) \<in> fst ` set (g_cache_by_key (snd (get_cache ep csize st)))"
proof -
  obtain seed ss where sd: "seed_for_epoch ep (seeds st) = (seed, ss)" by force
  with seed_for_epoch_ok [of "seeds st" ep] assms(1) have seed: "seed = seed_at ep" "seeds_ok ss" by (auto simp: caches_ok_def)
  define new where "new = ((ep, csize), \<lparr>slot_cache = mkcache csize seed, last_use = g_cache_clock st + 1\<rparr>)"
  define m where "m = insort_key fst new (g_cache_by_key st)"
  have g: "get_cache ep csize st = (mkcache csize seed, st\<lparr>seeds := ss, g_cache_clock := g_cache_clock st + 1, g_cache_by_key := evict m\<rparr>)"
    using assms(2) sd by (simp add: get_cache_def Let_def m_def new_def)
  have set: "set m = insert new (set (g_cache_by_key st))" unfolding m_def by (rule set_insort_key)
  have fst: "fst new = (ep, csize)" "slot_cache (snd new) = cache_value (ep, csize)" "last_use (snd new) = Suc (g_cache_clock st)"
    using seed(1) by (simp_all add: new_def cache_value_def)
  have nk: "(ep, csize) \<notin> fst ` set (g_cache_by_key st)" using assms(2) by (simp add: map_of_eq_None_iff)
  have perm: "mset m = add_mset new (mset (g_cache_by_key st))" unfolding m_def by (rule mset_insort)
  have d: "distinct (map fst m)"
  proof -
    have "mset (map fst m) = mset (map fst (new # g_cache_by_key st))" using perm by simp
    moreover have "distinct (map fst (new # g_cache_by_key st))" using assms(1) nk fst(1) by (simp add: caches_ok_def)
    ultimately show ?thesis by (metis mset_eq_imp_distinct_iff)
  qed
  note ev = evict_spec [OF d]
  have old: "slots_ok (g_cache_clock st) (g_cache_by_key st)" using assms(1) by (simp add: caches_ok_def)
  have slots: "slots_ok (Suc (g_cache_clock st)) m" using slots_Suc [OF old] fst unfolding slots_ok_def set by simp
  have "new \<in> set (evict m)"
  proof (rule evict_keeps)
    show "distinct m" using d by (simp add: distinct_map)
    show "\<forall>y\<in>set m. y \<noteq> new \<longrightarrow> last_use (snd y) < last_use (snd new)"
      using old unfolding set slots_ok_def fst(3) by (metis insertE le_imp_less_Suc)
  qed (simp add: set)
  then have k: "(ep, csize) \<in> fst ` set (evict m)" using fst(1) by force
  have "caches_ok (snd (get_cache ep csize st))" using ev slots_mono [OF slots] seed(2) unfolding g by (simp add: caches_ok_def)
  with k show ?thesis using seed(1) by (simp add: g cache_value_def)
qed

lemma get_cache_correct:
  assumes "caches_ok st"
  shows "fst (get_cache ep csize st) = cache_value (ep, csize) \<and> caches_ok (snd (get_cache ep csize st)) \<and>
    (ep, csize) \<in> fst ` set (g_cache_by_key (snd (get_cache ep csize st)))"
proof (cases "map_of (g_cache_by_key st) (ep, csize)")
  case None
  then show ?thesis by (rule get_cache_miss [OF assms])
next
  case (Some slot)
  then show ?thesis by (rule get_cache_hit [OF assms])
qed

interpretation caches: memo_table caches_ok "\<lambda>(ep, csize). get_cache ep csize" cache_value
  by unfold_locales (auto dest: get_cache_correct)

text \<open>The hash of a header as a function of the header alone.\<close>

definition pow_hash :: "CBlockHeader \<Rightarrow> Params \<Rightarrow> uint256" where
  "pow_hash hdr params =
     (let e = GetEpochSizing (nTime hdr) params
      in if cache_size e > METALDAG_MAX_CACHE_BYTES then replicate 32 0xff
         else hashimoto_light (full_size e) (cache_value (epoch e, cache_size e)) (keccak256 (take 76 (ser_header hdr))) (ucast (nNonce hdr)))"

lemma PoWHash_pure: "caches_ok st \<Longrightarrow> fst (PoWHash hdr params st) = pow_hash hdr params \<and> caches_ok (snd (PoWHash hdr params st))"
  using get_cache_correct [of st "epoch (GetEpochSizing (nTime hdr) params)" "cache_size (GetEpochSizing (nTime hdr) params)"]
  by (auto simp: PoWHash_def pow_hash_def Let_def case_prod_beta)

interpretation pow_cache: memo_table caches_ok "\<lambda>(hdr, params). PoWHash hdr params" "\<lambda>(hdr, params). pow_hash hdr params"
  by unfold_locales (auto simp: PoWHash_pure)

definition caches_init :: CacheState where
  "caches_init = \<lparr>seeds = [], g_cache_by_key = [], g_cache_clock = 0\<rparr>"

lemma caches_init_ok: "caches_ok caches_init"
  by (simp add: caches_ok_def caches_init_def seeds_ok_def slots_ok_def)

section \<open>Indices\<close>

lemma length_WriteLE32 [simp]: "length (WriteLE32 x) = 4"
  by (simp add: WriteLE32_def)

lemma length_hashimoto_light [simp]: "length (hashimoto_light full cache h nonce) = 32"
  by (simp add: hashimoto_light_def Let_def)

lemma length_pow_hash: "length (pow_hash hdr params) = 32"
  by (simp add: pow_hash_def Let_def)

lemma length_cache_init [simp]: "length (cache_init n x) = n"
  by (induction n arbitrary: x) auto

lemma length_cache_mixes [simp]: "length (fold (cache_mix n) is o') = length o'"
  by (induction "is" arbitrary: o') (auto simp: cache_mix_def Let_def)

lemma length_mkcache [simp]: "length (mkcache csize seed) = csize div HASH_BYTES"
proof -
  have "length (fold (\<lambda>r. fold (cache_mix n) [0..<n]) rs o') = length o'" for n o' and rs :: "nat list" by (induction rs arbitrary: o') auto
  then show ?thesis by (simp add: mkcache_def Let_def)
qed

lemma sizing_shape:
  "\<exists>p q. prime_nat p \<and> prime_nat q \<and> full_size (GetEpochSizing time params) = p * 128 \<and> cache_size (GetEpochSizing time params) = q * 64"
proof -
  have at_least: "\<exists>q. prime_nat q \<and> largest_prime_sized (if x < y * 2 then y * 2 else x) y = q * y" if y: "0 < y" for x y
  proof -
    have "2 * y \<le> (if x < y * 2 then y * 2 else x)" by simp
    with y obtain q where "largest_prime_sized (if x < y * 2 then y * 2 else x) y = q * y" "prime_nat q" by (rule largest_prime_sized_spec)
    then show ?thesis by blast
  qed
  obtain x z where e: "full_size (GetEpochSizing time params) = largest_prime_sized (if x < 128 * 2 then 128 * 2 else x) 128"
    "cache_size (GetEpochSizing time params) = largest_prime_sized (if z < 64 * 2 then 64 * 2 else z) 64"
    unfolding GetEpochSizing_def Let_def HASH_BYTES_def MIX_BYTES_def EpochSizing.select_convs by blast
  show ?thesis unfolding e using at_least [of 128 x] at_least [of 64 z] by fastforce
qed

lemma access_in_dataset:
  assumes "0 < p" "j < 2"
  shows "access_index (2 * p) s0 i mix + j < 2 * p"
proof -
  have "x mod p * 2 + j < 2 * p" for x using mod_less_divisor [OF assms(1), of x] assms(2) by linarith
  then show ?thesis by (simp add: access_index_def MIX_BYTES_def HASH_BYTES_def)
qed

section \<open>The budget\<close>

fun budget_grants :: "CacheBuildBudget \<Rightarrow> int list \<Rightarrow> int list" where
  "budget_grants b [] = []"
| "budget_grants b (now # rest) = (case budget_Take now b of (granted, b') \<Rightarrow> (if granted then [now] else []) @ budget_grants b' rest)"

lemma budget_grants_spaced:
  "0 \<le> m_interval_seconds b \<Longrightarrow> (\<forall>g\<in>set (budget_grants b ts). m_last_build b + m_interval_seconds b \<le> g) \<and>
    sorted_wrt (\<lambda>x y. x + m_interval_seconds b \<le> y) (budget_grants b ts)"
proof (induction ts arbitrary: b)
  case (Cons now ts)
  show ?case
  proof (cases "now - m_last_build b < m_interval_seconds b")
    case True
    then show ?thesis using Cons by (simp add: budget_Take_def)
  next
    case False
    let ?b = "b\<lparr>m_last_build := now\<rparr>"
    have "(\<forall>g\<in>set (budget_grants ?b ts). now + m_interval_seconds b \<le> g) \<and> sorted_wrt (\<lambda>x y. x + m_interval_seconds b \<le> y) (budget_grants ?b ts)"
      using Cons.IH [of ?b] Cons.prems by simp
    then show ?thesis using False Cons.prems by (fastforce simp: budget_Take_def)
  qed
qed simp

section \<open>Properties\<close>

text \<open>C23. The resident caches are invisible: after any sequence of earlier hashes, under any parameters, \<^verbatim>\<open>PoWHash\<close> returns
  the hash that the header alone determines, at most six caches are resident, and the cache just used is one of them
  unless the size limit refused it.\<close>

theorem PoWHash_cache_transparent:
  fixes reqs :: "(CBlockHeader \<times> Params) list"
  defines "st \<equiv> fold (\<lambda>k st. snd ((case k of (hdr, params) \<Rightarrow> PoWHash hdr params) st)) reqs caches_init"
  shows "fst (PoWHash hdr params st) = pow_hash hdr params \<and>
    length (g_cache_by_key (snd (PoWHash hdr params st))) \<le> METALDAG_CACHE_ENTRIES \<and>
    (CacheResident (nTime hdr) params (snd (PoWHash hdr params st)) \<or>
     cache_size (GetEpochSizing (nTime hdr) params) > METALDAG_MAX_CACHE_BYTES)"
proof -
  let ?e = "GetEpochSizing (nTime hdr) params"
  have ok: "caches_ok st" unfolding st_def by (rule pow_cache.requests_ok [OF caches_init_ok])
  have "(epoch ?e, cache_size ?e) \<in> fst ` set (g_cache_by_key (snd (get_cache (epoch ?e) (cache_size ?e) st)))"
    using get_cache_correct [OF ok] by blast
  then have "CacheResident (nTime hdr) params (snd (PoWHash hdr params st)) \<or> cache_size ?e > METALDAG_MAX_CACHE_BYTES"
    by (auto simp: CacheResident_def PoWHash_def Let_def case_prod_beta map_of_eq_None_iff)
  then show ?thesis using PoWHash_pure [OF ok, of hdr params] by (simp add: caches_ok_def)
qed

text \<open>C24. For every header time and every parameter set, the dataset holds a prime number of pages and the cache a prime number
  of items, and both accesses of every round of the light hash fall inside the dataset, whatever the mix holds.\<close>

theorem dataset_indices_in_bounds:
  "\<exists>p q. prime_nat p \<and> prime_nat q \<and>
    full_size (GetEpochSizing time params) = p * MIX_BYTES \<and>
    length (mkcache (cache_size (GetEpochSizing time params)) seed) = q \<and>
    access_index (full_size (GetEpochSizing time params) div HASH_BYTES) s0 i mix + 1 < full_size (GetEpochSizing time params) div HASH_BYTES"
proof -
  obtain p q where pq: "prime_nat p" "prime_nat q" "full_size (GetEpochSizing time params) = p * 128"
    "cache_size (GetEpochSizing time params) = q * 64" using sizing_shape by blast
  then have "0 < p" "p * 128 div 64 = 2 * p" by (auto simp: prime_nat_def)
  with access_in_dataset [of p 1 s0 i mix] pq show ?thesis
    by (intro exI [of _ p] exI [of _ q]) (simp add: HASH_BYTES_def MIX_BYTES_def)
qed

text \<open>C25. The hand-written Keccak is the specified one: the in-place lane loop moves lane \<open>(x, y)\<close> to \<open>(y, 2x + 3y)\<close> turned by
  the specified offset, and the byte-wise sponge absorbs the message with the original multi-rate padding to a block boundary.\<close>

theorem keccak_matches_specification:
  assumes "length st = 25" "x < 5" "y < 5" "0 < r" "r \<le> 200"
  shows "keccak_rho_pi st ! (y + 5 * ((2 * x + 3 * y) mod 5)) = rol64 (st ! (x + 5 * y)) (rho_offset x y) \<and>
    keccak r inp n = keccak_squeeze (snd (keccak_absorb r (inp @ keccak_pad r (length inp)) 0 (replicate 25 0))) n \<and>
    (length inp + length (keccak_pad r (length inp))) mod r = 0"
  using rho_pi_lane [OF assms(1-3)] keccak_sponge [OF assms(4,5)] length_keccak_pad [OF assms(4)] by blast

theorem keccak_matches_specification_witness:
  "keccak_rho_pi (replicate 25 7) ! 10 = rol64 7 1 \<and>
   keccak 136 [1, 2] 32 = keccak_squeeze (snd (keccak_absorb 136 ([1, 2] @ keccak_pad 136 (length [1 :: byte, 2])) 0 (replicate 25 0))) 32"
proof -
  have "rho_offset 1 0 = 1" unfolding rho_offset_def rho_walk_table by simp
  moreover have "(0 :: nat) + 5 * ((2 * 1 + 3 * 0) mod 5) = 10" "replicate 25 (7 :: u64) ! (1 + 5 * 0) = 7" by simp_all
  moreover have "length (replicate 25 (7 :: u64)) = 25" "(1 :: nat) < 5" "(0 :: nat) < 5" "(0 :: nat) < 136" "(136 :: nat) \<le> 200" by simp_all
  note keccak_matches_specification [OF this, of "[1, 2]" 32]
  ultimately show ?thesis by (simp only:)
qed

text \<open>C26. The budget for building cold caches grants at most one build per interval, whatever the sequence of requests and
  clock readings.\<close>

theorem build_budget_spacing:
  assumes "0 \<le> interval"
  shows "sorted_wrt (\<lambda>x y. x + interval \<le> y) (budget_grants (budget_init interval) ts)"
  using budget_grants_spaced [of "budget_init interval" ts] assms by (simp add: budget_init_def)

theorem build_budget_spacing_witness:
  "budget_grants (budget_init 60) [100, 130, 165] = [100, 165] \<and> sorted_wrt (\<lambda>x y. x + 60 \<le> y) (budget_grants (budget_init 60) [100, 130, 165])"
  using build_budget_spacing [of 60 "[100, 130, 165]"] by (simp add: budget_Take_def budget_init_def)

end
