(* ===== verification/Pow.thy ===== *)
theory Pow
  imports Block_Chain Metal_Dag
begin

unbundle bit_operations_syntax

text \<open>
  \<^verbatim>\<open>pow.cpp\<close>: the difficulty rules (anchored ASERT and the older periodic retarget), the range check on
  difficulty transitions and the proof-of-work check.  \<open>None\<close> is a failed assertion or an exception.
  The lemmas show that ASERT always produces a valid target no easier than the limit, that its fixed-point
  arithmetic is exact in 64 bits, that a chain on schedule keeps the anchor target, that more delay never makes
  mining harder, and that header checks accept exactly the hashes below a well-formed target.
\<close>

section \<open>Anchored ASERT\<close>

text \<open>The signed 16.16 exponent: division rounds towards minus infinity.\<close>

definition asert_exponent :: "int \<Rightarrow> int \<Rightarrow> int" where
  "asert_exponent schedule_error half_life =
     (let numerator = schedule_error * 65536;
          e = c_div numerator half_life
      in if numerator < 0 \<and> c_mod numerator half_life \<noteq> 0 then e - 1 else e)"

definition asert_factor :: "u64 \<Rightarrow> u64" where
  "asert_factor frac =
     65536 + drop_bit 48 (195766423245049 * frac + 971821376 * frac * frac + 5127 * frac * frac * frac + push_bit 47 1)"

definition clamp_target :: "limbs \<Rightarrow> limbs \<Rightarrow> limbs" where
  "clamp_target bnPowLimit target =
     (let target = (if EqualTo target 0 then base_uint_of_u64 1 else target)
      in if uint_gt target bnPowLimit then bnPowLimit else target)"

definition asert_target :: "limbs \<Rightarrow> limbs \<Rightarrow> int \<Rightarrow> limbs" where
  "asert_target bnPowLimit anchor_target exponent =
     (let shifts = exponent div 65536;
          frac = of_int (exponent mod 65536);
          target = uint_mul32 (uint_shr anchor_target 16) (ucast (asert_factor frac))
      in if shifts < 0
         then (let right = - shifts
               in if right \<ge> 256 then base_uint_of_u64 1 else clamp_target bnPowLimit (uint_shr target (nat right)))
         else clamp_target bnPowLimit
                (if shifts \<ge> 256 \<or> uint_gt target (uint_shr bnPowLimit (nat shifts)) then bnPowLimit
                 else uint_shl target (nat shifts)))"

definition AsertGetNextWorkRequired :: "BlockMap \<Rightarrow> uint256 \<Rightarrow> Params \<Rightarrow> u32 option" where
  "AsertGetNextWorkRequired t pindexLast params =
     do {
       l \<leftarrow> t pindexLast;
       if fPowNoRetargeting params then Some (bi_nBits l)
       else if \<not> nASERTHalfLife params > 0 then None
       else do {
         ap \<leftarrow> GetAncestor t pindexLast 0;
         anchor \<leftarrow> t ap;
         let target = fst (SetCompact (bi_nBits anchor));
         let height_diff = nHeight l - nHeight anchor;
         let time_diff = GetBlockTime l - GetBlockTime anchor;
         let schedule_error = time_diff - height_diff * nPowTargetSpacing params;
         Some (GetCompact (asert_target (UintToArith256 (powLimit params)) target
           (asert_exponent schedule_error (nASERTHalfLife params))))
       }
     }"

section \<open>Periodic retarget\<close>

definition clamp_timespan :: "Params \<Rightarrow> int \<Rightarrow> int" where
  "clamp_timespan params nActualTimespan =
     (let n = (if nActualTimespan < c_div (nPowTargetTimespan params) 4 then c_div (nPowTargetTimespan params) 4 else nActualTimespan)
      in if n > nPowTargetTimespan params * 4 then nPowTargetTimespan params * 4 else n)"

text \<open>\<^verbatim>\<open>bn *= n; bn /= m; if (bn > limit) bn = limit\<close>: the factor is converted to 32 bits.\<close>

definition scale_target :: "limbs \<Rightarrow> limbs \<Rightarrow> int \<Rightarrow> int \<Rightarrow> limbs option" where
  "scale_target bnPowLimit bn n m =
     do { bn \<leftarrow> uint_div (uint_mul32 bn (of_int n)) (base_uint_of_u64 (of_int m));
          Some (if uint_gt bn bnPowLimit then bnPowLimit else bn) }"

definition CalculateNextWorkRequired :: "BlockMap \<Rightarrow> uint256 \<Rightarrow> int \<Rightarrow> Params \<Rightarrow> u32 option" where
  "CalculateNextWorkRequired t pindexLast nFirstBlockTime params =
     do {
       l \<leftarrow> t pindexLast;
       if fPowNoRetargeting params then Some (bi_nBits l)
       else do {
         let nActualTimespan = clamp_timespan params (GetBlockTime l - nFirstBlockTime);
         bits \<leftarrow> (if enforce_BIP94 params
                 then do { p \<leftarrow> GetAncestor t pindexLast (nHeight l - (DifficultyAdjustmentInterval params - 1));
                           b \<leftarrow> t p; Some (bi_nBits b) }
                 else Some (bi_nBits l));
         bnNew \<leftarrow> scale_target (UintToArith256 (powLimit params)) (fst (SetCompact bits)) nActualTimespan (nPowTargetTimespan params);
         Some (GetCompact bnNew)
       }
     }"

text \<open>The walk back over blocks mined at the minimum difficulty.\<close>

partial_function (option) skip_min_difficulty :: "BlockMap \<Rightarrow> Params \<Rightarrow> u32 \<Rightarrow> uint256 \<Rightarrow> u32 option" where
  "skip_min_difficulty t params nProofOfWorkLimit pindex =
     do { b \<leftarrow> t pindex;
          if pprev b \<noteq> None \<and> c_mod (nHeight b) (DifficultyAdjustmentInterval params) \<noteq> 0 \<and> bi_nBits b = nProofOfWorkLimit
          then skip_min_difficulty t params nProofOfWorkLimit (the (pprev b))
          else Some (bi_nBits b) }"

definition GetNextWorkRequired :: "BlockMap \<Rightarrow> uint256 \<Rightarrow> CBlockHeader \<Rightarrow> Params \<Rightarrow> u32 option" where
  "GetNextWorkRequired t pindexLast pblock params =
     do {
       l \<leftarrow> t pindexLast;
       let nProofOfWorkLimit = GetCompact (UintToArith256 (powLimit params));
       if nHeight l + 1 \<ge> nASERTActivationHeight params then AsertGetNextWorkRequired t pindexLast params
       else if c_mod (nHeight l + 1) (DifficultyAdjustmentInterval params) \<noteq> 0
       then (if fPowAllowMinDifficultyBlocks params
             then (if uint (nTime pblock) > GetBlockTime l + nPowTargetSpacing params * 2 then Some nProofOfWorkLimit
                   else skip_min_difficulty t params nProofOfWorkLimit pindexLast)
             else Some (bi_nBits l))
       else do {
         let nHeightFirst = nHeight l - (DifficultyAdjustmentInterval params - 1);
         p \<leftarrow> (if nHeightFirst \<ge> 0 then GetAncestor t pindexLast nHeightFirst else None);
         b \<leftarrow> t p;
         CalculateNextWorkRequired t pindexLast (GetBlockTime b) params
       }
     }"

section \<open>Permitted transitions\<close>

text \<open>A target rounded through its compact form.\<close>

definition rounded :: "limbs \<Rightarrow> limbs" where
  "rounded a = fst (SetCompact (GetCompact a))"

definition PermittedDifficultyTransition :: "Params \<Rightarrow> int \<Rightarrow> u32 \<Rightarrow> u32 \<Rightarrow> bool option" where
  "PermittedDifficultyTransition params h old_nbits new_nbits =
     (let pow_limit = UintToArith256 (powLimit params);
          observed_new_target = fst (SetCompact new_nbits);
          old_target = fst (SetCompact old_nbits)
      in if fPowAllowMinDifficultyBlocks params then Some True
         else if h \<ge> nASERTActivationHeight params
         then (if uint_gt observed_new_target pow_limit then Some False
               else do { hardest_allowed \<leftarrow> uint_div old_target (base_uint_of_u64 4);
                         Some (\<not> uint_gt (rounded hardest_allowed) observed_new_target) })
         else if c_mod h (DifficultyAdjustmentInterval params) = 0
         then do {
           largest_difficulty_target \<leftarrow> scale_target pow_limit old_target (nPowTargetTimespan params * 4) (nPowTargetTimespan params);
           if uint_gt observed_new_target (rounded largest_difficulty_target) then Some False
           else do {
             smallest_difficulty_target \<leftarrow> scale_target pow_limit old_target (c_div (nPowTargetTimespan params) 4) (nPowTargetTimespan params);
             Some (\<not> uint_gt (rounded smallest_difficulty_target) observed_new_target)
           }
         }
         else Some (old_nbits = new_nbits))"

section \<open>Checking a hash\<close>

definition DeriveTarget :: "u32 \<Rightarrow> uint256 \<Rightarrow> limbs option" where
  "DeriveTarget bits pow_limit =
     (let (bnTarget, fNegative, fOverflow) = SetCompact bits
      in if fNegative \<or> EqualTo bnTarget 0 \<or> fOverflow \<or> uint_gt bnTarget (UintToArith256 pow_limit) then None else Some bnTarget)"

definition CheckProofOfWorkImpl :: "uint256 \<Rightarrow> u32 \<Rightarrow> Params \<Rightarrow> bool" where
  "CheckProofOfWorkImpl hash bits params =
     (case DeriveTarget bits (powLimit params) of None \<Rightarrow> False
      | Some bnTarget \<Rightarrow> if uint_gt (UintToArith256 hash) bnTarget then False else True)"

text \<open>The build flag of fuzzing binaries is an argument.\<close>

definition CheckProofOfWork_hash :: "bool \<Rightarrow> uint256 \<Rightarrow> u32 \<Rightarrow> Params \<Rightarrow> bool" where
  "CheckProofOfWork_hash EnableFuzzDeterminism hash bits params =
     (if EnableFuzzDeterminism then hash ! 31 AND 0x80 = 0 else CheckProofOfWorkImpl hash bits params)"

definition CheckProofOfWork :: "bool \<Rightarrow> CBlockHeader \<Rightarrow> u32 \<Rightarrow> Params \<Rightarrow> CacheState \<Rightarrow> bool \<times> CacheState" where
  "CheckProofOfWork EnableFuzzDeterminism hdr bits params st =
     (if BlockHash hdr = hashGenesisBlock params then (True, st)
      else if EnableFuzzDeterminism then (BlockHash hdr ! 31 AND 0x80 = 0, st)
      else (case PoWHash hdr params st of (hash, st') \<Rightarrow> (CheckProofOfWorkImpl hash bits params, st')))"

section \<open>Rounding to the compact form\<close>

lemma length_rounded [simp]: "length (rounded a) = WIDTH"
proof -
  obtain v negative overflow where s: "SetCompact (GetCompact a) = (v, negative, overflow)" by (cases "SetCompact (GetCompact a)")
  then show ?thesis using SetCompact_spec(1) [OF s] by (simp add: rounded_def)
qed

text \<open>A number keeps its leading 15 to 23 bits.\<close>

lemma rounded_form:
  assumes "length a = WIDTH"
  obtains e where "uval (rounded a) = uval a div 256 ^ e * 256 ^ e" "uval a div 256 ^ e < 2 ^ 23" "e = 0 \<or> uval a = 0 \<or> 2 ^ 15 \<le> uval a div 256 ^ e"
proof -
  obtain v negative overflow where s: "SetCompact (GetCompact a) = (v, negative, overflow)" by (cases "SetCompact (GetCompact a)")
  obtain sz w where p: "GetCompact_parts a = (sz, w)" by fastforce
  note A = GetCompact_assertions [OF assms p]
  have v: "uval (rounded a) = uval a div 256 ^ (sz - 3) * 256 ^ (sz - 3)"
    using SetCompact_GetCompact(3) [OF assms p s] s by (simp add: rounded_def)
  show ?thesis
  proof (cases "sz \<le> 3")
    case True
    then have "unat w div 256 ^ (3 - sz) = uval a" using A(4) by (simp add: compact_value_def)
    then have "uval a \<le> unat w" by (metis div_le_dividend)
    then show ?thesis using that [of 0] v True A(1) by simp
  next
    case False
    then have "unat w = uval a div 256 ^ (sz - 3)" using A(4) by (simp add: compact_value_def)
    then show ?thesis using that [of "sz - 3"] v A(1,3) by auto
  qed
qed

lemma trunc_mono:
  fixes a b :: nat
  assumes "a \<le> b" "a div 256 ^ d < 2 ^ 23" "b div 256 ^ e < 2 ^ 23" "d = 0 \<or> a = 0 \<or> 2 ^ 15 \<le> a div 256 ^ d" "e = 0 \<or> b = 0 \<or> 2 ^ 15 \<le> b div 256 ^ e"
  shows "a div 256 ^ d * 256 ^ d \<le> b div 256 ^ e * 256 ^ e"
proof (cases "b = 0 \<or> a = 0")
  case False
  consider "d = e" | "d < e" | "e < d" by linarith
  then show ?thesis
  proof cases
    case 1
    then show ?thesis using assms(1) by (simp add: div_le_mono)
  next
    case 2
    then have "2 ^ 15 \<le> b div 256 ^ e" using assms(5) False by auto
    have "256 * 256 ^ d \<le> (256 :: nat) ^ e" using power_increasing [of "Suc d" e "256 :: nat"] 2 by simp
    have "a div 256 ^ d * 256 ^ d \<le> 2 ^ 23 * 256 ^ d" using assms(2) by (intro mult_le_mono1) simp
    also have "\<dots> \<le> 2 ^ 15 * 256 ^ e" using \<open>256 * 256 ^ d \<le> 256 ^ e\<close> by simp
    also have "\<dots> \<le> b div 256 ^ e * 256 ^ e" using \<open>2 ^ 15 \<le> b div 256 ^ e\<close> by (rule mult_le_mono1)
    finally show ?thesis .
  next
    case 3
    then have "2 ^ 15 \<le> a div 256 ^ d" using assms(4) False by auto
    have "256 * 256 ^ e \<le> (256 :: nat) ^ d" using power_increasing [of "Suc e" d "256 :: nat"] 3 by simp
    have "b < (b div 256 ^ e + 1) * 256 ^ e" using dividend_less_div_times [of "256 ^ e" b] by (simp add: ac_simps)
    also have "\<dots> \<le> 2 ^ 23 * 256 ^ e" using assms(3) by (intro mult_le_mono1) simp
    also have "\<dots> \<le> 2 ^ 15 * 256 ^ d" using \<open>256 * 256 ^ e \<le> 256 ^ d\<close> by simp
    also have "\<dots> \<le> a div 256 ^ d * 256 ^ d" using \<open>2 ^ 15 \<le> a div 256 ^ d\<close> by (rule mult_le_mono1)
    also have "\<dots> \<le> a" by (rule div_times_less_eq_dividend)
    finally show ?thesis using assms(1) by simp
  qed
qed (use assms(1) in auto)

lemma rounded_mono:
  assumes "length a = WIDTH" "length b = WIDTH" "uval a \<le> uval b"
  shows "uval (rounded a) \<le> uval (rounded b)"
  by (rule rounded_form [OF assms(1)], rule rounded_form [OF assms(2)]) (simp only: trunc_mono [OF assms(3)])

lemma rounded_le: "length a = WIDTH \<Longrightarrow> uval (rounded a) \<le> uval a"
  by (rule rounded_form [of a]) (simp_all add: div_times_less_eq_dividend)

lemma rounded_pos:
  assumes "length a = WIDTH" "0 < uval a"
  shows "0 < uval (rounded a)"
  by (rule rounded_form [OF assms(1)]) (use assms(2) in auto)

section \<open>The arithmetic of ASERT\<close>

definition asert_factor_nat :: "nat \<Rightarrow> nat" where
  "asert_factor_nat f = 65536 + (195766423245049 * f + 971821376 * f ^ 2 + 5127 * f ^ 3 + 2 ^ 47) div 2 ^ 48"

lemma unat_add_exact: "unat x + unat y < 2 ^ 64 \<Longrightarrow> unat (x + y :: u64) = unat x + unat y"
  by (simp add: unat_word_ariths)

lemma unat_mult_exact: "unat x * unat y < 2 ^ 64 \<Longrightarrow> unat (x * y :: u64) = unat x * unat y"
  by (simp add: unat_word_ariths)

lemma asert_factor_exact:
  assumes "f < 65536"
  shows "unat (asert_factor (of_nat f)) = asert_factor_nat f"
proof -
  have f: "unat (of_nat f :: u64) = f" using assms by (simp add: unat_of_nat take_bit_nat_eq_self)
  have f2: "f * f \<le> 65535 * 65535" and f3: "f * f * f \<le> 65535 * 65535 * 65535" using assms by (intro mult_le_mono; simp)+
  have m1: "unat (195766423245049 * of_nat f :: u64) = 195766423245049 * f" using f assms by (subst unat_mult_exact) auto
  have m2: "unat (971821376 * of_nat f * of_nat f :: u64) = 971821376 * (f * f)"
  proof -
    have "unat (971821376 * of_nat f :: u64) = 971821376 * f" using f assms by (subst unat_mult_exact) auto
    then show ?thesis using f f2 by (subst unat_mult_exact) auto
  qed
  have m3: "unat (5127 * of_nat f * of_nat f * of_nat f :: u64) = 5127 * (f * f * f)"
  proof -
    have "unat (5127 * of_nat f :: u64) = 5127 * f" using f assms by (subst unat_mult_exact) auto
    then have "unat (5127 * of_nat f * of_nat f :: u64) = 5127 * (f * f)" using f f2 by (subst unat_mult_exact) auto
    then show ?thesis using f f3 by (subst unat_mult_exact) (auto simp: algebra_simps)
  qed
  have p: "unat (push_bit 47 1 :: u64) = 2 ^ 47" by simp
  let ?p = "195766423245049 * f + 971821376 * (f * f) + 5127 * (f * f * f) + 2 ^ 47"
  have "unat (195766423245049 * of_nat f + 971821376 * of_nat f * of_nat f + 5127 * of_nat f * of_nat f * of_nat f + push_bit 47 1 :: u64) = ?p"
    using assms f2 f3 m1 m2 m3 p by (simp add: unat_add_exact)
  then have d: "unat (drop_bit 48 (195766423245049 * of_nat f + 971821376 * of_nat f * of_nat f + 5127 * of_nat f * of_nat f * of_nat f + push_bit 47 1 :: u64)) = ?p div 2 ^ 48"
    by (simp only: unat_drop_bit)
  have "?p div 2 ^ 48 < 2 ^ 63" using assms f2 f3 by (intro less_mult_imp_div_less) simp
  then show ?thesis unfolding asert_factor_def asert_factor_nat_def using d by (subst unat_add_exact) (auto simp: power2_eq_square power3_eq_cube)
qed

lemma asert_factor_mono: "f \<le> g \<Longrightarrow> asert_factor_nat f \<le> asert_factor_nat g"
  unfolding asert_factor_nat_def by (intro add_mono div_le_mono mult_le_mono power_mono) auto

lemma asert_factor_range: "f < 65536 \<Longrightarrow> 65536 \<le> asert_factor_nat f \<and> asert_factor_nat f \<le> 131072"
proof -
  assume "f < 65536"
  then have "asert_factor_nat f \<le> asert_factor_nat 65535" by (intro asert_factor_mono) simp
  also have "asert_factor_nat 65535 \<le> 131072" by (simp add: asert_factor_nat_def)
  finally show ?thesis by (simp add: asert_factor_nat_def)
qed

lemma asert_factor_0: "asert_factor_nat 0 = 65536"
  by (simp add: asert_factor_nat_def)

lemma asert_exponent_floor: "0 < half_life \<Longrightarrow> asert_exponent err half_life = err * 65536 div half_life"
proof -
  assume h: "0 < half_life"
  show ?thesis
  proof (cases "0 \<le> err * 65536")
    case True
    then show ?thesis using h by (simp add: asert_exponent_def c_div_nonneg)
  next
    case False
    then have e: "c_div (err * 65536) half_life = - (- (err * 65536) div half_life)" using h by (simp add: c_div_def sgn_if)
    let ?n = "- (err * 65536)"
    have m: "c_mod (err * 65536) half_life = - (?n mod half_life)"
      unfolding c_mod_def e by (simp add: minus_mult_div_eq_mod [symmetric])
    have "err * 65536 div half_life = (if ?n mod half_life = 0 then - (?n div half_life) else - (?n div half_life) - 1)"
      using zdiv_zminus1_eq_if [of half_life ?n] h by simp
    then show ?thesis using False unfolding asert_exponent_def Let_def m e by auto
  qed
qed

text \<open>The target before rounding, in closed form: anchor times two to the exponent, floored and kept in range.\<close>

definition asert_scaled :: "nat \<Rightarrow> int \<Rightarrow> nat" where
  "asert_scaled A e =
     (let T = A div 65536 * asert_factor_nat (nat (e mod 65536)) in if e < 0 then T div 2 ^ nat (- (e div 65536)) else T * 2 ^ nat (e div 65536))"

definition asert_value :: "nat \<Rightarrow> nat \<Rightarrow> int \<Rightarrow> nat" where
  "asert_value L A e = max 1 (min L (asert_scaled A e))"

lemma uval_clamp:
  assumes "length a = WIDTH" "length L = WIDTH" "1 \<le> uval L"
  shows "uval (clamp_target L a) = max 1 (min (uval L) (uval a)) \<and> length (clamp_target L a) = WIDTH"
proof -
  have "EqualTo a 0 \<longleftrightarrow> uval a = 0" using EqualTo_iff [of a 0] assms(1) by (simp add: WIDTH_def)
  then show ?thesis using assms by (auto simp: clamp_target_def Let_def)
qed

lemma mult_pow_gt_iff: "0 < k \<Longrightarrow> (L :: nat) div k < t \<longleftrightarrow> L < t * k"
  using less_eq_div_iff_mult_less_eq [of k t L] by (meson leD leI)

lemma asert_base:
  assumes "length a = WIDTH" "uval a < 2 ^ 255"
  shows "uval (uint_mul32 (uint_shr a 16) (ucast (asert_factor (of_int (e mod 65536))))) = uval a div 65536 * asert_factor_nat (nat (e mod 65536))"
    "uval a div 65536 * asert_factor_nat (nat (e mod 65536)) < 2 ^ 256"
proof -
  define f where "f = nat (e mod 65536)"
  have f: "f < 65536" "(of_int (e mod 65536) :: u64) = of_nat f" by (auto simp: f_def nat_less_iff)
  have r: "asert_factor_nat f \<le> 131072" using asert_factor_range f by simp
  have F: "unat (ucast (asert_factor (of_nat f)) :: u32) = asert_factor_nat f"
    using asert_factor_exact [OF f(1)] r by (simp add: unat_low32)
  have "uval a div 65536 < 2 ^ 239" using assms(2) by (intro less_mult_imp_div_less) simp
  then have "uval a div 65536 * asert_factor_nat f < 2 ^ 239 * 131072"
    using r by (intro mult_less_le_imp_less) (auto simp: asert_factor_nat_def)
  then show lt: "uval a div 65536 * asert_factor_nat (nat (e mod 65536)) < 2 ^ 256" by (simp add: f_def)
  show "uval (uint_mul32 (uint_shr a 16) (ucast (asert_factor (of_int (e mod 65536))))) = uval a div 65536 * asert_factor_nat (nat (e mod 65536))"
    using lt F assms(1) unfolding f(2) by (simp add: uval_mul32 uval_shr WIDTH_def f_def)
qed

lemma uval_asert_target:
  assumes "length L = WIDTH" "length a = WIDTH" "1 \<le> uval L" "uval a < 2 ^ 255" "2 ^ 16 \<le> uval a"
  shows "uval (asert_target L a e) = asert_value (uval L) (uval a) e \<and> length (asert_target L a e) = WIDTH"
proof -
  define t where "t = uint_mul32 (uint_shr a 16) (ucast (asert_factor (of_int (e mod 65536))))"
  define T where "T = uval a div 65536 * asert_factor_nat (nat (e mod 65536))"
  have t: "uval t = T" "length t = WIDTH" "T < 2 ^ 256" using asert_base [OF assms(2,4)] assms(2) by (simp_all add: t_def T_def)
  have L: "uval L < 2 ^ 256" using uval_bound [of L] assms(1) by (simp add: WIDTH_def)
  have sc: "asert_scaled (uval a) e = (if e < 0 then T div 2 ^ nat (- (e div 65536)) else T * 2 ^ nat (e div 65536))"
    by (simp add: asert_scaled_def T_def Let_def)
  have neg: "e div 65536 < 0 \<longleftrightarrow> e < 0" by auto
  consider (far) "e div 65536 < 0" "- (e div 65536) \<ge> 256" | (right) "e div 65536 < 0" "\<not> - (e div 65536) \<ge> 256" | (left) "\<not> e div 65536 < 0" by blast
  then show ?thesis
  proof cases
    case far
    have "T < 2 ^ nat (- (e div 65536))" using t(3) power_increasing [of 256 "nat (- (e div 65536))" "2 :: nat"] far by linarith
    then have "asert_scaled (uval a) e = 0" using sc far neg by simp
    then show ?thesis using far assms(3) by (simp add: asert_target_def asert_value_def Let_def)
  next
    case right
    then show ?thesis using uval_clamp [of "uint_shr t (nat (- (e div 65536)))" L] assms t neg sc
      by (simp add: asert_target_def asert_value_def Let_def uval_shr flip: t_def)
  next
    case left
    define k where "k = nat (e div 65536)"
    have s: "asert_scaled (uval a) e = T * 2 ^ k" using sc left neg by (simp add: k_def)
    have gt: "uint_gt t (uint_shr L k) \<longleftrightarrow> uval L < T * 2 ^ k" using t assms(1) mult_pow_gt_iff [of "2 ^ k" "uval L" T] by (simp add: uval_shr)
    have tl: "asert_target L a e = clamp_target L (if e div 65536 \<ge> 256 \<or> uint_gt t (uint_shr L k) then L else uint_shl t k)"
      using left by (simp add: asert_target_def Let_def k_def flip: t_def)
    show ?thesis
    proof (cases "e div 65536 \<ge> 256 \<or> uint_gt t (uint_shr L k)")
      case True
      have "0 < uval a div 65536" using assms(5) by (simp add: div_greater_zero_iff)
      then have T: "0 < T" by (simp add: T_def asert_factor_nat_def)
      have "uval L \<le> T * 2 ^ k"
      proof (cases "uint_gt t (uint_shr L k)")
        case False
        then have "256 \<le> k" using True by (simp add: k_def)
        then have "(2 :: nat) ^ 256 \<le> 2 ^ k" by (intro power_increasing) auto
        moreover have "(2 :: nat) ^ k \<le> T * 2 ^ k" using T by simp
        ultimately show ?thesis using L by linarith
      qed (use gt in simp)
      then show ?thesis using tl True uval_clamp [of L L] assms s by (simp add: asert_value_def)
    next
      case False
      then have "T * 2 ^ k \<le> uval L" using gt by simp
      then have "uval (uint_shl t k) = T * 2 ^ k" using t L by (simp add: uval_shl WIDTH_def)
      then show ?thesis using tl False uval_clamp [of "uint_shl t k" L] assms t s by (simp add: asert_value_def)
    qed
  qed
qed
text \<open>Floored scaling by a power of two.\<close>

definition scale2 :: "nat \<Rightarrow> int \<Rightarrow> nat" where
  "scale2 T q = (if q < 0 then T div 2 ^ nat (- q) else T * 2 ^ nat q)"

lemma asert_scaled_scale2: "asert_scaled A e = scale2 (A div 65536 * asert_factor_nat (nat (e mod 65536))) (e div 65536)"
proof -
  have "e div 65536 < 0 \<longleftrightarrow> e < 0" by auto
  then show ?thesis by (simp add: asert_scaled_def scale2_def Let_def)
qed

lemma scale2_mono: "T \<le> U \<Longrightarrow> scale2 T q \<le> scale2 U q"
  by (simp add: scale2_def div_le_mono)

lemma scale2_double: "scale2 (2 * T) q = scale2 T (q + 1)"
proof (cases "q < 0")
  case True
  define k where "k = nat (- q) - 1"
  have q: "q = - 1 - int k" using True by (simp add: k_def)
  then have n: "nat (- q) = Suc k" "nat (- (q + 1)) = k" by simp_all
  show ?thesis
  proof (cases k)
    case 0
    then show ?thesis using q by (simp add: scale2_def)
  next
    case (Suc i)
    then have "q + 1 < 0" using q by simp
    then show ?thesis using True n by (simp add: scale2_def)
  qed
next
  case False
  then show ?thesis by (simp add: scale2_def nat_add_distrib)
qed

lemma scale2_mono2: "scale2 T q \<le> scale2 T (q + int k)"
proof (induction k)
  case (Suc k)
  have "scale2 T (q + int k) \<le> scale2 (2 * T) (q + int k)" by (rule scale2_mono) simp
  also have "\<dots> = scale2 T (q + int (Suc k))" unfolding scale2_double by (simp add: ac_simps)
  finally show ?case using Suc by linarith
qed simp

lemma asert_scaled_mono:
  assumes "e1 \<le> e2"
  shows "asert_scaled A e1 \<le> asert_scaled A e2"
proof -
  define F where "F e = asert_factor_nat (nat (e mod 65536))" for e
  have F: "65536 \<le> F e" "F e \<le> 131072" for e using asert_factor_range [of "nat (e mod 65536)"] by (auto simp: F_def nat_less_iff)
  have q: "e1 div 65536 \<le> e2 div 65536" using assms by (rule zdiv_mono1) simp
  show ?thesis
  proof (cases "e1 div 65536 = e2 div 65536")
    case True
    then have "e1 mod 65536 \<le> e2 mod 65536" using assms div_mult_mod_eq [of e1 65536] div_mult_mod_eq [of e2 65536] by linarith
    then have "F e1 \<le> F e2" unfolding F_def by (intro asert_factor_mono) (simp add: nat_mono)
    then show ?thesis unfolding asert_scaled_scale2 True F_def [symmetric] by (intro scale2_mono) simp
  next
    case False
    then obtain k where k: "e2 div 65536 = (e1 div 65536 + 1) + int k" using q by (metis add.commute le_less zle_iff_zadd zless_imp_add1_zle)
    have "A div 65536 * F e1 \<le> 2 * (A div 65536 * F e2)" using F(2) [of e1] F(1) [of e2] mult_le_mono2 [of "F e1" "2 * F e2" "A div 65536"] by simp
    then have "scale2 (A div 65536 * F e1) (e1 div 65536) \<le> scale2 (2 * (A div 65536 * F e2)) (e1 div 65536)" by (rule scale2_mono)
    also have "\<dots> \<le> scale2 (A div 65536 * F e2) (e2 div 65536)" unfolding scale2_double k by (rule scale2_mono2)
    finally show ?thesis unfolding asert_scaled_scale2 F_def .
  qed
qed

lemma asert_value_mono: "e1 \<le> e2 \<Longrightarrow> asert_value L A e1 \<le> asert_value L A e2"
  using asert_scaled_mono [of e1 e2 A] by (auto simp: asert_value_def)

lemma asert_value_range: "1 \<le> L \<Longrightarrow> 1 \<le> asert_value L A e \<and> asert_value L A e \<le> L"
  by (simp add: asert_value_def)

text \<open>Two half-lives are a factor of four.\<close>

lemma scale2_quarter: "scale2 T (q - 2) = scale2 T q div 4"
proof -
  have "scale2 T (q - 2) = scale2 T q div 4"
  proof (cases "q \<ge> 2")
    case True
    then have "nat q = nat (q - 2) + 2" by simp
    then show ?thesis using True by (simp add: scale2_def power_add)
  next
    case False
    then consider "q = 0" | "q = 1" | "q < 0" by linarith
    then show ?thesis
    proof cases
      case 3
      then have "nat (- (q - 2)) = nat (- q) + 2" by simp
      then show ?thesis using 3 by (simp add: scale2_def power_add div_mult2_eq [symmetric] mult.commute)
    next
      case 2
      have "T * 2 div 4 = T div 2" by simp
      then show ?thesis using 2 by (simp add: scale2_def)
    qed (simp add: scale2_def)
  qed
  then show ?thesis .
qed

lemma asert_value_quarter:
  assumes "e1 - 131072 \<le> e2" "1 \<le> L"
  shows "asert_value L A e1 div 4 \<le> asert_value L A e2"
proof -
  have e: "e1 - 131072 = e1 + - 2 * 65536" by simp
  have "(e1 - 131072) mod 65536 = e1 mod 65536" unfolding e by (rule mod_mult_self1)
  moreover have "(e1 - 131072) div 65536 = e1 div 65536 - 2" unfolding e by (subst div_mult_self1) simp_all
  ultimately have "asert_scaled A (e1 - 131072) = asert_scaled A e1 div 4" by (simp add: asert_scaled_scale2 scale2_quarter)
  then have "asert_scaled A e1 div 4 \<le> asert_scaled A e2" using asert_scaled_mono [OF assms(1), of A] by simp
  moreover have "max 1 (min L x) div 4 \<le> max 1 (min L y)" if le: "x div 4 \<le> y" for x y :: nat
  proof -
    have "max 1 m div 4 \<le> m div 4" for m :: nat by (cases m) auto
    also have "min L x div 4 \<le> min L y" using le div_le_mono [of "min L x" x 4] div_le_dividend [of "min L x" 4] by linarith
    finally show ?thesis by linarith
  qed
  ultimately show ?thesis by (simp add: asert_value_def)
qed

section \<open>Well-formed targets\<close>

lemma SetCompact_GetCompact_rounded:
  assumes "length a = WIDTH"
  shows "SetCompact (GetCompact a) = (rounded a, False, False)"
proof -
  obtain v negative overflow where s: "SetCompact (GetCompact a) = (v, negative, overflow)" by (cases "SetCompact (GetCompact a)")
  obtain sz w where p: "GetCompact_parts a = (sz, w)" by fastforce
  show ?thesis using SetCompact_GetCompact(1,2) [OF assms p s] s by (simp add: rounded_def)
qed

lemma DeriveTarget_GetCompact:
  assumes "length a = WIDTH" "1 \<le> uval a" "uval a \<le> uval (UintToArith256 limit)"
  shows "DeriveTarget (GetCompact a) limit = Some (rounded a)"
proof -
  have "EqualTo (rounded a) 0 \<longleftrightarrow> uval (rounded a) = 0" using EqualTo_iff [of "rounded a" 0] by (simp add: WIDTH_def)
  moreover have "0 < uval (rounded a)" "uval (rounded a) \<le> uval a" using rounded_pos rounded_le assms by auto
  ultimately show ?thesis using assms by (simp add: DeriveTarget_def SetCompact_GetCompact_rounded)
qed

lemma rounded_precision: "length a = WIDTH \<Longrightarrow> (uval a - uval (rounded a)) * 2 ^ 15 \<le> uval (rounded a)"
  by (rule compact_precision(2) [OF _ SetCompact_GetCompact_rounded])

lemma uint_div4: "length a = WIDTH \<Longrightarrow> \<exists>q. uint_div a (base_uint_of_u64 4) = Some q \<and> length q = WIDTH \<and> uval q = uval a div 4"
  using uint_div_spec [of a "base_uint_of_u64 4"] by (cases "uint_div a (base_uint_of_u64 4)") auto

text \<open>C27. The next target under anchored ASERT always exists and is a valid target: for every chain with retargeting on and a positive half-life whose anchor has a target between
  \<open>2\<^sup>1\<^sup>6\<close> and \<open>2\<^sup>2\<^sup>5\<^sup>5\<close>, the required \<^verbatim>\<open>nBits\<close> decodes to a target between 1 and the limit, and that target is the anchor
  target scaled by two to the power of schedule error over half-life (cubic approximation, exact in 64-bit arithmetic), up to the
  rounding of the compact form.\<close>

theorem asert_valid_target:
  assumes "index_ok t" "t p = Some b" "\<not> fPowNoRetargeting params" "0 < nASERTHalfLife params"
    "1 \<le> uval (UintToArith256 (powLimit params))"
    "anc t p 0 = Some g" "t g = Some a" "2 ^ 16 \<le> uval (fst (SetCompact (bi_nBits a)))" "uval (fst (SetCompact (bi_nBits a))) < 2 ^ 255"
  shows "\<exists>bits T. AsertGetNextWorkRequired t p params = Some bits \<and> DeriveTarget bits (powLimit params) = Some T \<and>
    (let V = asert_value (uval (UintToArith256 (powLimit params))) (uval (fst (SetCompact (bi_nBits a))))
       ((GetBlockTime b - GetBlockTime a - nHeight b * nPowTargetSpacing params) * 65536 div nASERTHalfLife params)
     in 1 \<le> uval T \<and> uval T \<le> V \<and> V \<le> uval (UintToArith256 (powLimit params)) \<and> (V - uval T) * 2 ^ 15 \<le> uval T)"
proof -
  define L where "L = UintToArith256 (powLimit params)"
  define A where "A = fst (SetCompact (bi_nBits a))"
  have len: "length L = WIDTH" "length A = WIDTH"
    using SetCompact_spec(1) [of "bi_nBits a"] by (auto simp: L_def A_def prod_eq_iff)
  have d: "p \<in> dom t" "height t p = nHeight b" using assms(2) by (auto simp: height_def)
  have d0: "0 \<le> height t p" by (rule height_nonneg [OF assms(1) d(1)])
  have g: "GetAncestor t p 0 = Some g" using GetAncestor_anc [OF assms(1) d(1), of 0] d d0 assms(6) by simp
  have "height t g = 0" using anc_defined [OF assms(1) d(1), of 0] d0 assms(6) by auto
  then have h: "nHeight a = 0" using assms(7) by (simp add: height_def)
  define e where "e = (GetBlockTime b - GetBlockTime a - nHeight b * nPowTargetSpacing params) * 65536 div nASERTHalfLife params"
  have v: "uval (asert_target L A e) = asert_value (uval L) (uval A) e" "length (asert_target L A e) = WIDTH"
    using uval_asert_target [OF len, of e] assms(5,8,9) by (auto simp: L_def A_def)
  have r: "AsertGetNextWorkRequired t p params = Some (GetCompact (asert_target L A e))"
    using assms(2-4,7) g h asert_exponent_floor [OF assms(4)] by (simp add: AsertGetNextWorkRequired_def Let_def L_def A_def e_def)
  have range: "1 \<le> asert_value (uval L) (uval A) e" "asert_value (uval L) (uval A) e \<le> uval L"
    using asert_value_range assms(5) by (auto simp: L_def)
  then have t: "DeriveTarget (GetCompact (asert_target L A e)) (powLimit params) = Some (rounded (asert_target L A e))"
    using v by (intro DeriveTarget_GetCompact) (auto simp: L_def)
  have "1 \<le> uval (rounded (asert_target L A e))" "uval (rounded (asert_target L A e)) \<le> asert_value (uval L) (uval A) e"
    using rounded_pos [OF v(2)] rounded_le [OF v(2)] range v(1) by auto
  then show ?thesis using r t v range rounded_precision [OF v(2)] by (auto simp: Let_def L_def A_def e_def)
qed
lemma example_target:
  "uval (fst (SetCompact 0x1d00ffff)) = 0xffff * 2 ^ 208" "length (fst (SetCompact bits)) = WIDTH"
proof -
  show "length (fst (SetCompact bits)) = WIDTH" using SetCompact_spec(1) [of bits] by (metis prod.collapse)
  have "uval (fst (SetCompact 0x1d00ffff)) = compact_value (unat (0x1d00ffff :: u32) div 2 ^ 24) (unat (0x1d00ffff :: u32) mod 2 ^ 23) mod 2 ^ 256"
    using SetCompact_spec(2) [of "0x1d00ffff"] by (metis prod.collapse)
  also have "\<dots> = 0xffff * 2 ^ 208" by (simp add: compact_value_def)
  finally show "uval (fst (SetCompact 0x1d00ffff)) = 0xffff * 2 ^ 208" .
qed

lemma mainnet_limit: "uval (UintToArith256 (powLimit CMainParams_consensus)) = 2 ^ 236 - 1"
  by (subst uval_UintToArith256) (simp_all add: CMainParams_consensus_def replicate_byte_numeral)

theorem asert_valid_target_witness:
  "\<exists>bits T. AsertGetNextWorkRequired example_index [4] CMainParams_consensus = Some bits \<and>
     DeriveTarget bits (powLimit CMainParams_consensus) = Some T \<and> 1 \<le> uval T"
proof -
  obtain b where b: "example_index [4] = Some b" using example_index_ok(2) by blast
  obtain a where a: "example_index [1] = Some a" using example_index_ok(2) by blast
  have "bi_nBits (the (example_index [1])) = 0x1d00ffff" by (simp add: example_simps)
  then have n: "bi_nBits a = 0x1d00ffff" using a by simp
  have g: "anc example_index [4] 0 = Some [1]" using example_grandparent example_heights(4) by (simp add: anc_def)
  have p: "\<not> fPowNoRetargeting CMainParams_consensus" "0 < nASERTHalfLife CMainParams_consensus" by (simp_all add: CMainParams_consensus_def)
  have l: "1 \<le> uval (UintToArith256 (powLimit CMainParams_consensus))" by (simp add: mainnet_limit)
  show ?thesis using asert_valid_target [OF example_index_ok(1) b p l g a] n by (auto simp: example_target Let_def)
qed

text \<open>C28. More delay never makes mining harder: if the schedule error grows, the decoded next target does not fall, for a
  positive half-life and an anchor target between \<open>2\<^sup>1\<^sup>6\<close> and \<open>2\<^sup>2\<^sup>5\<^sup>5\<close>.\<close>

theorem asert_monotone:
  assumes "length L = WIDTH" "length a = WIDTH" "1 \<le> uval L" "uval a < 2 ^ 255" "2 ^ 16 \<le> uval a" "0 < half_life" "err1 \<le> err2"
  shows "uval (fst (SetCompact (GetCompact (asert_target L a (asert_exponent err1 half_life)))))
    \<le> uval (fst (SetCompact (GetCompact (asert_target L a (asert_exponent err2 half_life)))))"
proof -
  have "asert_exponent err1 half_life \<le> asert_exponent err2 half_life"
    using assms(6,7) by (simp add: asert_exponent_floor zdiv_mono1)
  from asert_value_mono [OF this] show ?thesis
    using uval_asert_target [OF assms(1-5)] rounded_mono unfolding rounded_def [symmetric] by simp
qed

theorem asert_monotone_witness:
  "uval (fst (SetCompact (GetCompact (asert_target (UintToArith256 (powLimit CMainParams_consensus)) (fst (SetCompact 0x1d00ffff)) (asert_exponent (- 300) 7200)))))
    \<le> uval (fst (SetCompact (GetCompact (asert_target (UintToArith256 (powLimit CMainParams_consensus)) (fst (SetCompact 0x1d00ffff)) (asert_exponent 1000 7200)))))"
  by (rule asert_monotone) (simp_all add: mainnet_limit example_target)

text \<open>C29. The range check that protects headers-first synchronisation rejects nothing that ASERT can ask for: two targets of one
  anchor are a permitted transition whenever the schedule error falls by at most two half-lives from one block to the next, from the
  ASERT height on, for a positive half-life and an anchor target between \<open>2\<^sup>1\<^sup>6\<close> and \<open>2\<^sup>2\<^sup>5\<^sup>5\<close>.\<close>

theorem asert_transition_permitted:
  assumes "length a = WIDTH" "1 \<le> uval (UintToArith256 (powLimit params))" "uval a < 2 ^ 255" "2 ^ 16 \<le> uval a"
    "0 < half_life" "err1 - 2 * half_life \<le> err2" "nASERTActivationHeight params \<le> h"
  shows "PermittedDifficultyTransition params h
    (GetCompact (asert_target (UintToArith256 (powLimit params)) a (asert_exponent err1 half_life)))
    (GetCompact (asert_target (UintToArith256 (powLimit params)) a (asert_exponent err2 half_life))) = Some True"
proof -
  define L where "L = UintToArith256 (powLimit params)"
  define t1 where "t1 = asert_target L a (asert_exponent err1 half_life)"
  define t2 where "t2 = asert_target L a (asert_exponent err2 half_life)"
  have L: "length L = WIDTH" "1 \<le> uval L" using assms(2) by (simp_all add: L_def)
  note v = uval_asert_target [OF L(1) assms(1) L(2) assms(3,4)]
  have len: "length t1 = WIDTH" "length t2 = WIDTH" using v by (simp_all add: t1_def t2_def)
  have "err1 * 65536 + - 131072 * half_life \<le> err2 * 65536" using assms(6) by simp
  then have "(err1 * 65536 + - 131072 * half_life) div half_life \<le> err2 * 65536 div half_life" using assms(5) by (intro zdiv_mono1)
  moreover have "(err1 * 65536 + - 131072 * half_life) div half_life = err1 * 65536 div half_life - 131072"
    using assms(5) div_mult_self1 [of half_life "err1 * 65536" "- 131072"] by simp
  ultimately have "asert_exponent err1 half_life - 131072 \<le> asert_exponent err2 half_life" using assms(5) by (simp add: asert_exponent_floor)
  from asert_value_quarter [OF this L(2)] have q: "uval t1 div 4 \<le> uval t2" using v by (simp add: t1_def t2_def)
  obtain w where w: "uint_div (rounded t1) (base_uint_of_u64 4) = Some w" "length w = WIDTH" "uval w = uval (rounded t1) div 4"
    using uint_div4 [of "rounded t1"] by auto
  have "uval w \<le> uval t2" using w(3) q rounded_le [OF len(1)] div_le_mono [of "uval (rounded t1)" "uval t1" 4] by linarith
  then have ok: "uval (rounded w) \<le> uval (rounded t2)" by (rule rounded_mono [OF w(2) len(2)])
  have "uval t2 \<le> uval L" using v asert_value_range [OF L(2)] by (simp add: t2_def)
  then have "uval (rounded t2) \<le> uval L" using rounded_le [OF len(2)] by linarith
  then show ?thesis using ok w assms(7) L len
    by (simp add: PermittedDifficultyTransition_def Let_def SetCompact_GetCompact_rounded flip: L_def t1_def t2_def)
qed

theorem asert_transition_permitted_witness:
  "PermittedDifficultyTransition CMainParams_consensus 7
    (GetCompact (asert_target (UintToArith256 (powLimit CMainParams_consensus)) (fst (SetCompact 0x1d00ffff)) (asert_exponent 9000 7200)))
    (GetCompact (asert_target (UintToArith256 (powLimit CMainParams_consensus)) (fst (SetCompact 0x1d00ffff)) (asert_exponent 0 7200))) = Some True"
proof -
  have "nASERTActivationHeight CMainParams_consensus \<le> 7" by (simp add: CMainParams_consensus_def)
  then show ?thesis by (intro asert_transition_permitted) (simp_all add: mainnet_limit example_target)
qed

text \<open>C30. A header other than the genesis block passes the proof-of-work check exactly when its \<^verbatim>\<open>nBits\<close> is not negative, does not overflow
  and encodes a target between 1 and the limit, and its MetalDAG hash, read as a number, does not exceed that target; the state of the
  resident caches has no influence.\<close>

theorem CheckProofOfWork_iff:
  assumes "caches_ok st" "BlockHash hdr \<noteq> hashGenesisBlock params" "SetCompact bits = (T, negative, overflow)"
  shows "fst (CheckProofOfWork False hdr bits params st) \<longleftrightarrow>
    \<not> negative \<and> \<not> overflow \<and> 0 < uval T \<and> uval T \<le> uval (UintToArith256 (powLimit params)) \<and> from_le (pow_hash hdr params) \<le> uval T"
proof -
  have T: "length T = WIDTH" by (rule SetCompact_spec(1) [OF assms(3)])
  then have z: "EqualTo T 0 \<longleftrightarrow> uval T = 0" using EqualTo_iff [of T 0] by (simp add: WIDTH_def)
  have h: "uval (UintToArith256 (pow_hash hdr params)) = from_le (pow_hash hdr params)" by (rule uval_UintToArith256 [OF length_pow_hash])
  have "fst (CheckProofOfWork False hdr bits params st) = CheckProofOfWorkImpl (pow_hash hdr params) bits params"
    using PoWHash_pure [OF assms(1), of hdr params] assms(2) by (simp add: CheckProofOfWork_def case_prod_beta)
  then show ?thesis using T z h assms(3) by (auto simp: CheckProofOfWorkImpl_def DeriveTarget_def split: option.split)
qed

theorem CheckProofOfWork_iff_witness:
  "fst (CheckProofOfWork False (example_header [] 5) 0 (CMainParams_consensus\<lparr>hashGenesisBlock := []\<rparr>) caches_init) = False"
proof -
  have "length (BlockHash (example_header [] 5)) \<noteq> length (hashGenesisBlock (CMainParams_consensus\<lparr>hashGenesisBlock := []\<rparr>))" by simp
  then have ne: "BlockHash (example_header [] 5) \<noteq> hashGenesisBlock (CMainParams_consensus\<lparr>hashGenesisBlock := []\<rparr>)" by metis
  obtain T negative overflow where s: "SetCompact 0 = (T, negative, overflow)" by (cases "SetCompact 0")
  have "uval T = 0" using SetCompact_spec(2) [OF s] by (simp add: compact_value_def)
  then show ?thesis using CheckProofOfWork_iff [OF caches_init_ok ne s] by simp
qed

end
