(* ===== verification/Merkle.thy ===== *)
theory Merkle
  imports Transaction
begin

text \<open>
  \<^verbatim>\<open>consensus/merkle.cpp\<close>: the merkle root with its detection of duplicated pairs, and the roots of a
  block.  The lemmas show that the in-place computation on the flat array hashes adjacent pairs, and that, as
  long as the double SHA-256 does not collide on the nodes of two trees of one depth, equal roots of
  unmutated lists mean equal lists.
\<close>

section \<open>The root\<close>

primrec split32 :: "nat \<Rightarrow> bytes \<Rightarrow> uint256 list" where
  "split32 0 bs = []"
| "split32 (Suc n) bs = take 32 bs # split32 n (drop 32 bs)"

text \<open>Two equal hashes at positions \<open>2i\<close> and \<open>2i + 1\<close>.\<close>

fun equal_pair :: "uint256 list \<Rightarrow> bool" where
  "equal_pair (a # b # hashes) = (a = b \<or> equal_pair hashes)"
| "equal_pair _ = False"

definition merkle_even :: "uint256 list \<Rightarrow> uint256 list" where
  "merkle_even hashes = (if odd (length hashes) then hashes @ [last hashes] else hashes)"

definition merkle_level :: "uint256 list \<Rightarrow> uint256 list" where
  "merkle_level hashes =
     (let hashes = merkle_even hashes; n = length hashes div 2 in split32 n (SHA256D64 (concat hashes) n))"

lemma length_split32 [simp]: "length (split32 n bs) = n"
  by (induction n arbitrary: bs) auto

lemma length_merkle_level: "length (merkle_level hashes) = (length hashes + 1) div 2"
  by (auto simp: merkle_level_def merkle_even_def Let_def)

function merkle_loop :: "bool \<Rightarrow> uint256 list \<Rightarrow> bool \<Rightarrow> uint256 list \<times> bool" where
  "merkle_loop mutated hashes mutation =
     (if length hashes > 1
      then merkle_loop mutated (merkle_level hashes) (if mutated \<and> equal_pair hashes then True else mutation)
      else (hashes, mutation))"
  by pat_completeness auto
termination
  by (relation "measure (\<lambda>(mutated, hashes, mutation). length hashes)") (auto simp: length_merkle_level)

declare merkle_loop.simps [simp del]

text \<open>The flag is returned beside the root; it is computed when the caller passes a pointer for it.\<close>

definition ComputeMerkleRoot :: "uint256 list \<Rightarrow> bool \<Rightarrow> uint256 \<times> bool" where
  "ComputeMerkleRoot hashes mutated =
     (let (hashes, mutation) = merkle_loop mutated hashes False
      in (if length hashes = 0 then uint256_zero else hashes ! 0, mutation))"

definition BlockMerkleRoot :: "CBlock \<Rightarrow> bool \<Rightarrow> uint256 \<times> bool" where
  "BlockMerkleRoot block mutated = ComputeMerkleRoot (map GetHash (vtx block)) mutated"

definition BlockWitnessMerkleRoot :: "CBlock \<Rightarrow> uint256" where
  "BlockWitnessMerkleRoot block = fst (ComputeMerkleRoot (uint256_zero # map GetWitnessHash (drop 1 (vtx block))) False)"

section \<open>Pairs\<close>

fun pairs :: "uint256 list \<Rightarrow> bytes list" where
  "pairs (a # b # hashes) = (a @ b) # pairs hashes"
| "pairs _ = []"

definition hashes_ok :: "uint256 list \<Rightarrow> bool" where
  "hashes_ok hs \<longleftrightarrow> (\<forall>h\<in>set hs. length h = 32)"

lemma length_pairs: "length (pairs hs) = length hs div 2"
  by (induction hs rule: pairs.induct) auto

lemma concat_pairs: "even (length hs) \<Longrightarrow> concat (pairs hs) = concat hs"
  by (induction hs rule: pairs.induct) auto

lemma pairs_64: "hashes_ok hs \<Longrightarrow> \<forall>x\<in>set (pairs hs). length x = 64"
  by (induction hs rule: pairs.induct) (auto simp: hashes_ok_def)

lemma split32_concat: "\<forall>x\<in>set xs. length x = 32 \<Longrightarrow> split32 (length xs) (concat xs) = xs"
  by (induction xs) auto

lemma even_merkle_even: "even (length (merkle_even hs))"
  by (simp add: merkle_even_def)

lemma hashes_ok_even: "hashes_ok hs \<Longrightarrow> hashes_ok (merkle_even hs)"
  by (cases hs rule: rev_cases) (auto simp: merkle_even_def hashes_ok_def)

lemma merkle_level_pairs:
  assumes "hashes_ok hs"
  shows "merkle_level hs = map Hash (pairs (merkle_even hs))"
proof -
  let ?e = "merkle_even hs"
  have "SHA256D64 (concat (pairs ?e)) (length (pairs ?e)) = concat (map Hash (pairs ?e))"
    by (rule SHA256D64_concat [OF pairs_64 [OF hashes_ok_even [OF assms]]])
  then have "merkle_level hs = split32 (length (map Hash (pairs ?e))) (concat (map Hash (pairs ?e)))"
    by (simp add: merkle_level_def Let_def concat_pairs [OF even_merkle_even] length_pairs)
  also have "\<dots> = map Hash (pairs ?e)" by (rule split32_concat) auto
  finally show ?thesis .
qed

lemma hashes_ok_level: "hashes_ok hs \<Longrightarrow> hashes_ok (merkle_level hs)"
  by (simp add: merkle_level_pairs hashes_ok_def)

section \<open>Trees of one depth\<close>

fun merkle_depth :: "nat \<Rightarrow> nat" where
  "merkle_depth n = (if n > 1 then Suc (merkle_depth ((n + 1) div 2)) else 0)"

declare merkle_depth.simps [simp del]

text \<open>The 64-byte inputs hashed for a root of the given depth.\<close>

primrec merkle_inputs :: "nat \<Rightarrow> uint256 list \<Rightarrow> bytes set" where
  "merkle_inputs 0 hs = {}"
| "merkle_inputs (Suc d) hs = set (pairs (merkle_even hs)) \<union> merkle_inputs d (merkle_level hs)"

primrec mutated_below :: "nat \<Rightarrow> uint256 list \<Rightarrow> bool" where
  "mutated_below 0 hs = False"
| "mutated_below (Suc d) hs = (equal_pair hs \<or> mutated_below d (merkle_level hs))"

lemma merkle_loop_iterates:
  "merkle_depth (length hs) = d \<Longrightarrow> merkle_loop True hs m = ((merkle_level ^^ d) hs, m \<or> mutated_below d hs)"
proof (induction d arbitrary: hs m)
  case 0
  then have "\<not> length hs > 1" by (subst (asm) merkle_depth.simps) (auto split: if_splits)
  then show ?case by (simp add: merkle_loop.simps)
next
  case (Suc d)
  then have l: "length hs > 1" by (subst (asm) merkle_depth.simps) (auto split: if_splits)
  then have "merkle_depth (length (merkle_level hs)) = d" using Suc.prems
    by (subst (asm) merkle_depth.simps) (simp add: length_merkle_level)
  from Suc.IH [OF this, of "m \<or> equal_pair hs"] l show ?case
    by (subst merkle_loop.simps) (auto simp: funpow_swap1)
qed

lemma length_iterate: "merkle_depth (length hs) = d \<Longrightarrow> hs \<noteq> [] \<Longrightarrow> length ((merkle_level ^^ d) hs) = 1"
proof (induction d arbitrary: hs)
  case 0
  then have "\<not> length hs > 1" by (subst (asm) merkle_depth.simps) (auto split: if_splits)
  then show ?case using 0 by (cases hs) auto
next
  case (Suc d)
  then have l: "length hs > 1" by (subst (asm) merkle_depth.simps) (auto split: if_splits)
  then have "merkle_depth (length (merkle_level hs)) = d" using Suc.prems
    by (subst (asm) merkle_depth.simps) (simp add: length_merkle_level)
  moreover have "merkle_level hs \<noteq> []" using l length_merkle_level [of hs] by (cases "merkle_level hs") auto
  ultimately show ?case using Suc.IH [of "merkle_level hs"] by (simp add: funpow_swap1)
qed

lemma pairs_inject:
  "hashes_ok xs \<Longrightarrow> hashes_ok ys \<Longrightarrow> even (length xs) \<Longrightarrow> even (length ys) \<Longrightarrow> pairs xs = pairs ys \<Longrightarrow> xs = ys"
proof (induction xs arbitrary: ys rule: pairs.induct)
  case (1 a b hashes)
  then obtain c d zs where ys: "ys = c # d # zs" by (cases ys rule: pairs.cases) auto
  from 1(2,3) have l: "length a = length c" "hashes_ok hashes" "hashes_ok zs" by (simp_all add: hashes_ok_def ys)
  from 1(6) have "a @ b = c @ d" "pairs hashes = pairs zs" by (simp_all add: ys)
  moreover have "even (length hashes)" "even (length zs)" using 1(4,5) by (simp_all add: ys)
  ultimately show ?case using 1(1) [of zs] l by (simp add: ys)
next
  case "2_1"
  then show ?case by (cases ys rule: pairs.cases) auto
qed auto

lemma equal_pair_last: "odd (length xs) \<Longrightarrow> equal_pair (xs @ [last xs])"
  by (induction xs rule: equal_pair.induct) auto

text \<open>Equal levels come from equal lists, or from a list that ends in a duplicated pair.\<close>

lemma merkle_even_inject:
  assumes "merkle_even xs = merkle_even ys" "\<not> equal_pair xs" "\<not> equal_pair ys"
  shows "xs = ys"
  using assms equal_pair_last [of xs] equal_pair_last [of ys] by (auto simp: merkle_even_def split: if_splits)

lemma merkle_unique:
  "hashes_ok xs \<Longrightarrow> hashes_ok ys \<Longrightarrow> \<not> mutated_below d xs \<Longrightarrow> \<not> mutated_below d ys \<Longrightarrow>
   inj_on Hash (merkle_inputs d xs \<union> merkle_inputs d ys) \<Longrightarrow> (merkle_level ^^ d) xs = (merkle_level ^^ d) ys \<Longrightarrow> xs = ys"
proof (induction d arbitrary: xs ys)
  case (Suc d)
  have "merkle_level xs = merkle_level ys"
  proof (rule Suc.IH)
    show "inj_on Hash (merkle_inputs d (merkle_level xs) \<union> merkle_inputs d (merkle_level ys))"
      using Suc.prems(5) by (rule inj_on_subset) auto
  qed (use Suc.prems in \<open>auto simp: hashes_ok_level funpow_swap1\<close>)
  then have "map Hash (pairs (merkle_even xs)) = map Hash (pairs (merkle_even ys))"
    using Suc.prems(1,2) by (simp add: merkle_level_pairs)
  moreover have "inj_on Hash (set (pairs (merkle_even xs)) \<union> set (pairs (merkle_even ys)))"
    using Suc.prems(5) by (rule inj_on_subset) auto
  ultimately have "pairs (merkle_even xs) = pairs (merkle_even ys)" by (rule inj_on_map_eq_map [THEN iffD1, rotated])
  with Suc.prems(1,2) have "merkle_even xs = merkle_even ys"
    by (rule pairs_inject [OF hashes_ok_even hashes_ok_even even_merkle_even even_merkle_even])
  then show ?case by (rule merkle_even_inject) (use Suc.prems in auto)
qed simp

lemma ComputeMerkleRoot_iterates:
  assumes "hs \<noteq> []"
  shows "ComputeMerkleRoot hs True = (hd ((merkle_level ^^ merkle_depth (length hs)) hs), mutated_below (merkle_depth (length hs)) hs)"
proof -
  have "(merkle_level ^^ merkle_depth (length hs)) hs \<noteq> []" using length_iterate [OF refl assms] by force
  then show ?thesis
    using merkle_loop_iterates [OF refl, of hs False] by (simp add: ComputeMerkleRoot_def hd_conv_nth)
qed

section \<open>Properties\<close>

text \<open>C31. The duplicate check closes the known ambiguity of the tree: if two lists of transaction ids give trees of one depth and
  neither is reported as mutated, then equal roots mean equal lists, unless double SHA-256 collides on two of the 64-byte nodes of
  the two trees.\<close>

theorem merkle_root_binding:
  assumes "hashes_ok xs" "hashes_ok ys" "xs \<noteq> []" "ys \<noteq> []" "merkle_depth (length xs) = d" "merkle_depth (length ys) = d"
    "inj_on Hash (merkle_inputs d xs \<union> merkle_inputs d ys)"
    "ComputeMerkleRoot xs True = (root, False)" "ComputeMerkleRoot ys True = (root, False)"
  shows "xs = ys"
proof (rule merkle_unique [OF assms(1,2) _ _ assms(7)])
  note x = ComputeMerkleRoot_iterates [OF assms(3)] and y = ComputeMerkleRoot_iterates [OF assms(4)]
  show "\<not> mutated_below d xs" "\<not> mutated_below d ys" using x y assms(5,6,8,9) by auto
  have one: "xs = ys" if "length xs = 1" "length ys = 1" "hd xs = hd ys" for xs ys :: "uint256 list"
    using that by (cases xs; cases ys) auto
  show "(merkle_level ^^ d) xs = (merkle_level ^^ d) ys"
    using x y assms(5,6,8,9) length_iterate [OF assms(5,3)] length_iterate [OF assms(6,4)] by (intro one) auto
qed

theorem merkle_root_binding_witness:
  "ComputeMerkleRoot [replicate 32 1, replicate 32 (2 :: byte)] True = (hd (merkle_level [replicate 32 1, replicate 32 2]), False) \<and>
   [replicate 32 1, replicate 32 2] = [replicate 32 1, replicate 32 (2 :: byte)]"
proof -
  let ?hs = "[replicate 32 1, replicate 32 (2 :: byte)]"
  have "fst (ComputeMerkleRoot ?hs True) = hd (merkle_level ?hs) \<and> \<not> snd (ComputeMerkleRoot ?hs True)"
    by (simp add: ComputeMerkleRoot_iterates merkle_depth.simps replicate_eq_replicate)
  then have r: "ComputeMerkleRoot ?hs True = (hd (merkle_level ?hs), False)" by (simp add: prod_eq_iff)
  have d: "merkle_depth (length ?hs) = 1" by (simp add: merkle_depth.simps)
  have i: "inj_on Hash (merkle_inputs 1 ?hs \<union> merkle_inputs 1 ?hs)" by (simp add: merkle_even_def)
  have ok: "hashes_ok ?hs" "?hs \<noteq> []" by (simp_all add: hashes_ok_def)
  show ?thesis using r merkle_root_binding [OF ok(1,1) ok(2,2) d d i r r] by blast
qed

end
