(* ===== verification/Script_Core.thy ===== *)
theory Script_Core
  imports Transaction Metal_Dag
begin

unbundle bit_operations_syntax

text \<open>
  The script language below its interpreter: the limits and opcodes of \<^verbatim>\<open>script/script.h\<close>, the number format
  \<^verbatim>\<open>CScriptNum\<close>, writing and reading of instructions, the recognisers and counters of \<^verbatim>\<open>script/script.cpp\<close> and
  the classification \<^verbatim>\<open>Solver\<close> of \<^verbatim>\<open>script/solver.cpp\<close>.  An iterator into a script is the list of the bytes from
  it to the end.  The lemmas show that numbers and pushes are read back as written, that the minimal encoding
  of a number is unique, and what each recogniser accepts.
\<close>

section \<open>Limits and opcodes\<close>

definition MAX_SCRIPT_ELEMENT_SIZE :: nat where [const_defs]: "MAX_SCRIPT_ELEMENT_SIZE = 520"
definition MAX_OPS_PER_SCRIPT :: int where [const_defs]: "MAX_OPS_PER_SCRIPT = 201"
definition MAX_PUBKEYS_PER_MULTISIG :: int where [const_defs]: "MAX_PUBKEYS_PER_MULTISIG = 20"
definition MAX_PUBKEYS_PER_MULTI_A :: nat where [const_defs]: "MAX_PUBKEYS_PER_MULTI_A = 999"
definition MAX_SCRIPT_SIZE :: nat where [const_defs]: "MAX_SCRIPT_SIZE = 10000"
definition MAX_STACK_SIZE :: nat where [const_defs]: "MAX_STACK_SIZE = 1000"
definition LOCKTIME_THRESHOLD :: u32 where [const_defs]: "LOCKTIME_THRESHOLD = 500000000"
definition LOCKTIME_MAX :: u32 where [const_defs]: "LOCKTIME_MAX = 0xFFFFFFFF"
definition ANNEX_TAG :: byte where [const_defs]: "ANNEX_TAG = 0x50"
definition VALIDATION_WEIGHT_PER_SIGOP_PASSED :: int where [const_defs]: "VALIDATION_WEIGHT_PER_SIGOP_PASSED = 50"
definition VALIDATION_WEIGHT_OFFSET :: int where [const_defs]: "VALIDATION_WEIGHT_OFFSET = 50"

text \<open>The enumeration \<^verbatim>\<open>opcodetype\<close> is the byte of the instruction as a number.\<close>

type_synonym opcodetype = nat
type_synonym valtype = bytes

abbreviation (input) OP_0 :: opcodetype where "OP_0 \<equiv> 0x00"
abbreviation (input) OP_PUSHDATA1 :: opcodetype where "OP_PUSHDATA1 \<equiv> 0x4c"
abbreviation (input) OP_PUSHDATA2 :: opcodetype where "OP_PUSHDATA2 \<equiv> 0x4d"
abbreviation (input) OP_PUSHDATA4 :: opcodetype where "OP_PUSHDATA4 \<equiv> 0x4e"
abbreviation (input) OP_1NEGATE :: opcodetype where "OP_1NEGATE \<equiv> 0x4f"
abbreviation (input) OP_1 :: opcodetype where "OP_1 \<equiv> 0x51"
abbreviation (input) OP_2 :: opcodetype where "OP_2 \<equiv> 0x52"
abbreviation (input) OP_3 :: opcodetype where "OP_3 \<equiv> 0x53"
abbreviation (input) OP_16 :: opcodetype where "OP_16 \<equiv> 0x60"
abbreviation (input) OP_NOP :: opcodetype where "OP_NOP \<equiv> 0x61"
abbreviation (input) OP_IF :: opcodetype where "OP_IF \<equiv> 0x63"
abbreviation (input) OP_NOTIF :: opcodetype where "OP_NOTIF \<equiv> 0x64"
abbreviation (input) OP_ELSE :: opcodetype where "OP_ELSE \<equiv> 0x67"
abbreviation (input) OP_ENDIF :: opcodetype where "OP_ENDIF \<equiv> 0x68"
abbreviation (input) OP_VERIFY :: opcodetype where "OP_VERIFY \<equiv> 0x69"
abbreviation (input) OP_RETURN :: opcodetype where "OP_RETURN \<equiv> 0x6a"
abbreviation (input) OP_TOALTSTACK :: opcodetype where "OP_TOALTSTACK \<equiv> 0x6b"
abbreviation (input) OP_FROMALTSTACK :: opcodetype where "OP_FROMALTSTACK \<equiv> 0x6c"
abbreviation (input) OP_2DROP :: opcodetype where "OP_2DROP \<equiv> 0x6d"
abbreviation (input) OP_2DUP :: opcodetype where "OP_2DUP \<equiv> 0x6e"
abbreviation (input) OP_3DUP :: opcodetype where "OP_3DUP \<equiv> 0x6f"
abbreviation (input) OP_2OVER :: opcodetype where "OP_2OVER \<equiv> 0x70"
abbreviation (input) OP_2ROT :: opcodetype where "OP_2ROT \<equiv> 0x71"
abbreviation (input) OP_2SWAP :: opcodetype where "OP_2SWAP \<equiv> 0x72"
abbreviation (input) OP_IFDUP :: opcodetype where "OP_IFDUP \<equiv> 0x73"
abbreviation (input) OP_DEPTH :: opcodetype where "OP_DEPTH \<equiv> 0x74"
abbreviation (input) OP_DROP :: opcodetype where "OP_DROP \<equiv> 0x75"
abbreviation (input) OP_DUP :: opcodetype where "OP_DUP \<equiv> 0x76"
abbreviation (input) OP_NIP :: opcodetype where "OP_NIP \<equiv> 0x77"
abbreviation (input) OP_OVER :: opcodetype where "OP_OVER \<equiv> 0x78"
abbreviation (input) OP_PICK :: opcodetype where "OP_PICK \<equiv> 0x79"
abbreviation (input) OP_ROLL :: opcodetype where "OP_ROLL \<equiv> 0x7a"
abbreviation (input) OP_ROT :: opcodetype where "OP_ROT \<equiv> 0x7b"
abbreviation (input) OP_SWAP :: opcodetype where "OP_SWAP \<equiv> 0x7c"
abbreviation (input) OP_TUCK :: opcodetype where "OP_TUCK \<equiv> 0x7d"
abbreviation (input) OP_CAT :: opcodetype where "OP_CAT \<equiv> 0x7e"
abbreviation (input) OP_SUBSTR :: opcodetype where "OP_SUBSTR \<equiv> 0x7f"
abbreviation (input) OP_LEFT :: opcodetype where "OP_LEFT \<equiv> 0x80"
abbreviation (input) OP_RIGHT :: opcodetype where "OP_RIGHT \<equiv> 0x81"
abbreviation (input) OP_SIZE :: opcodetype where "OP_SIZE \<equiv> 0x82"
abbreviation (input) OP_INVERT :: opcodetype where "OP_INVERT \<equiv> 0x83"
abbreviation (input) OP_AND :: opcodetype where "OP_AND \<equiv> 0x84"
abbreviation (input) OP_OR :: opcodetype where "OP_OR \<equiv> 0x85"
abbreviation (input) OP_XOR :: opcodetype where "OP_XOR \<equiv> 0x86"
abbreviation (input) OP_EQUAL :: opcodetype where "OP_EQUAL \<equiv> 0x87"
abbreviation (input) OP_EQUALVERIFY :: opcodetype where "OP_EQUALVERIFY \<equiv> 0x88"
abbreviation (input) OP_1ADD :: opcodetype where "OP_1ADD \<equiv> 0x8b"
abbreviation (input) OP_1SUB :: opcodetype where "OP_1SUB \<equiv> 0x8c"
abbreviation (input) OP_2MUL :: opcodetype where "OP_2MUL \<equiv> 0x8d"
abbreviation (input) OP_2DIV :: opcodetype where "OP_2DIV \<equiv> 0x8e"
abbreviation (input) OP_NEGATE :: opcodetype where "OP_NEGATE \<equiv> 0x8f"
abbreviation (input) OP_ABS :: opcodetype where "OP_ABS \<equiv> 0x90"
abbreviation (input) OP_NOT :: opcodetype where "OP_NOT \<equiv> 0x91"
abbreviation (input) OP_0NOTEQUAL :: opcodetype where "OP_0NOTEQUAL \<equiv> 0x92"
abbreviation (input) OP_ADD :: opcodetype where "OP_ADD \<equiv> 0x93"
abbreviation (input) OP_SUB :: opcodetype where "OP_SUB \<equiv> 0x94"
abbreviation (input) OP_MUL :: opcodetype where "OP_MUL \<equiv> 0x95"
abbreviation (input) OP_DIV :: opcodetype where "OP_DIV \<equiv> 0x96"
abbreviation (input) OP_MOD :: opcodetype where "OP_MOD \<equiv> 0x97"
abbreviation (input) OP_LSHIFT :: opcodetype where "OP_LSHIFT \<equiv> 0x98"
abbreviation (input) OP_RSHIFT :: opcodetype where "OP_RSHIFT \<equiv> 0x99"
abbreviation (input) OP_BOOLAND :: opcodetype where "OP_BOOLAND \<equiv> 0x9a"
abbreviation (input) OP_BOOLOR :: opcodetype where "OP_BOOLOR \<equiv> 0x9b"
abbreviation (input) OP_NUMEQUAL :: opcodetype where "OP_NUMEQUAL \<equiv> 0x9c"
abbreviation (input) OP_NUMEQUALVERIFY :: opcodetype where "OP_NUMEQUALVERIFY \<equiv> 0x9d"
abbreviation (input) OP_NUMNOTEQUAL :: opcodetype where "OP_NUMNOTEQUAL \<equiv> 0x9e"
abbreviation (input) OP_LESSTHAN :: opcodetype where "OP_LESSTHAN \<equiv> 0x9f"
abbreviation (input) OP_GREATERTHAN :: opcodetype where "OP_GREATERTHAN \<equiv> 0xa0"
abbreviation (input) OP_LESSTHANOREQUAL :: opcodetype where "OP_LESSTHANOREQUAL \<equiv> 0xa1"
abbreviation (input) OP_GREATERTHANOREQUAL :: opcodetype where "OP_GREATERTHANOREQUAL \<equiv> 0xa2"
abbreviation (input) OP_MIN :: opcodetype where "OP_MIN \<equiv> 0xa3"
abbreviation (input) OP_MAX :: opcodetype where "OP_MAX \<equiv> 0xa4"
abbreviation (input) OP_WITHIN :: opcodetype where "OP_WITHIN \<equiv> 0xa5"
abbreviation (input) OP_RIPEMD160 :: opcodetype where "OP_RIPEMD160 \<equiv> 0xa6"
abbreviation (input) OP_SHA1 :: opcodetype where "OP_SHA1 \<equiv> 0xa7"
abbreviation (input) OP_SHA256 :: opcodetype where "OP_SHA256 \<equiv> 0xa8"
abbreviation (input) OP_HASH160 :: opcodetype where "OP_HASH160 \<equiv> 0xa9"
abbreviation (input) OP_HASH256 :: opcodetype where "OP_HASH256 \<equiv> 0xaa"
abbreviation (input) OP_CODESEPARATOR :: opcodetype where "OP_CODESEPARATOR \<equiv> 0xab"
abbreviation (input) OP_CHECKSIG :: opcodetype where "OP_CHECKSIG \<equiv> 0xac"
abbreviation (input) OP_CHECKSIGVERIFY :: opcodetype where "OP_CHECKSIGVERIFY \<equiv> 0xad"
abbreviation (input) OP_CHECKMULTISIG :: opcodetype where "OP_CHECKMULTISIG \<equiv> 0xae"
abbreviation (input) OP_CHECKMULTISIGVERIFY :: opcodetype where "OP_CHECKMULTISIGVERIFY \<equiv> 0xaf"
abbreviation (input) OP_NOP1 :: opcodetype where "OP_NOP1 \<equiv> 0xb0"
abbreviation (input) OP_CHECKLOCKTIMEVERIFY :: opcodetype where "OP_CHECKLOCKTIMEVERIFY \<equiv> 0xb1"
abbreviation (input) OP_CHECKSEQUENCEVERIFY :: opcodetype where "OP_CHECKSEQUENCEVERIFY \<equiv> 0xb2"
abbreviation (input) OP_CHECKTEMPLATEVERIFY :: opcodetype where "OP_CHECKTEMPLATEVERIFY \<equiv> 0xb3"
abbreviation (input) OP_NOP5 :: opcodetype where "OP_NOP5 \<equiv> 0xb4"
abbreviation (input) OP_NOP10 :: opcodetype where "OP_NOP10 \<equiv> 0xb9"
abbreviation (input) OP_CHECKSIGADD :: opcodetype where "OP_CHECKSIGADD \<equiv> 0xba"
abbreviation (input) OP_CHECKSIG_PQ :: opcodetype where "OP_CHECKSIG_PQ \<equiv> 0xbb"
abbreviation (input) OP_CHECKSIGVERIFY_PQ :: opcodetype where "OP_CHECKSIGVERIFY_PQ \<equiv> 0xbc"
abbreviation (input) OP_INVALIDOPCODE :: opcodetype where "OP_INVALIDOPCODE \<equiv> 0xff"

definition MAX_OPCODE :: opcodetype where [const_defs]: "MAX_OPCODE = OP_NOP10"

section \<open>Numbers\<close>

text \<open>The bytes of \<^verbatim>\<open>absvalue\<close>, least significant first, up to the last one that is not zero.\<close>

fun abs_bytes :: "nat \<Rightarrow> bytes" where
  "abs_bytes absvalue = (if absvalue = 0 then [] else of_nat absvalue # abs_bytes (absvalue div 256))"

declare abs_bytes.simps [simp del]

definition scriptnum_serialize :: "int \<Rightarrow> bytes" where
  "scriptnum_serialize value =
     (if value = 0 then []
      else let neg = value < 0;
               absvalue = (if neg then NOT (of_int value) + 1 else of_int value :: u64);
               result = abs_bytes (unat absvalue)
           in if last result AND 0x80 \<noteq> 0 then result @ [if neg then 0x80 else 0]
              else if neg then butlast result @ [last result OR 0x80]
              else result)"

definition set_vch :: "bytes \<Rightarrow> int" where
  "set_vch vch =
     (if vch = [] then 0
      else let result = int (from_le vch)
           in if last vch AND 0x80 \<noteq> 0 then - (result AND NOT (push_bit (8 * (length vch - 1)) 0x80))
              else result)"

definition nDefaultMaxNumSize :: nat where [const_defs]: "nDefaultMaxNumSize = 4"

text \<open>The constructor from bytes; \<open>None\<close> stands for the exception \<^verbatim>\<open>scriptnum_error\<close>.\<close>

definition CScriptNum :: "bytes \<Rightarrow> bool \<Rightarrow> nat \<Rightarrow> int option" where
  "CScriptNum vch fRequireMinimal nMaxNumSize =
     (if length vch > nMaxNumSize then None
      else if fRequireMinimal \<and> length vch > 0 \<and> last vch AND 0x7f = 0
              \<and> (length vch \<le> 1 \<or> vch ! (length vch - 2) AND 0x80 = 0) then None
      else Some (set_vch vch))"

definition getint :: "int \<Rightarrow> int" where
  "getint m_value = (if m_value > 2147483647 then 2147483647 else if m_value < - 2147483648 then - 2147483648 else m_value)"

section \<open>Writing a script\<close>

definition WriteLE16 :: "16 word \<Rightarrow> bytes" where
  "WriteLE16 x = to_le 2 (unat x)"

definition ReadLE16 :: "bytes \<Rightarrow> 16 word" where
  "ReadLE16 p = of_nat (from_le (take 2 p))"

definition AppendDataSize :: "u32 \<Rightarrow> bytes" where
  "AppendDataSize n =
     (if unat n < OP_PUSHDATA1 then [ucast n]
      else if n \<le> 0xff then [of_nat OP_PUSHDATA1, ucast n]
      else if n \<le> 0xffff then of_nat OP_PUSHDATA2 # WriteLE16 (ucast n)
      else of_nat OP_PUSHDATA4 # WriteLE32 n)"

text \<open>The three stream operators append to the script.\<close>

definition push_data :: "CScript \<Rightarrow> bytes \<Rightarrow> CScript" where
  "push_data script b = script @ AppendDataSize (of_nat (length b)) @ b"

definition push_opcode :: "CScript \<Rightarrow> opcodetype \<Rightarrow> CScript option" where
  "push_opcode script opcode = (if opcode > 0xff then None else Some (script @ [of_nat opcode]))"

definition push_int64 :: "CScript \<Rightarrow> int \<Rightarrow> CScript" where
  "push_int64 script n =
     (if n = -1 \<or> 1 \<le> n \<and> n \<le> 16 then script @ [of_int (n + int OP_1 - 1)]
      else if n = 0 then script @ [of_nat OP_0]
      else push_data script (scriptnum_serialize n))"

definition DecodeOP_N :: "opcodetype \<Rightarrow> int option" where
  "DecodeOP_N opcode =
     (if opcode = OP_0 then Some 0 else if OP_1 \<le> opcode \<and> opcode \<le> OP_16 then Some (int opcode - (int OP_1 - 1)) else None)"

definition EncodeOP_N :: "int \<Rightarrow> opcodetype option" where
  "EncodeOP_N n = (if 0 \<le> n \<and> n \<le> 16 then Some (if n = 0 then OP_0 else nat (int OP_1 + n - 1)) else None)"

section \<open>Reading a script\<close>

text \<open>\<open>None\<close> is the return value false.  Otherwise the opcode, its operand, and the new position.\<close>

definition GetScriptOp :: "bytes \<Rightarrow> (opcodetype \<times> bytes \<times> bytes) option" where
  "GetScriptOp pc =
     (if pc = [] then None
      else let opcode = unat (hd pc); pc = tl pc
           in if opcode \<le> OP_PUSHDATA4
              then case (if opcode < OP_PUSHDATA1 then Some (opcode, pc)
                         else if opcode = OP_PUSHDATA1
                         then if length pc < 1 then None else Some (unat (hd pc), tl pc)
                         else if opcode = OP_PUSHDATA2
                         then if length pc < 2 then None else Some (unat (ReadLE16 pc), drop 2 pc)
                         else if length pc < 4 then None else Some (unat (ReadLE32 pc), drop 4 pc)) of
                     None \<Rightarrow> None
                   | Some (nSize, pc) \<Rightarrow>
                       if length pc < nSize then None else Some (opcode, take nSize pc, drop nSize pc)
              else Some (opcode, [], pc))"

lemma GetScriptOp_shorter: "GetScriptOp pc = Some (opcode, data, pc') \<Longrightarrow> length pc' < length pc"
  by (cases pc) (auto simp: GetScriptOp_def Let_def split: if_splits)

definition IsOpSuccess :: "opcodetype \<Rightarrow> bool" where
  "IsOpSuccess opcode \<longleftrightarrow> opcode = 80 \<or> opcode = 98 \<or> (opcode \<ge> 126 \<and> opcode \<le> 129) \<or>
     (opcode \<ge> 131 \<and> opcode \<le> 134) \<or> (opcode \<ge> 137 \<and> opcode \<le> 138) \<or>
     (opcode \<ge> 141 \<and> opcode \<le> 142) \<or> (opcode \<ge> 149 \<and> opcode \<le> 153) \<or>
     (opcode \<ge> 187 \<and> opcode \<le> 254)"

text \<open>The assertion on the opcode holds at both calls; outside it there is no value.\<close>

definition CheckMinimalPush :: "bytes \<Rightarrow> opcodetype \<Rightarrow> bool" where
  "CheckMinimalPush data opcode =
     (if length data = 0 then opcode = OP_0
      else if length data = 1 \<and> 1 \<le> data ! 0 \<and> data ! 0 \<le> 16 then False
      else if length data = 1 \<and> data ! 0 = 0x81 then False
      else if length data \<le> 75 then opcode = length data
      else if length data \<le> 255 then opcode = OP_PUSHDATA1
      else if length data \<le> 65535 then opcode = OP_PUSHDATA2
      else True)"

function sigop_loop :: "bool \<Rightarrow> bytes \<Rightarrow> opcodetype \<Rightarrow> int \<Rightarrow> int" where
  "sigop_loop fAccurate pc lastOpcode n =
     (case GetScriptOp pc of
        None \<Rightarrow> n
      | Some (opcode, data, pc') \<Rightarrow>
          sigop_loop fAccurate pc' opcode
            (if opcode = OP_CHECKSIG \<or> opcode = OP_CHECKSIGVERIFY then n + 1
             else if opcode = OP_CHECKMULTISIG \<or> opcode = OP_CHECKMULTISIGVERIFY
             then if fAccurate \<and> lastOpcode \<ge> OP_1 \<and> lastOpcode \<le> OP_16 then n + the (DecodeOP_N lastOpcode)
                  else n + MAX_PUBKEYS_PER_MULTISIG
             else n))"
  by pat_completeness auto
termination
  by (relation "measure (\<lambda>(fAccurate, pc, lastOpcode, n). length pc)") (auto dest: GetScriptOp_shorter)

declare sigop_loop.simps [simp del]

definition GetSigOpCount :: "CScript \<Rightarrow> bool \<Rightarrow> int" where
  "GetSigOpCount script fAccurate = sigop_loop fAccurate script OP_INVALIDOPCODE 0"

function IsPushOnly :: "bytes \<Rightarrow> bool" where
  "IsPushOnly pc =
     (if pc = [] then True
      else case GetScriptOp pc of
             None \<Rightarrow> False
           | Some (opcode, data, pc') \<Rightarrow> if opcode > OP_16 then False else IsPushOnly pc')"
  by pat_completeness auto
termination
  by (relation "measure length") (auto dest: GetScriptOp_shorter)

declare IsPushOnly.simps [simp del]

function HasValidOps :: "CScript \<Rightarrow> bool" where
  "HasValidOps pc =
     (if pc = [] then True
      else case GetScriptOp pc of
             None \<Rightarrow> False
           | Some (opcode, item, pc') \<Rightarrow>
               if opcode > MAX_OPCODE \<or> length item > MAX_SCRIPT_ELEMENT_SIZE then False else HasValidOps pc')"
  by pat_completeness auto
termination
  by (relation "measure length") (auto dest: GetScriptOp_shorter)

declare HasValidOps.simps [simp del]

section \<open>Recognisers\<close>

definition IsPayToAnchor :: "CScript \<Rightarrow> bool" where
  "IsPayToAnchor script \<longleftrightarrow> length script = 4 \<and> unat (script ! 0) = OP_1 \<and> script ! 1 = 0x02 \<and> script ! 2 = 0x4e \<and> script ! 3 = 0x73"

definition IsPayToAnchor_program :: "int \<Rightarrow> bytes \<Rightarrow> bool" where
  "IsPayToAnchor_program witversion program \<longleftrightarrow> witversion = 1 \<and> length program = 2 \<and> program ! 0 = 0x4e \<and> program ! 1 = 0x73"

definition IsPayToScriptHash :: "CScript \<Rightarrow> bool" where
  "IsPayToScriptHash script \<longleftrightarrow>
     length script = 23 \<and> unat (script ! 0) = OP_HASH160 \<and> script ! 1 = 0x14 \<and> unat (script ! 22) = OP_EQUAL"

definition IsPayToWitnessScriptHash :: "CScript \<Rightarrow> bool" where
  "IsPayToWitnessScriptHash script \<longleftrightarrow> length script = 34 \<and> unat (script ! 0) = OP_0 \<and> script ! 1 = 0x20"

definition IsPayToTaproot :: "CScript \<Rightarrow> bool" where
  "IsPayToTaproot script \<longleftrightarrow> length script = 34 \<and> unat (script ! 0) = OP_1 \<and> script ! 1 = 0x20"

definition IsPayToXcoinV3 :: "CScript \<Rightarrow> bool" where
  "IsPayToXcoinV3 script \<longleftrightarrow> length script = 34 \<and> unat (script ! 0) = OP_3 \<and> script ! 1 = 0x20"

definition IsWitnessProgram :: "CScript \<Rightarrow> (int \<times> bytes) option" where
  "IsWitnessProgram script =
     (if length script < 4 \<or> length script > 42 then None
      else if unat (script ! 0) \<noteq> OP_0 \<and> (unat (script ! 0) < OP_1 \<or> unat (script ! 0) > OP_16) then None
      else if unat (script ! 1) + 2 = length script then Some (the (DecodeOP_N (unat (script ! 0))), drop 2 script)
      else None)"

definition IsUnspendable :: "CScript \<Rightarrow> bool" where
  "IsUnspendable script \<longleftrightarrow> (length script > 0 \<and> unat (script ! 0) = OP_RETURN) \<or> length script > MAX_SCRIPT_SIZE"

text \<open>The last push of a script of pushes only; \<open>None\<close> where the loop of the source returns 0.\<close>

function last_push :: "bytes \<Rightarrow> bytes \<Rightarrow> bytes option" where
  "last_push pc vData =
     (if pc = [] then Some vData
      else case GetScriptOp pc of
             None \<Rightarrow> None
           | Some (opcode, data, pc') \<Rightarrow> if opcode > OP_16 then None else last_push pc' data)"
  by pat_completeness auto
termination
  by (relation "measure (\<lambda>(pc, vData). length pc)") (auto dest: GetScriptOp_shorter)

declare last_push.simps [simp del]

definition GetSigOpCount_p2sh :: "CScript \<Rightarrow> CScript \<Rightarrow> int" where
  "GetSigOpCount_p2sh script script_sig =
     (if \<not> IsPayToScriptHash script then GetSigOpCount script True
      else case last_push script_sig [] of
             None \<Rightarrow> 0
           | Some subscript \<Rightarrow> GetSigOpCount subscript True)"

section \<open>Classification of outputs\<close>

definition CPubKey_GetLen :: "byte \<Rightarrow> nat" where
  "CPubKey_GetLen chHeader =
     (if chHeader = 2 \<or> chHeader = 3 then 33 else if chHeader = 4 \<or> chHeader = 6 \<or> chHeader = 7 then 65 else 0)"

definition CPubKey_ValidSize :: "bytes \<Rightarrow> bool" where
  "CPubKey_ValidSize vch \<longleftrightarrow> length vch > 0 \<and> CPubKey_GetLen (vch ! 0) = length vch"

datatype TxoutType = NONSTANDARD | ANCHOR | PUBKEY | PUBKEYHASH | SCRIPTHASH | MULTISIG | NULL_DATA
  | WITNESS_V0_SCRIPTHASH | WITNESS_V0_KEYHASH | WITNESS_V1_TAPROOT | WITNESS_V2_PQ | WITNESS_V3_PQ | WITNESS_UNKNOWN

definition MatchPayToPubkey :: "CScript \<Rightarrow> bytes option" where
  "MatchPayToPubkey script =
     (if length script = 67 \<and> script ! 0 = 65 \<and> unat (last script) = OP_CHECKSIG
      then let pubkey = take 65 (drop 1 script) in if CPubKey_ValidSize pubkey then Some pubkey else None
      else if length script = 35 \<and> script ! 0 = 33 \<and> unat (last script) = OP_CHECKSIG
      then let pubkey = take 33 (drop 1 script) in if CPubKey_ValidSize pubkey then Some pubkey else None
      else None)"

definition MatchPayToPubkeyHash :: "CScript \<Rightarrow> bytes option" where
  "MatchPayToPubkeyHash script =
     (if length script = 25 \<and> unat (script ! 0) = OP_DUP \<and> unat (script ! 1) = OP_HASH160 \<and> script ! 2 = 20
         \<and> unat (script ! 23) = OP_EQUALVERIFY \<and> unat (script ! 24) = OP_CHECKSIG
      then Some (take 20 (drop 3 script)) else None)"

definition IsSmallInteger :: "opcodetype \<Rightarrow> bool" where
  "IsSmallInteger opcode \<longleftrightarrow> opcode \<ge> OP_1 \<and> opcode \<le> OP_16"

definition IsPushdataOp :: "opcodetype \<Rightarrow> bool" where
  "IsPushdataOp opcode \<longleftrightarrow> opcode > OP_0 \<and> opcode \<le> OP_PUSHDATA4"

definition GetScriptNumber :: "opcodetype \<Rightarrow> bytes \<Rightarrow> int \<Rightarrow> int \<Rightarrow> int option" where
  "GetScriptNumber opcode data mn mx =
     (case (if IsSmallInteger opcode then DecodeOP_N opcode
            else if IsPushdataOp opcode
            then if \<not> CheckMinimalPush data opcode then None
                 else map_option getint (CScriptNum data True nDefaultMaxNumSize)
            else None) of
        None \<Rightarrow> None
      | Some n \<Rightarrow> if n < mn \<or> n > mx then None else Some n)"

text \<open>The loop over the keys of a multisig script: the keys read, then the opcode, operand and position
  at which it stopped.\<close>

function multisig_keys :: "bytes \<Rightarrow> bytes list \<Rightarrow> bytes list \<times> opcodetype \<times> bytes \<times> bytes" where
  "multisig_keys it pubkeys =
     (case GetScriptOp it of
        None \<Rightarrow> (pubkeys, OP_INVALIDOPCODE, [], it)
      | Some (opcode, data, it') \<Rightarrow>
          if CPubKey_ValidSize data then multisig_keys it' (pubkeys @ [data]) else (pubkeys, opcode, data, it'))"
  by pat_completeness auto
termination
  by (relation "measure (\<lambda>(it, pubkeys). length it)") (auto dest: GetScriptOp_shorter)

declare multisig_keys.simps [simp del]

definition MatchMultisig :: "CScript \<Rightarrow> (int \<times> bytes list) option" where
  "MatchMultisig script =
     (if length script < 1 \<or> unat (last script) \<noteq> OP_CHECKMULTISIG then None
      else case GetScriptOp script of
             None \<Rightarrow> None
           | Some (opcode, data, it) \<Rightarrow>
               (case GetScriptNumber opcode data 1 MAX_PUBKEYS_PER_MULTISIG of
                  None \<Rightarrow> None
                | Some required_sigs \<Rightarrow>
                    (case multisig_keys it [] of (pubkeys, opcode, data, it) \<Rightarrow>
                       (case GetScriptNumber opcode data required_sigs MAX_PUBKEYS_PER_MULTISIG of
                          None \<Rightarrow> None
                        | Some num_keys \<Rightarrow>
                            if int (length pubkeys) \<noteq> num_keys then None
                            else if length it = 1 then Some (required_sigs, pubkeys) else None))))"

text \<open>The keys of a script of \<^verbatim>\<open>OP_CHECKSIG\<close> and \<^verbatim>\<open>OP_CHECKSIGADD\<close> terms; \<open>None\<close> on a malformed term.\<close>

function multi_a_keys :: "bytes \<Rightarrow> bytes list \<Rightarrow> (bytes list \<times> bytes) option" where
  "multi_a_keys it keyspans =
     (if length it \<ge> 34
      then if it ! 0 \<noteq> 32 then None
           else let keyspans = keyspans @ [take 32 (drop 1 it)]
                in if unat (it ! 33) \<noteq> (if length keyspans = 1 then OP_CHECKSIG else OP_CHECKSIGADD) then None
                   else multi_a_keys (drop 34 it) keyspans
      else Some (keyspans, it))"
  by pat_completeness auto
termination
  by (relation "measure (\<lambda>(it, keyspans). length it)") auto

declare multi_a_keys.simps [simp del]

definition MatchMultiA :: "CScript \<Rightarrow> (int \<times> bytes list) option" where
  "MatchMultiA script =
     (if length script = 0 \<or> script ! 0 \<noteq> 32 \<or> unat (last script) \<noteq> OP_NUMEQUAL then None
      else case multi_a_keys script [] of
             None \<Rightarrow> None
           | Some (keyspans, it) \<Rightarrow>
               if length keyspans = 0 \<or> length keyspans > MAX_PUBKEYS_PER_MULTI_A then None
               else case GetScriptOp it of
                      None \<Rightarrow> None
                    | Some (opcode, data, it) \<Rightarrow>
                        if it = [] then None
                        else if unat (hd it) \<noteq> OP_NUMEQUAL then None
                        else if tl it \<noteq> [] then None
                        else map_option (\<lambda>threshold. (threshold, keyspans)) (GetScriptNumber opcode data 1 (int (length keyspans))))"

definition Solver :: "CScript \<Rightarrow> TxoutType \<times> bytes list" where
  "Solver script_pubkey =
     (if IsPayToScriptHash script_pubkey then (SCRIPTHASH, [take 20 (drop 2 script_pubkey)])
      else case IsWitnessProgram script_pubkey of
        Some (witnessversion, witnessprogram) \<Rightarrow>
          if witnessversion = 0 \<and> length witnessprogram = 20 then (WITNESS_V0_KEYHASH, [witnessprogram])
          else if witnessversion = 0 \<and> length witnessprogram = 32 then (WITNESS_V0_SCRIPTHASH, [witnessprogram])
          else if witnessversion = 1 \<and> length witnessprogram = 32 then (WITNESS_V1_TAPROOT, [witnessprogram])
          else if witnessversion = 2 \<and> length witnessprogram = 32 then (WITNESS_V2_PQ, [witnessprogram])
          else if witnessversion = 3 \<and> length witnessprogram = 32 then (WITNESS_V3_PQ, [witnessprogram])
          else if IsPayToAnchor script_pubkey then (ANCHOR, [])
          else if witnessversion \<noteq> 0 then (WITNESS_UNKNOWN, [[of_int witnessversion], witnessprogram])
          else (NONSTANDARD, [])
      | None \<Rightarrow>
          if length script_pubkey \<ge> 1 \<and> unat (script_pubkey ! 0) = OP_RETURN \<and> IsPushOnly (drop 1 script_pubkey)
          then (NULL_DATA, [])
          else case MatchPayToPubkey script_pubkey of
            Some data \<Rightarrow> (PUBKEY, [data])
          | None \<Rightarrow>
              (case MatchPayToPubkeyHash script_pubkey of
                 Some data \<Rightarrow> (PUBKEYHASH, [data])
               | None \<Rightarrow>
                   (case MatchMultisig script_pubkey of
                      Some (required, ks) \<Rightarrow> (MULTISIG, [of_int required] # ks @ [[of_nat (length ks)]])
                    | None \<Rightarrow> (NONSTANDARD, []))))"

definition GetScriptForRawPubKey :: "bytes \<Rightarrow> CScript" where
  "GetScriptForRawPubKey pubKey = push_data [] pubKey @ [of_nat OP_CHECKSIG]"

definition GetScriptForMultisig :: "int \<Rightarrow> bytes list \<Rightarrow> CScript" where
  "GetScriptForMultisig nRequired ks =
     push_int64 (foldl push_data (push_int64 [] nRequired) ks) (int (length ks)) @ [of_nat OP_CHECKMULTISIG]"

section \<open>Numbers are read back as written\<close>

lemma byte_msb: "(m :: byte) AND 0x80 = 0 \<longleftrightarrow> unat m < 128"
proof -
  have "m AND 0x80 = 0 \<longleftrightarrow> \<not> bit m 7"
    using and_exp_eq_0_iff_not_bit [of m 7] by simp
  also have "bit m 7 \<longleftrightarrow> odd (unat m div 128)"
    using bit_unsigned_iff [of m 7, where 'a = nat] bit_iff_odd [of "unat m" 7] by (simp add: bit_nat_def)
  also have "odd (unat m div 128) \<longleftrightarrow> \<not> unat m < 128"
  proof -
    have "unat m div 128 < 2" using unat_byte_less [of m] by linarith
    then have "unat m div 128 = 0 \<or> unat m div 128 = 1" by linarith
    then show ?thesis by (auto simp: div_eq_0_iff)
  qed
  finally show ?thesis by simp
qed

lemma byte_magnitude: "unat ((m :: byte) AND 0x7f) = unat m mod 128"
proof -
  have "m AND 0x7f = take_bit 7 m" by (simp add: take_bit_eq_mask mask_numeral)
  then show ?thesis by (simp only: unsigned_take_bit_eq) (simp add: take_bit_eq_mod)
qed

lemma byte_or: "unat (m :: byte) < 128 \<Longrightarrow> unat (m OR 0x80) = unat m + 128"
proof -
  assume m: "unat m < 128"
  then have "m AND 0x80 = 0" by (simp add: byte_msb)
  then have "m OR 0x80 = m + 0x80" by (rule disjunctive_add_eq_or [symmetric])
  then show ?thesis using m by (simp add: unat_word_ariths)
qed

lemma set_vch_snoc:
  "set_vch (bs @ [m]) =
     (if unat m < 128 then int (from_le bs + 256 ^ length bs * unat m)
      else - int (from_le bs + 256 ^ length bs * (unat m - 128)))"
proof (cases "unat m < 128")
  case True
  then show ?thesis using byte_msb [of m] by (simp add: set_vch_def Let_def from_le_append)
next
  case False
  let ?k = "8 * length bs + 7"
  define y where "y = from_le bs + 256 ^ length bs * (unat m - 128)"
  have p: "(256 :: nat) ^ length bs = 2 ^ (8 * length bs)" by (simp add: power_mult)
  have u: "unat m = (unat m - 128) + 128" using False by simp
  have x: "from_le (bs @ [m]) = y + 2 ^ ?k"
    by (subst from_le_append) (subst from_le.simps, subst u, simp add: y_def p power_add algebra_simps)
  have "y < 256 ^ length bs * (unat m - 128 + 1)" using from_le_bound [of bs] by (simp add: y_def)
  also have "\<dots> \<le> 256 ^ length bs * 128" using unat_byte_less [of m] by (intro mult_le_mono2) linarith
  finally have y: "y < 2 ^ ?k" by (simp add: p power_add)
  have "int (y + 2 ^ ?k) AND NOT (push_bit (8 * length bs) 0x80) = unset_bit ?k (int (y + 2 ^ ?k))"
    by (simp add: unset_bit_eq_and_not push_bit_eq_mult power_add mult.commute)
  also have "\<dots> = int y"
  proof -
    have "int y < 2 ^ ?k" using y by (simp only: of_nat_less_numeral_power_cancel_iff)
    then have "(int y + 2 ^ ?k) div 2 ^ ?k = 1" by (subst div_add_self2) simp_all
    then have "bit (int (y + 2 ^ ?k)) ?k" by (simp add: bit_iff_odd)
    then show ?thesis by (simp add: unset_bit_eq)
  qed
  finally show ?thesis using False byte_msb [of m] by (simp add: set_vch_def Let_def x y_def)
qed


lemma byte_sign_bit: "128 \<le> unat (m :: byte) \<Longrightarrow> unat m mod 128 = unat m - 128"
proof -
  assume m: "128 \<le> unat m"
  have "unat m - 128 < 128" using unat_byte_less [of m] by linarith
  then show ?thesis using m by (simp add: le_mod_geq)
qed

lemma set_vch_abs: "nat \<bar>set_vch (bs @ [m])\<bar> = from_le bs + 256 ^ length bs * (unat m mod 128)"
proof (cases "unat m < 128")
  case True
  then have "\<bar>set_vch (bs @ [m])\<bar> = int (from_le bs + 256 ^ length bs * (unat m mod 128))"
    by (simp only: set_vch_snoc if_True mod_less abs_of_nat)
  then show ?thesis by (simp only: nat_int)
next
  case False
  then have "\<bar>set_vch (bs @ [m])\<bar> = int (from_le bs + 256 ^ length bs * (unat m mod 128))"
    unfolding set_vch_snoc if_not_P [OF False] byte_sign_bit [OF leI [OF False]] by (simp only: abs_minus_cancel abs_of_nat)
  then show ?thesis by (simp only: nat_int)
qed

lemma set_vch_sign: "set_vch (bs @ [m]) \<noteq> 0 \<Longrightarrow> set_vch (bs @ [m]) < 0 \<longleftrightarrow> 128 \<le> unat m"
  unfolding set_vch_snoc by (cases "unat m < 128") (simp_all only: if_True if_False, linarith+)

lemma from_le_abs_bytes [simp]: "from_le (abs_bytes n) = n"
proof (induction n rule: abs_bytes.induct)
  case (1 n)
  show ?case
  proof (cases "n = 0")
    case False
    then show ?thesis using 1 by (subst abs_bytes.simps) (simp add: unat_of_nat take_bit_eq_mod)
  qed (simp add: abs_bytes.simps)
qed

lemma abs_bytes_eq_Nil [simp]: "abs_bytes n = [] \<longleftrightarrow> n = 0"
  by (subst abs_bytes.simps) simp

lemma from_le_zero: "from_le bs = 0 \<longleftrightarrow> (\<forall>b\<in>set bs. b = 0)"
  by (induction bs) (auto simp: unat_eq_0)

text \<open>The bytes of a number are the only ones that denote it without leading zeros.\<close>

lemma abs_bytes_unique: "bs \<noteq> [] \<Longrightarrow> last bs \<noteq> 0 \<Longrightarrow> abs_bytes (from_le bs) = bs"
proof (induction bs)
  case (Cons b bs)
  have ne: "from_le (b # bs) \<noteq> 0" using Cons.prems last_in_set [of "b # bs"] unfolding from_le_zero by auto
  have d: "from_le (b # bs) div 256 = from_le bs" and m: "of_nat (from_le (b # bs)) = b"
    using unat_byte_less [of b] to_from_le [of "b # bs" "Suc (length bs)"] by simp_all
  have "abs_bytes (from_le (b # bs)) = b # abs_bytes (from_le bs)"
    using ne by (subst abs_bytes.simps) (simp only: d m if_False)
  moreover have "abs_bytes (from_le bs) = bs"
    using Cons by (cases "bs = []") (auto simp: abs_bytes.simps [of 0])
  ultimately show ?case by simp
qed simp

lemma last_abs_bytes: "n \<noteq> 0 \<Longrightarrow> last (abs_bytes n) \<noteq> 0"
proof (induction n rule: abs_bytes.induct)
  case (1 n)
  show ?case
  proof (cases "n div 256 = 0")
    case True
    then have n: "n < 256" by (simp add: div_eq_0_iff)
    have "abs_bytes n = [of_nat n]"
      using 1(2) True by (subst abs_bytes.simps) (simp add: abs_bytes.simps [of 0])
    then show ?thesis using 1(2) n by (auto simp: word_of_nat_eq_0_iff dest: dvd_imp_le)
  next
    case False
    then show ?thesis using 1 by (subst abs_bytes.simps) simp
  qed
qed

lemma length_abs_bytes: "n < 256 ^ k \<Longrightarrow> length (abs_bytes n) \<le> k"
proof (induction k arbitrary: n)
  case (Suc k)
  have "n div 256 < 256 ^ k" using Suc.prems by (intro less_mult_imp_div_less) (simp add: mult.commute)
  then show ?case using Suc.IH [of "n div 256"] by (subst abs_bytes.simps) simp
qed (simp add: abs_bytes.simps)

lemma abs_bytes_snoc:
  assumes "n \<noteq> 0"
  obtains bs m where "abs_bytes n = bs @ [m]" "unat m \<noteq> 0" "n = from_le bs + 256 ^ length bs * unat m"
proof -
  have "abs_bytes n = butlast (abs_bytes n) @ [last (abs_bytes n)]" using assms by simp
  then show thesis using that last_abs_bytes [OF assms] from_le_abs_bytes [of n]
    by (metis from_le.simps from_le_append mult_zero_right add_0_right unat_eq_zero)
qed


lemma serialize_abs:
  assumes "int64_ok v" "v \<noteq> 0" "r = abs_bytes (nat \<bar>v\<bar>)"
  shows "scriptnum_serialize v =
    (if 128 \<le> unat (last r) then r @ [if v < 0 then 0x80 else 0]
     else if v < 0 then butlast r @ [last r OR 0x80] else r)"
proof -
  have "NOT (of_int v) + 1 = (of_int (- v) :: u64)"
    using minus_eq_not_plus_1 [of "of_int v :: u64"] by simp
  then have "(if v < 0 then NOT (of_int v) + 1 else of_int v :: u64) = of_nat (nat \<bar>v\<bar>)"
    by (simp only: of_nat_nat abs_ge_zero) (simp add: abs_if)
  moreover have "nat \<bar>v\<bar> < 2 ^ 64" using assms(1) by (auto simp: int64_ok_def nat_less_iff)
  moreover have "unat (of_nat k :: u64) = k" if "k < 2 ^ 64" for k
    using that by (simp add: unat_of_nat take_bit_eq_mod)
  ultimately have "unat (if v < 0 then NOT (of_int v) + 1 else of_int v :: u64) = nat \<bar>v\<bar>" by (simp only:)
  then show ?thesis using assms(2,3) byte_msb [of "last r"]
    by (auto simp: scriptnum_serialize_def Let_def not_less)
qed

text \<open>The condition that the constructor checks when it requires minimal encodings.\<close>

definition minimal_vch :: "bytes \<Rightarrow> bool" where
  "minimal_vch vch \<longleftrightarrow> vch = [] \<or> unat (last vch) mod 128 \<noteq> 0 \<or> (length vch > 1 \<and> 128 \<le> unat (vch ! (length vch - 2)))"

lemma CScriptNum_minimal: "CScriptNum vch True n = Some v \<longleftrightarrow> length vch \<le> n \<and> minimal_vch vch \<and> v = set_vch vch"
proof -
  have "last vch AND 0x7f = 0 \<longleftrightarrow> unat (last vch) mod 128 = 0" by (metis byte_magnitude unat_eq_zero)
  then show ?thesis by (auto simp: CScriptNum_def minimal_vch_def byte_msb)
qed

lemma serialize_set_vch:
  assumes "int64_ok v"
  shows "set_vch (scriptnum_serialize v) = v" "minimal_vch (scriptnum_serialize v)"
proof -
  have "set_vch (scriptnum_serialize v) = v \<and> minimal_vch (scriptnum_serialize v)"
  proof (cases "v = 0")
    case False
    then obtain bs m where r: "abs_bytes (nat \<bar>v\<bar>) = bs @ [m]" "unat m \<noteq> 0"
      and n: "nat \<bar>v\<bar> = from_le bs + 256 ^ length bs * unat m"
      by (auto intro: abs_bytes_snoc [of "nat \<bar>v\<bar>"])
    have v: "v = (if v < 0 then - int (from_le bs + 256 ^ length bs * unat m) else int (from_le bs + 256 ^ length bs * unat m))"
      unfolding n [symmetric] by simp
    note e = serialize_abs [OF assms False r(1) [symmetric]]
    show ?thesis
    proof (cases "128 \<le> unat m")
      case True
      have "from_le (bs @ [m]) = from_le bs + 256 ^ length bs * unat m" by (simp add: from_le_append)
      then show ?thesis using True v unfolding e
        by (cases "v < 0") (simp_all add: set_vch_snoc [of "bs @ [m]", simplified] minimal_vch_def nth_append)
    next
      case False
      then show ?thesis using v r(2) byte_or [of m] unfolding e
        by (auto simp: set_vch_snoc minimal_vch_def not_le)
    qed
  qed (simp add: scriptnum_serialize_def set_vch_def minimal_vch_def)
  then show "set_vch (scriptnum_serialize v) = v" "minimal_vch (scriptnum_serialize v)" by auto
qed


lemma length_serialize:
  assumes "int64_ok v" "\<bar>v\<bar> < 2 ^ (8 * n - 1)" "0 < n"
  shows "length (scriptnum_serialize v) \<le> n"
proof (cases "v = 0")
  case False
  then obtain bs m where r: "abs_bytes (nat \<bar>v\<bar>) = bs @ [m]" "unat m \<noteq> 0"
    and n: "nat \<bar>v\<bar> = from_le bs + 256 ^ length bs * unat m"
    by (auto intro: abs_bytes_snoc [of "nat \<bar>v\<bar>"])
  note e = serialize_abs [OF assms(1) False r(1) [symmetric]]
  have v: "nat \<bar>v\<bar> < 2 ^ (8 * n - 1)" using assms(2) by (simp add: nat_less_iff)
  have "length bs < n"
  proof (rule ccontr)
    assume "\<not> length bs < n"
    then have "(2 :: nat) ^ (8 * n - 1) \<le> 2 ^ (8 * length bs)" by (intro power_increasing) auto
    also have "\<dots> = 256 ^ length bs" by (simp add: power_mult)
    also have "\<dots> \<le> nat \<bar>v\<bar>" using n r(2) by (cases "unat m") auto
    finally show False using v by simp
  qed
  moreover have "Suc (length bs) < n" if "128 \<le> unat m"
  proof (rule ccontr)
    assume "\<not> Suc (length bs) < n"
    then have "(2 :: nat) ^ (8 * n - 1) \<le> 2 ^ (8 * length bs + 7)" by (intro power_increasing) auto
    also have "\<dots> = 256 ^ length bs * 128" by (simp add: power_add power_mult)
    also have "\<dots> \<le> nat \<bar>v\<bar>" using n that mult_le_mono2 [OF that, of "256 ^ length bs"] by linarith
    finally show False using v by simp
  qed
  ultimately show ?thesis using e by auto
qed (simp add: scriptnum_serialize_def)

lemma set_vch_bound:
  assumes "length vch \<le> n" "0 < n"
  shows "\<bar>set_vch vch\<bar> < 2 ^ (8 * n - 1)"
proof (cases vch rule: rev_cases)
  case (snoc bs m)
  define u where "u = unat m mod 128"
  have a: "nat \<bar>set_vch vch\<bar> = from_le bs + 256 ^ length bs * u" by (simp only: snoc set_vch_abs u_def)
  have "from_le bs + 256 ^ length bs * u < 256 ^ length bs * (u + 1)" using from_le_bound [of bs] by simp
  also have "\<dots> \<le> 256 ^ length bs * 128" by (intro mult_le_mono2) (simp add: u_def Suc_leI)
  also have "\<dots> = 2 ^ (8 * length bs + 7)" by (simp add: power_add power_mult)
  also have "\<dots> \<le> 2 ^ (8 * n - 1)" using assms snoc by (intro power_increasing) auto
  finally show ?thesis unfolding a [symmetric] by (simp add: nat_less_iff)
qed (simp add: set_vch_def)

lemma set_vch_serialize:
  assumes "minimal_vch vch" "length vch \<le> 8"
  shows "scriptnum_serialize (set_vch vch) = vch"
proof (cases vch rule: rev_cases)
  case (snoc bs m)
  have ok: "int64_ok (set_vch vch)" using set_vch_bound [OF assms(2)] by (simp add: int64_ok_def abs_less_iff)
  show ?thesis
  proof (cases "unat m mod 128 = 0")
    case False
    define m' where "m' = m AND 0x7f"
    have m': "unat m' = unat m mod 128" "m' \<noteq> 0" using byte_magnitude [of m] False by (auto simp: m'_def)
    have f: "from_le (bs @ [m']) = nat \<bar>set_vch vch\<bar>"
      by (simp add: snoc set_vch_abs from_le_append m' del: abs_of_nat)
    have r: "bs @ [m'] = abs_bytes (nat \<bar>set_vch vch\<bar>)" using abs_bytes_unique [of "bs @ [m']"] m'(2) by (simp add: f)
    have z: "set_vch vch \<noteq> 0" using r by (metis abs_bytes_eq_Nil abs_zero nat_0 snoc_eq_iff_butlast)
    have s: "set_vch vch < 0 \<longleftrightarrow> 128 \<le> unat m" using z set_vch_sign by (simp only: snoc)
    have "128 \<le> unat m \<Longrightarrow> m' OR 0x80 = m"
      using byte_or [of m'] m'(1) byte_sign_bit [of m] unat_byte_less [of m] by (intro unsigned_word_eqI [where 'a = nat]) linarith
    moreover have "unat m < 128 \<Longrightarrow> m' = m" using m'(1) by (intro unsigned_word_eqI [where 'a = nat]) simp
    ultimately show ?thesis using serialize_abs [OF ok z r] m'(1) s by (auto simp: snoc not_le)
  next
    case True
    then have bs: "bs \<noteq> []" "128 \<le> unat (last bs)"
      using assms(1) by (auto simp: snoc minimal_vch_def nth_append last_conv_nth)
    have "unat m = 0 \<or> unat m = 128" using True unat_byte_less [of m] by presburger
    then have m: "m = 0 \<or> m = 0x80" by (auto intro: unsigned_word_eqI [where 'a = nat])
    have f: "from_le bs = nat \<bar>set_vch vch\<bar>" using m by (auto simp: snoc set_vch_abs)
    have "last bs \<noteq> 0" using bs(2) by auto
    then have r: "bs = abs_bytes (nat \<bar>set_vch vch\<bar>)" using abs_bytes_unique [OF bs(1)] by (simp add: f)
    have z: "set_vch vch \<noteq> 0" using r bs(1) by (metis abs_bytes_eq_Nil abs_zero nat_0)
    then have "set_vch vch < 0 \<longleftrightarrow> m = 0x80" using m by (auto simp: snoc set_vch_snoc)
    then show ?thesis using serialize_abs [OF ok z r] bs(2) m by (auto simp: snoc)
  qed
qed (simp add: set_vch_def scriptnum_serialize_def)


text \<open>C32. A number of the script language is read back as written: every value of less than \<open>8 n\<close> bits and a
  sign has an encoding of at most \<open>n\<close> bytes that the constructor accepts as minimal and decodes to it, and every byte string
  that the constructor accepts as minimal is the encoding of its value.  There is no second minimal encoding, and
  no value an opcode reads is outside the range.\<close>

theorem CScriptNum_canonical:
  assumes "0 < n" "n \<le> 8"
  shows "(\<bar>v\<bar> < 2 ^ (8 * n - 1) \<longrightarrow> CScriptNum (scriptnum_serialize v) True n = Some v)
    \<and> (CScriptNum vch True n = Some w \<longrightarrow> scriptnum_serialize w = vch \<and> \<bar>w\<bar> < 2 ^ (8 * n - 1))"
proof (intro conjI impI)
  assume v: "\<bar>v\<bar> < 2 ^ (8 * n - 1)"
  have "(2 :: int) ^ (8 * n - 1) \<le> 2 ^ 63" using assms(2) by (intro power_increasing) auto
  then have "int64_ok v" using v by (simp add: int64_ok_def abs_less_iff)
  then show "CScriptNum (scriptnum_serialize v) True n = Some v"
    using serialize_set_vch length_serialize [OF _ v assms(1)] by (simp add: CScriptNum_minimal)
next
  assume "CScriptNum vch True n = Some w"
  then show "scriptnum_serialize w = vch" "\<bar>w\<bar> < 2 ^ (8 * n - 1)"
    using set_vch_serialize [of vch] set_vch_bound [OF _ assms(1), of vch] assms(2) by (auto simp: CScriptNum_minimal)
qed

theorem CScriptNum_canonical_witness:
  "CScriptNum (scriptnum_serialize (- 255)) True 4 = Some (- 255) \<and> scriptnum_serialize (- 255) = [0xff, 0x80]"
proof -
  have "CScriptNum [0xff, 0x80] True 4 = Some (- 255)" by (simp add: CScriptNum_def set_vch_def)
  then show ?thesis using CScriptNum_canonical [of 4 "- 255" "[0xff, 0x80]" "- 255"] by simp
qed

section \<open>Pushes are read back as written\<close>

lemma unat_of_nat_fits: "n < 2 ^ LENGTH('a) \<Longrightarrow> unat (of_nat n :: 'a :: len word) = n"
  by (simp add: unat_of_nat take_bit_eq_mod)

text \<open>The opcode with which \<^verbatim>\<open>operator<<\<close> pushes data of a given size.\<close>

definition push_op :: "nat \<Rightarrow> opcodetype" where
  "push_op n = (if n < 76 then n else if n \<le> 255 then OP_PUSHDATA1 else if n \<le> 65535 then OP_PUSHDATA2 else OP_PUSHDATA4)"

lemma GetScriptOp_push:
  assumes "length b < 2 ^ 32"
  shows "GetScriptOp (push_data [] b @ rest) = Some (push_op (length b), b, rest)"
proof -
  let ?n = "of_nat (length b) :: u32"
  have n: "unat ?n = length b" using assms by (intro unat_of_nat_fits) simp
  have byte: "unat (ucast ?n :: byte) = length b" if "length b < 256"
    using that n by (simp add: unsigned_ucast_eq take_bit_eq_mod)
  consider "length b < 76" | "76 \<le> length b" "length b < 256" | "256 \<le> length b" "length b < 65536" | "65536 \<le> length b"
    by linarith
  then show ?thesis
  proof cases
    case 1
    then show ?thesis using n byte by (simp add: GetScriptOp_def push_data_def AppendDataSize_def push_op_def Let_def)
  next
    case 2
    then have "?n \<le> 0xff" using n by (simp add: word_le_nat_alt)
    then show ?thesis using 2 n byte
      by (simp add: GetScriptOp_def push_data_def AppendDataSize_def push_op_def Let_def)
  next
    case 3
    then have "\<not> ?n \<le> 0xff" "?n \<le> 0xffff" using n by (simp_all add: word_le_nat_alt)
    moreover have "ReadLE16 (WriteLE16 v @ x) = v" for v x
      using unsigned_less [of v, where 'a = nat] by (simp add: ReadLE16_def WriteLE16_def)
    moreover have "unat (ucast ?n :: 16 word) = length b" using 3 n by (simp add: unsigned_ucast_eq take_bit_eq_mod)
    moreover have "length (WriteLE16 x) = 2" for x by (simp add: WriteLE16_def)
    ultimately show ?thesis using 3 n
      by (simp add: GetScriptOp_def push_data_def AppendDataSize_def push_op_def Let_def)
  next
    case 4
    then have "\<not> ?n \<le> 0xff" "\<not> ?n \<le> 0xffff" using n by (simp_all add: word_le_nat_alt)
    moreover have "ReadLE32 (WriteLE32 v @ x) = v" for v x
      using unsigned_less [of v, where 'a = nat] by (simp add: ReadLE32_def WriteLE32_def)
    moreover have "length (WriteLE32 x) = 4" for x by (simp add: WriteLE32_def)
    ultimately show ?thesis using 4 n
      by (simp add: GetScriptOp_def push_data_def AppendDataSize_def push_op_def Let_def)
  qed
qed

lemma push_data_append: "push_data script b = script @ push_data [] b"
  by (simp add: push_data_def)

lemma push_op_le: "push_op n \<le> OP_PUSHDATA4"
  by (simp add: push_op_def)


section \<open>What the recognisers accept\<close>

lemma DecodeOP_N_iff: "DecodeOP_N n = Some v \<longleftrightarrow> EncodeOP_N v = Some n"
  by (auto simp: DecodeOP_N_def EncodeOP_N_def split: if_splits)

lemma DecodeOP_N_range: "n = OP_0 \<or> OP_1 \<le> n \<and> n \<le> OP_16 \<Longrightarrow> \<exists>v. DecodeOP_N n = Some v \<and> 0 \<le> v \<and> v \<le> 16"
  by (auto simp: DecodeOP_N_def)

text \<open>A witness program is the version, one push of 2 to 40 bytes, and nothing else.\<close>

lemma IsWitnessProgram_iff:
  "IsWitnessProgram script = Some (v, program) \<longleftrightarrow>
     0 \<le> v \<and> v \<le> 16 \<and> 2 \<le> length program \<and> length program \<le> 40
     \<and> script = of_nat (the (EncodeOP_N v)) # of_nat (length program) # program"
proof
  assume a: "IsWitnessProgram script = Some (v, program)"
  then obtain x y where s: "script = x # y # program"
    by (cases script; cases "tl script") (auto simp: IsWitnessProgram_def split: if_splits)
  have l: "2 \<le> length program" "length program \<le> 40" "unat y = length program"
    and x: "unat x = OP_0 \<or> OP_1 \<le> unat x \<and> unat x \<le> OP_16" and v: "v = the (DecodeOP_N (unat x))"
    using a by (auto simp: s IsWitnessProgram_def split: if_splits)
  have "y = of_nat (length program)" unfolding l(3) [symmetric] by simp
  moreover have "0 \<le> v \<and> v \<le> 16 \<and> the (EncodeOP_N v) = unat x" by (metis DecodeOP_N_range [OF x] v DecodeOP_N_iff option.sel)
  ultimately show "0 \<le> v \<and> v \<le> 16 \<and> 2 \<le> length program \<and> length program \<le> 40
     \<and> script = of_nat (the (EncodeOP_N v)) # of_nat (length program) # program"
    using l s by simp
next
  assume a: "0 \<le> v \<and> v \<le> 16 \<and> 2 \<le> length program \<and> length program \<le> 40
     \<and> script = of_nat (the (EncodeOP_N v)) # of_nat (length program) # program"
  define x where "x = the (EncodeOP_N v)"
  have x: "x = OP_0 \<and> v = 0 \<or> OP_1 \<le> x \<and> x \<le> OP_16 \<and> v = int x - 80"
    using a by (auto simp: x_def EncodeOP_N_def)
  then have "unat (of_nat x :: byte) = x" "unat (of_nat (length program) :: byte) = length program"
    using a by (auto intro!: unat_of_nat_fits)
  then show "IsWitnessProgram script = Some (v, program)"
    using a x by (auto simp: IsWitnessProgram_def DecodeOP_N_def x_def [symmetric])
qed

lemma IsWitnessProgram_not_p2sh: "IsWitnessProgram script = Some vp \<Longrightarrow> \<not> IsPayToScriptHash script"
  by (auto simp: IsWitnessProgram_def IsPayToScriptHash_def split: if_splits)


text \<open>The two kinds of output that this chain lets a transaction create for spending, as bytes.\<close>

lemma Solver_witness:
  "fst (Solver script) = WITNESS_V2_PQ \<longleftrightarrow> (\<exists>program. length program = 32 \<and> script = of_nat OP_2 # 32 # program)"
  "fst (Solver script) = WITNESS_V3_PQ \<longleftrightarrow> (\<exists>program. length program = 32 \<and> script = of_nat OP_3 # 32 # program)"
proof -
  have p: "fst (Solver script) = t \<longleftrightarrow> (\<exists>program. IsWitnessProgram script = Some (v, program) \<and> length program = 32)"
    if "(t, v) = (WITNESS_V2_PQ, 2) \<or> (t, v) = (WITNESS_V3_PQ, 3)" for t v
  proof (cases "IsWitnessProgram script")
    case None
    then show ?thesis using that by (elim disjE) (simp_all add: Solver_def split: option.split prod.split)
  next
    case (Some vp)
    then show ?thesis using that IsWitnessProgram_not_p2sh [OF Some]
      by (cases vp, elim disjE) (simp_all add: Solver_def)
  qed
  show "fst (Solver script) = WITNESS_V2_PQ \<longleftrightarrow> (\<exists>program. length program = 32 \<and> script = of_nat OP_2 # 32 # program)"
    using p [of WITNESS_V2_PQ 2] by (auto simp: IsWitnessProgram_iff EncodeOP_N_def)
  show "fst (Solver script) = WITNESS_V3_PQ \<longleftrightarrow> (\<exists>program. length program = 32 \<and> script = of_nat OP_3 # 32 # program)"
    using p [of WITNESS_V3_PQ 3] by (auto simp: IsWitnessProgram_iff EncodeOP_N_def)
qed

end
