(* ===== verification/Script_Types.thy ===== *)
theory Script_Types
  imports Script_Core
begin

text \<open>
  What the script interpreter returns and is given: \<^verbatim>\<open>script/script_error.h\<close>, the verification flags, signature
  versions, execution data and signature checker of \<^verbatim>\<open>script/interpreter.h\<close>.  A false return with its
  \<^verbatim>\<open>ScriptError\<close>, an exception and a failed assertion are values of the result type.  The virtual members of
  \<^verbatim>\<open>BaseSignatureChecker\<close> are the fields of a record, so that the interpreter is verified for every checker.
\<close>

section \<open>Results\<close>

datatype (plugins only:) ScriptError = SCRIPT_ERR_OK | SCRIPT_ERR_UNKNOWN_ERROR | SCRIPT_ERR_EVAL_FALSE | SCRIPT_ERR_OP_RETURN | SCRIPT_ERR_SCRIPTNUM
  | SCRIPT_ERR_SCRIPT_SIZE | SCRIPT_ERR_PUSH_SIZE | SCRIPT_ERR_OP_COUNT | SCRIPT_ERR_STACK_SIZE | SCRIPT_ERR_SIG_COUNT
  | SCRIPT_ERR_PUBKEY_COUNT | SCRIPT_ERR_VERIFY | SCRIPT_ERR_EQUALVERIFY | SCRIPT_ERR_CHECKMULTISIGVERIFY
  | SCRIPT_ERR_CHECKSIGVERIFY | SCRIPT_ERR_NUMEQUALVERIFY | SCRIPT_ERR_BAD_OPCODE | SCRIPT_ERR_DISABLED_OPCODE
  | SCRIPT_ERR_INVALID_STACK_OPERATION | SCRIPT_ERR_INVALID_ALTSTACK_OPERATION | SCRIPT_ERR_UNBALANCED_CONDITIONAL
  | SCRIPT_ERR_NEGATIVE_LOCKTIME | SCRIPT_ERR_UNSATISFIED_LOCKTIME | SCRIPT_ERR_SIG_HASHTYPE | SCRIPT_ERR_SIG_DER
  | SCRIPT_ERR_MINIMALDATA | SCRIPT_ERR_SIG_PUSHONLY | SCRIPT_ERR_SIG_HIGH_S | SCRIPT_ERR_SIG_NULLDUMMY
  | SCRIPT_ERR_PUBKEYTYPE | SCRIPT_ERR_CLEANSTACK | SCRIPT_ERR_MINIMALIF | SCRIPT_ERR_SIG_NULLFAIL
  | SCRIPT_ERR_DISCOURAGE_UPGRADABLE_NOPS | SCRIPT_ERR_DISCOURAGE_UPGRADABLE_WITNESS_PROGRAM
  | SCRIPT_ERR_DISCOURAGE_UPGRADABLE_TAPROOT_VERSION | SCRIPT_ERR_DISCOURAGE_OP_SUCCESS
  | SCRIPT_ERR_DISCOURAGE_UPGRADABLE_PUBKEYTYPE | SCRIPT_ERR_WITNESS_PROGRAM_WRONG_LENGTH
  | SCRIPT_ERR_WITNESS_PROGRAM_WITNESS_EMPTY | SCRIPT_ERR_WITNESS_PROGRAM_MISMATCH | SCRIPT_ERR_WITNESS_MALLEATED
  | SCRIPT_ERR_WITNESS_MALLEATED_P2SH | SCRIPT_ERR_WITNESS_UNEXPECTED | SCRIPT_ERR_WITNESS_PUBKEYTYPE
  | SCRIPT_ERR_SCHNORR_SIG_SIZE | SCRIPT_ERR_SCHNORR_SIG_HASHTYPE | SCRIPT_ERR_SCHNORR_SIG
  | SCRIPT_ERR_TAPROOT_WRONG_CONTROL_SIZE | SCRIPT_ERR_TAPSCRIPT_VALIDATION_WEIGHT | SCRIPT_ERR_TAPSCRIPT_CHECKMULTISIG
  | SCRIPT_ERR_TAPSCRIPT_MINIMALIF | SCRIPT_ERR_TAPSCRIPT_EMPTY_PUBKEY | SCRIPT_ERR_OP_CODESEPARATOR
  | SCRIPT_ERR_SIG_FINDANDDELETE | SCRIPT_ERR_XCOIN_V3_CONTROL | SCRIPT_ERR_XCOIN_V3_SIG_SIZE
  | SCRIPT_ERR_XCOIN_V3_SIG_HASHTYPE | SCRIPT_ERR_XCOIN_V3_SIG | SCRIPT_ERR_XCOIN_V3_PUBKEY
  | SCRIPT_ERR_XCOIN_V3_HASH_WEIGHT | SCRIPT_ERR_DISCOURAGE_UPGRADABLE_XCOIN_LEAF_VERSION | SCRIPT_ERR_TEMPLATE_MISMATCH

datatype (plugins only:) eval_fail = Script_Err ScriptError | Assert_Fail

type_synonym 'a eval = "eval_fail + 'a"

definition set_error :: "ScriptError \<Rightarrow> 'a eval" where
  "set_error serror = Inl (Script_Err serror)"

definition bindE :: "'a eval \<Rightarrow> ('a \<Rightarrow> 'b eval) \<Rightarrow> 'b eval" where
  "bindE m f = (case m of Inl e \<Rightarrow> Inl e | Inr x \<Rightarrow> f x)"

definition assertE :: "bool \<Rightarrow> unit eval" where
  "assertE b = (if b then Inr () else Inl Assert_Fail)"

lemma bindE_simps [simp]: "bindE (Inl e) f = Inl e" "bindE (Inr x) f = f x"
  by (simp_all add: bindE_def)

lemma bindE_Inr: "bindE m f = Inr y \<longleftrightarrow> (\<exists>x. m = Inr x \<and> f x = Inr y)"
  by (cases m) auto

lemma bindE_cong [fundef_cong]:
  "m = m' \<Longrightarrow> (\<And>x. m' = Inr x \<Longrightarrow> f x = f' x) \<Longrightarrow> bindE m f = bindE m' f'"
  by (cases m') auto

section \<open>Flags, versions and the checker\<close>

datatype script_verify_flag_name = SCRIPT_VERIFY_P2SH | SCRIPT_VERIFY_STRICTENC | SCRIPT_VERIFY_DERSIG | SCRIPT_VERIFY_LOW_S
  | SCRIPT_VERIFY_NULLDUMMY | SCRIPT_VERIFY_SIGPUSHONLY | SCRIPT_VERIFY_MINIMALDATA
  | SCRIPT_VERIFY_DISCOURAGE_UPGRADABLE_NOPS | SCRIPT_VERIFY_CLEANSTACK | SCRIPT_VERIFY_CHECKLOCKTIMEVERIFY
  | SCRIPT_VERIFY_CHECKSEQUENCEVERIFY | SCRIPT_VERIFY_WITNESS | SCRIPT_VERIFY_DISCOURAGE_UPGRADABLE_WITNESS_PROGRAM
  | SCRIPT_VERIFY_MINIMALIF | SCRIPT_VERIFY_NULLFAIL | SCRIPT_VERIFY_WITNESS_PUBKEYTYPE | SCRIPT_VERIFY_CONST_SCRIPTCODE
  | SCRIPT_VERIFY_TAPROOT | SCRIPT_VERIFY_DISCOURAGE_UPGRADABLE_TAPROOT_VERSION | SCRIPT_VERIFY_DISCOURAGE_OP_SUCCESS
  | SCRIPT_VERIFY_DISCOURAGE_UPGRADABLE_PUBKEYTYPE | SCRIPT_VERIFY_XCOIN_V3

text \<open>The bit set \<^verbatim>\<open>script_verify_flags\<close> is a set of flag names.\<close>

type_synonym script_verify_flags = "script_verify_flag_name set"

datatype SigVersion = BASE | WITNESS_V0 | TAPROOT | TAPSCRIPT | XCOIN_PQ_TAPSCRIPT | XCOIN_SLH_TAPSCRIPT

definition IsXcoinV3Tapscript :: "SigVersion \<Rightarrow> bool" where
  "IsXcoinV3Tapscript sigversion \<longleftrightarrow> sigversion = XCOIN_PQ_TAPSCRIPT \<or> sigversion = XCOIN_SLH_TAPSCRIPT"

record ScriptExecutionData =
  m_tapleaf_hash_init :: bool
  m_tapleaf_hash :: uint256
  m_codeseparator_pos_init :: bool
  m_codeseparator_pos :: u32
  m_annex_init :: bool
  m_annex_present :: bool
  m_annex_hash :: uint256
  m_validation_weight_left_init :: bool
  m_validation_weight_left :: int
  m_output_hash :: "uint256 option"

text \<open>The default member values; a member without one is not read before it is set.\<close>

definition execdata_init :: ScriptExecutionData where
  "execdata_init = \<lparr>m_tapleaf_hash_init = False, m_tapleaf_hash = uint256_zero, m_codeseparator_pos_init = False,
     m_codeseparator_pos = 0, m_annex_init = False, m_annex_present = False, m_annex_hash = uint256_zero,
     m_validation_weight_left_init = False, m_validation_weight_left = 0, m_output_hash = None\<rparr>"

text \<open>A check that takes the execution data may store \<^verbatim>\<open>m_output_hash\<close> there: it returns the error it sets, or
  the new value of that member.  The last two fields are
  the calls of \<^verbatim>\<open>CPubKey\<close> and \<^verbatim>\<open>XOnlyPubKey\<close> into the curve library.\<close>

record BaseSignatureChecker =
  CheckECDSASignature :: "bytes \<Rightarrow> bytes \<Rightarrow> CScript \<Rightarrow> SigVersion \<Rightarrow> bool"
  CheckSchnorrSignature :: "bytes \<Rightarrow> bytes \<Rightarrow> SigVersion \<Rightarrow> ScriptExecutionData \<Rightarrow> ScriptError + uint256 option"
  CheckPQSig :: "bytes \<Rightarrow> bytes \<Rightarrow> CScript \<Rightarrow> SigVersion \<Rightarrow> bool"
  CheckPQSigV3 :: "bytes \<Rightarrow> bytes \<Rightarrow> SigVersion \<Rightarrow> ScriptExecutionData \<Rightarrow> ScriptError + uint256 option"
  CheckSLHSigV3 :: "bytes \<Rightarrow> bytes \<Rightarrow> SigVersion \<Rightarrow> ScriptExecutionData \<Rightarrow> ScriptError + uint256 option"
  CheckDefaultCheckTemplateVerifyHash :: "bytes \<Rightarrow> bool"
  CheckLockTime :: "int \<Rightarrow> bool"
  CheckSequence :: "int \<Rightarrow> bool"
  CheckLowS :: "bytes \<Rightarrow> bool"
  CheckTapTweak :: "bytes \<Rightarrow> bytes \<Rightarrow> uint256 \<Rightarrow> bool \<Rightarrow> bool"

instantiation ScriptError :: equal
begin
definition equal_ScriptError :: "ScriptError \<Rightarrow> ScriptError \<Rightarrow> bool" where
  "equal_ScriptError a b \<longleftrightarrow> a = b"
instance by standard (simp add: equal_ScriptError_def)
end

end
