(* ===== verification/Condition_Stack.thy ===== *)
theory Condition_Stack
  imports Script_Types
begin

text \<open>
  The class \<^verbatim>\<open>ConditionStack\<close> of \<^verbatim>\<open>script/interpreter.cpp\<close>, which keeps only the size of the stack of branch
  conditions and the position of its first false entry.  The locale \<open>condition_stack\<close> is the contract its comment
  states, a stack of booleans of which only emptiness and the conjunction are observed; it is interpreted on
  lists of booleans and on the class.
\<close>

section \<open>The class\<close>

definition NO_FALSE :: u32 where [const_defs]: "NO_FALSE = 0xFFFFFFFF"

record ConditionStack =
  m_stack_size :: u32
  m_first_false_pos :: u32

definition cond_init :: ConditionStack where
  "cond_init = \<lparr>m_stack_size = 0, m_first_false_pos = NO_FALSE\<rparr>"

definition cond_empty :: "ConditionStack \<Rightarrow> bool" where
  "cond_empty c \<longleftrightarrow> m_stack_size c = 0"

definition cond_all_true :: "ConditionStack \<Rightarrow> bool" where
  "cond_all_true c \<longleftrightarrow> m_first_false_pos c = NO_FALSE"

definition cond_push_back :: "bool \<Rightarrow> ConditionStack \<Rightarrow> ConditionStack" where
  "cond_push_back f c =
     (let c = (if m_first_false_pos c = NO_FALSE \<and> \<not> f then c\<lparr>m_first_false_pos := m_stack_size c\<rparr> else c)
      in c\<lparr>m_stack_size := m_stack_size c + 1\<rparr>)"

definition cond_pop_back :: "ConditionStack \<Rightarrow> ConditionStack eval" where
  "cond_pop_back c = bindE (assertE (m_stack_size c > 0))
     (\<lambda>_. let c = c\<lparr>m_stack_size := m_stack_size c - 1\<rparr>
           in Inr (if m_first_false_pos c = m_stack_size c then c\<lparr>m_first_false_pos := NO_FALSE\<rparr> else c))"

definition cond_toggle_top :: "ConditionStack \<Rightarrow> ConditionStack eval" where
  "cond_toggle_top c = bindE (assertE (m_stack_size c > 0))
     (\<lambda>_. Inr (if m_first_false_pos c = NO_FALSE then c\<lparr>m_first_false_pos := m_stack_size c - 1\<rparr>
                else if m_first_false_pos c = m_stack_size c - 1 then c\<lparr>m_first_false_pos := NO_FALSE\<rparr>
                else c))"

section \<open>The contract\<close>

text \<open>What an execution does to the stack, and what it can observe of it after each operation: whether it is
  empty and whether all conditions hold.  A trace that pops or toggles an empty stack ends there with \<open>None\<close>.\<close>

datatype cond_op = Push_Back bool | Pop_Back | Toggle_Top

primrec cond_trace ::
  "('s \<Rightarrow> bool) \<Rightarrow> ('s \<Rightarrow> bool) \<Rightarrow> (cond_op \<Rightarrow> 's \<Rightarrow> 's eval) \<Rightarrow> cond_op list \<Rightarrow> 's \<Rightarrow> (bool \<times> bool) option list"
where
  "cond_trace is_empty all_true step [] c = []"
| "cond_trace is_empty all_true step (x # ops) c =
     (case step x c of Inl e \<Rightarrow> [None]
      | Inr c' \<Rightarrow> Some (is_empty c', all_true c') # cond_trace is_empty all_true step ops c')"

definition cond_step :: "cond_op \<Rightarrow> ConditionStack \<Rightarrow> ConditionStack eval" where
  "cond_step x c = (case x of Push_Back f \<Rightarrow> Inr (cond_push_back f c) | Pop_Back \<Rightarrow> cond_pop_back c | Toggle_Top \<Rightarrow> cond_toggle_top c)"

text \<open>The stack of booleans, with the top first.\<close>

fun bools_step :: "cond_op \<Rightarrow> bool list \<Rightarrow> bool list eval" where
  "bools_step (Push_Back f) bs = Inr (f # bs)"
| "bools_step Pop_Back (b # bs) = Inr bs"
| "bools_step Toggle_Top (b # bs) = Inr ((\<not> b) # bs)"
| "bools_step _ [] = Inl Assert_Fail"

definition bools_all :: "bool list \<Rightarrow> bool" where
  "bools_all bs \<longleftrightarrow> (\<forall>b\<in>set bs. b)"

lemma bools_step_length: "bools_step x bs = Inr bs' \<Longrightarrow> length bs' \<le> Suc (length bs)"
  by (cases "(x, bs)" rule: bools_step.cases) auto

locale condition_stack =
  fixes models :: "'s \<Rightarrow> bool list \<Rightarrow> bool" and limit :: nat
    and is_empty all_true :: "'s \<Rightarrow> bool" and step :: "cond_op \<Rightarrow> 's \<Rightarrow> 's eval"
  assumes is_empty: "models c bs \<Longrightarrow> length bs \<le> limit \<Longrightarrow> is_empty c \<longleftrightarrow> bs = []"
    and all_true: "models c bs \<Longrightarrow> length bs \<le> limit \<Longrightarrow> all_true c \<longleftrightarrow> bools_all bs"
    and step_ok: "models c bs \<Longrightarrow> length bs \<le> limit \<Longrightarrow> bools_step x bs = Inr bs' \<Longrightarrow> length bs' \<le> limit
      \<Longrightarrow> \<exists>c'. step x c = Inr c' \<and> models c' bs'"
    and step_fail: "models c bs \<Longrightarrow> length bs \<le> limit \<Longrightarrow> bools_step x bs = Inl e \<Longrightarrow> \<exists>e. step x c = Inl e"
begin

lemma trace:
  "models c bs \<Longrightarrow> length bs + length ops \<le> limit \<Longrightarrow>
     cond_trace is_empty all_true step ops c = cond_trace (\<lambda>bs. bs = []) bools_all bools_step ops bs"
proof (induction ops arbitrary: c bs)
  case (Cons x ops)
  show ?case
  proof (cases "bools_step x bs")
    case (Inl e)
    then show ?thesis using step_fail [OF Cons.prems(1) _ Inl] Cons.prems(2) by auto
  next
    case (Inr bs')
    have l: "length bs' + length ops \<le> limit" using bools_step_length [OF Inr] Cons.prems(2) by simp
    then obtain c' where c': "step x c = Inr c'" "models c' bs'"
      using step_ok [OF Cons.prems(1) _ Inr] Cons.prems(2) by auto
    then show ?thesis using Inr Cons.IH [OF c'(2) l] is_empty [OF c'(2)] all_true [OF c'(2)] l by simp
  qed
qed simp

end

interpretation bools: condition_stack "(=)" n "\<lambda>bs. bs = []" bools_all bools_step for n
  by unfold_locales auto

section \<open>The class implements it\<close>

primrec first_false :: "bool list \<Rightarrow> nat option" where
  "first_false [] = None"
| "first_false (f # bs) = (case first_false bs of Some p \<Rightarrow> Some p | None \<Rightarrow> if f then None else Some (length bs))"

definition cond_of :: "bool list \<Rightarrow> ConditionStack" where
  "cond_of bs = \<lparr>m_stack_size = of_nat (length bs),
     m_first_false_pos = (case first_false bs of None \<Rightarrow> NO_FALSE | Some p \<Rightarrow> of_nat p)\<rparr>"

lemma first_false_less: "first_false bs = Some p \<Longrightarrow> p < length bs"
  by (induction bs) (auto split: option.splits if_splits dest: less_SucI)

lemma first_false_None: "first_false bs = None \<longleftrightarrow> bools_all bs"
  by (induction bs) (auto simp: bools_all_def split: option.splits)

lemma u32_inject: "m < 2 ^ 32 \<Longrightarrow> n < 2 ^ 32 \<Longrightarrow> (of_nat m :: u32) = of_nat n \<longleftrightarrow> m = n"
  by (auto simp: word_of_nat_eq_iff take_bit_eq_mod)

lemma first_false_pos:
  assumes "length bs < 2 ^ 32 - 1" "k < 2 ^ 32 - 1"
  shows "m_first_false_pos (cond_of bs) = NO_FALSE \<longleftrightarrow> first_false bs = None"
    "m_first_false_pos (cond_of bs) = of_nat k \<longleftrightarrow> first_false bs = Some k"
proof -
  have n: "NO_FALSE = (of_nat (2 ^ 32 - 1) :: u32)" by (simp add: NO_FALSE_def)
  have "(m_first_false_pos (cond_of bs) = NO_FALSE \<longleftrightarrow> first_false bs = None)
    \<and> (m_first_false_pos (cond_of bs) = of_nat k \<longleftrightarrow> first_false bs = Some k)"
  proof (cases "first_false bs")
    case None
    then show ?thesis using u32_inject [of "2 ^ 32 - 1" k] assms(2) by (simp add: cond_of_def n)
  next
    case (Some p)
    then have "p < 2 ^ 32 - 1" using first_false_less [OF Some] assms(1) by simp
    then show ?thesis
      using Some u32_inject [of p "2 ^ 32 - 1"] u32_inject [of p k] assms(2) by (simp add: cond_of_def n)
  qed
  then show "m_first_false_pos (cond_of bs) = NO_FALSE \<longleftrightarrow> first_false bs = None"
    "m_first_false_pos (cond_of bs) = of_nat k \<longleftrightarrow> first_false bs = Some k" by blast+
qed

lemma stack_size: "length bs < 2 ^ 32 - 1 \<Longrightarrow> m_stack_size (cond_of bs) = 0 \<longleftrightarrow> bs = []"
  using u32_inject [of "length bs" 0] by (simp add: cond_of_def)

lemma cond_push: "length bs < 2 ^ 32 - 1 \<Longrightarrow> cond_push_back f (cond_of bs) = cond_of (f # bs)"
  using first_false_pos(1) [of bs 0]
  by (cases "first_false bs") (auto simp: cond_push_back_def Let_def cond_of_def add.commute)

lemma cond_pop:
  assumes "length (b # bs) < 2 ^ 32 - 1"
  shows "cond_pop_back (cond_of (b # bs)) = Inr (cond_of bs)"
proof -
  have p: "m_stack_size (cond_of (b # bs)) > 0"
    using stack_size [OF assms] by (simp add: word_neq_0_conv)
  have z: "m_stack_size (cond_of (b # bs)) - 1 = of_nat (length bs)" by (simp add: cond_of_def)
  have q: "m_first_false_pos (cond_of (b # bs)) = of_nat (length bs) \<longleftrightarrow> first_false (b # bs) = Some (length bs)"
    using assms by (intro first_false_pos(2)) auto
  have "first_false bs \<noteq> Some (length bs)" using first_false_less by blast
  then show ?thesis using p q by (cases "first_false bs")
    (auto simp: cond_pop_back_def assertE_def Let_def cond_of_def split: if_splits)
qed

lemma cond_toggle:
  assumes "length (b # bs) < 2 ^ 32 - 1"
  shows "cond_toggle_top (cond_of (b # bs)) = Inr (cond_of ((\<not> b) # bs))"
proof -
  have p: "m_stack_size (cond_of (b # bs)) > 0"
    using stack_size [OF assms] by (simp add: word_neq_0_conv)
  have n: "m_first_false_pos (cond_of (b # bs)) = NO_FALSE \<longleftrightarrow> first_false (b # bs) = None"
    "m_first_false_pos (cond_of (b # bs)) = of_nat (length bs) \<longleftrightarrow> first_false (b # bs) = Some (length bs)"
    using assms by (intro first_false_pos [where k = "length bs"]; simp)+
  have "first_false bs \<noteq> Some (length bs)" using first_false_less by blast
  then show ?thesis using p n by (cases "first_false bs")
    (auto simp: cond_toggle_top_def assertE_def cond_of_def split: if_splits)
qed

interpretation cond_class: condition_stack "\<lambda>c bs. c = cond_of bs" "2 ^ 32 - 2" cond_empty cond_all_true cond_step
proof
  fix c bs assume c: "c = cond_of bs" and l: "length bs \<le> 2 ^ 32 - 2"
  then have l': "length bs < 2 ^ 32 - 1" by simp
  show "cond_empty c \<longleftrightarrow> bs = []" using stack_size [OF l'] by (simp add: cond_empty_def c)
  show "cond_all_true c \<longleftrightarrow> bools_all bs"
    using first_false_pos(1) [OF l', of 0] by (simp add: cond_all_true_def c first_false_None)
  fix x
  show "\<exists>c'. cond_step x c = Inr c' \<and> c' = cond_of bs'" if "bools_step x bs = Inr bs'" "length bs' \<le> 2 ^ 32 - 2" for bs'
    using that l' by (cases "(x, bs)" rule: bools_step.cases) (auto simp: c cond_step_def cond_push cond_pop cond_toggle)
  show "\<exists>e. cond_step x c = Inl e" if "bools_step x bs = Inl e" for e
    using that stack_size [of "[]"] by (cases "(x, bs)" rule: bools_step.cases)
      (auto simp: c cond_step_def cond_pop_back_def cond_toggle_top_def assertE_def)
qed

text \<open>C33. The optimised condition stack behaves as the stack of booleans it abstracts: for every sequence of
  fewer than \<open>2 ^ 32 - 1\<close> pushes, pops and toggles it reports the same emptiness and the same conjunction after each of
  them, and an assertion fails exactly where the operation has no element to act on.\<close>

theorem ConditionStack_refines_bools:
  assumes "length ops \<le> 2 ^ 32 - 2"
  shows "cond_trace cond_empty cond_all_true cond_step ops cond_init =
    cond_trace (\<lambda>bs. bs = []) bools_all bools_step ops []"
  using cond_class.trace [of cond_init "[]" ops] assms by (simp add: cond_init_def cond_of_def)

theorem ConditionStack_refines_bools_witness:
  "cond_trace cond_empty cond_all_true cond_step [Push_Back True, Push_Back False, Toggle_Top, Pop_Back, Pop_Back, Pop_Back] cond_init =
    [Some (False, True), Some (False, False), Some (False, True), Some (False, True), Some (True, True), None]"
  using ConditionStack_refines_bools [of "[Push_Back True, Push_Back False, Toggle_Top, Pop_Back, Pop_Back, Pop_Back]"]
  by (simp add: bools_all_def)

end
