(* ===== verification/Hash_Legacy.thy ===== *)
theory Hash_Legacy
  imports Sha256_D64 Metal_Dag
begin

unbundle bit_operations_syntax

text \<open>
  \<^verbatim>\<open>crypto/sha1.cpp\<close> and \<^verbatim>\<open>crypto/ripemd160.cpp\<close>: the two 160-bit hashes of the script language, and
  \<^verbatim>\<open>CHash160\<close> of \<^verbatim>\<open>hash.h\<close>.  As in the source both hashers stream through the same \<^verbatim>\<open>Write\<close>.  The
  source unrolls the 80 rounds and permutes the arguments of \<^verbatim>\<open>Round\<close>; here the five variables move.
  The lemmas are the interpretations of the streaming contract and the length of the digests.
\<close>

type_synonym hash_vars = "u32 \<times> u32 \<times> u32 \<times> u32 \<times> u32"

definition hash_vars_of :: "u32 list \<Rightarrow> hash_vars" where
  "hash_vars_of st = (st ! 0, st ! 1, st ! 2, st ! 3, st ! 4)"

definition rol32 :: "u32 \<Rightarrow> nat \<Rightarrow> u32" where
  "rol32 x i = push_bit i x OR drop_bit (32 - i) x"

text \<open>Both \<^verbatim>\<open>Initialize\<close> functions store the same five words.\<close>

definition Initialize160 :: "u32 list" where
  "Initialize160 = [0x67452301, 0xEFCDAB89, 0x98BADCFE, 0x10325476, 0xC3D2E1F0]"

section \<open>SHA-1\<close>

definition sha1_f1 :: "u32 \<Rightarrow> u32 \<Rightarrow> u32 \<Rightarrow> u32" where
  "sha1_f1 b c d = d XOR (b AND (c XOR d))"

definition sha1_f2 :: "u32 \<Rightarrow> u32 \<Rightarrow> u32 \<Rightarrow> u32" where
  "sha1_f2 b c d = b XOR c XOR d"

definition sha1_f3 :: "u32 \<Rightarrow> u32 \<Rightarrow> u32 \<Rightarrow> u32" where
  "sha1_f3 b c d = (b AND c) OR (d AND (b OR c))"

text \<open>The function and the constant of round \<open>i\<close>.\<close>

definition sha1_stage :: "nat \<Rightarrow> (u32 \<Rightarrow> u32 \<Rightarrow> u32 \<Rightarrow> u32) \<times> u32" where
  "sha1_stage i =
     (if i < 20 then (sha1_f1, 0x5A827999) else if i < 40 then (sha1_f2, 0x6ED9EBA1)
      else if i < 60 then (sha1_f3, 0x8F1BBCDC) else (sha1_f2, 0xCA62C1D6))"

fun sha1_Round :: "hash_vars \<Rightarrow> (u32 \<Rightarrow> u32 \<Rightarrow> u32 \<Rightarrow> u32) \<Rightarrow> u32 \<Rightarrow> u32 \<Rightarrow> hash_vars" where
  "sha1_Round (a, b, c, d, e) f k w = (e + (rol32 a 5 + f b c d + k + w), a, rol32 b 30, c, d)"

definition sha1_schedule :: "bytes \<Rightarrow> nat \<Rightarrow> u32 list \<Rightarrow> u32 list" where
  "sha1_schedule chunk i w =
     (if i < 16 then w[i := ReadBE32 (drop (4 * i) chunk)]
      else w[i mod 16 := rol32 (w ! (i mod 16) XOR w ! ((i + 13) mod 16) XOR w ! ((i + 8) mod 16) XOR w ! ((i + 2) mod 16)) 1])"

definition sha1_step :: "bytes \<Rightarrow> nat \<Rightarrow> u32 list \<times> hash_vars \<Rightarrow> u32 list \<times> hash_vars" where
  "sha1_step chunk i st =
     (let w = sha1_schedule chunk i (fst st)
      in (w, sha1_Round (snd st) (fst (sha1_stage i)) (snd (sha1_stage i)) (w ! (i mod 16))))"

definition sha1_Transform :: "u32 list \<Rightarrow> bytes \<Rightarrow> u32 list" where
  "sha1_Transform st chunk =
     (case snd (fold (sha1_step chunk) [0..<80] (replicate 16 0, hash_vars_of st)) of (a, b, c, d, e) \<Rightarrow>
        [st ! 0 + a, st ! 1 + b, st ! 2 + c, st ! 3 + d, st ! 4 + e])"

type_synonym CSHA1 = hasher

definition CSHA1_init :: CSHA1 where
  "CSHA1_init = \<lparr>s = Initialize160, buf = replicate 64 0, nbytes = 0\<rparr>"

definition CSHA1_Write :: "CSHA1 \<Rightarrow> bytes \<Rightarrow> CSHA1" where
  "CSHA1_Write = hash_write sha1_Transform"

definition CSHA1_Finalize :: "CSHA1 \<Rightarrow> bytes" where
  "CSHA1_Finalize c = concat (map WriteBE32 (s (hash_finish sha1_Transform (WriteBE64 (push_bit 3 (nbytes c))) c)))"

definition CSHA1_Reset :: "CSHA1 \<Rightarrow> CSHA1" where
  "CSHA1_Reset c = c\<lparr>nbytes := 0, s := Initialize160\<rparr>"

section \<open>RIPEMD-160\<close>

definition rmd_f1 :: "u32 \<Rightarrow> u32 \<Rightarrow> u32 \<Rightarrow> u32" where
  "rmd_f1 x y z = x XOR y XOR z"

definition rmd_f2 :: "u32 \<Rightarrow> u32 \<Rightarrow> u32 \<Rightarrow> u32" where
  "rmd_f2 x y z = (x AND y) OR (NOT x AND z)"

definition rmd_f3 :: "u32 \<Rightarrow> u32 \<Rightarrow> u32 \<Rightarrow> u32" where
  "rmd_f3 x y z = (x OR NOT y) XOR z"

definition rmd_f4 :: "u32 \<Rightarrow> u32 \<Rightarrow> u32 \<Rightarrow> u32" where
  "rmd_f4 x y z = (x AND z) OR (y AND NOT z)"

definition rmd_f5 :: "u32 \<Rightarrow> u32 \<Rightarrow> u32 \<Rightarrow> u32" where
  "rmd_f5 x y z = x XOR (y OR NOT z)"

fun rmd_Round :: "hash_vars \<Rightarrow> (u32 \<Rightarrow> u32 \<Rightarrow> u32 \<Rightarrow> u32) \<Rightarrow> u32 \<Rightarrow> u32 \<Rightarrow> nat \<Rightarrow> hash_vars" where
  "rmd_Round (a, b, c, d, e) f x k r = (e, rol32 (a + f b c d + x + k) r + e, b, rol32 c 10, d)"

text \<open>The stages of the two lines: \<^verbatim>\<open>R11\<close> to \<^verbatim>\<open>R51\<close> and \<^verbatim>\<open>R12\<close> to \<^verbatim>\<open>R52\<close>, sixteen rounds each.\<close>

definition rmd_stages1 :: "((u32 \<Rightarrow> u32 \<Rightarrow> u32 \<Rightarrow> u32) \<times> u32) list" where
  "rmd_stages1 = [(rmd_f1, 0), (rmd_f2, 0x5A827999), (rmd_f3, 0x6ED9EBA1), (rmd_f4, 0x8F1BBCDC), (rmd_f5, 0xA953FD4E)]"

definition rmd_stages2 :: "((u32 \<Rightarrow> u32 \<Rightarrow> u32 \<Rightarrow> u32) \<times> u32) list" where
  "rmd_stages2 = [(rmd_f5, 0x50A28BE6), (rmd_f4, 0x5C4DD124), (rmd_f3, 0x6D703EF3), (rmd_f2, 0x7A6D76E9), (rmd_f1, 0)]"

text \<open>The message word and the rotation of each round of the two lines, in source order.\<close>

definition rmd_rounds1 :: "(nat \<times> nat) list" where
  "rmd_rounds1 =
    [(0, 11), (1, 14), (2, 15), (3, 12), (4, 5), (5, 8), (6, 7), (7, 9),
     (8, 11), (9, 13), (10, 14), (11, 15), (12, 6), (13, 7), (14, 9), (15, 8),
     (7, 7), (4, 6), (13, 8), (1, 13), (10, 11), (6, 9), (15, 7), (3, 15),
     (12, 7), (0, 12), (9, 15), (5, 9), (2, 11), (14, 7), (11, 13), (8, 12),
     (3, 11), (10, 13), (14, 6), (4, 7), (9, 14), (15, 9), (8, 13), (1, 15),
     (2, 14), (7, 8), (0, 13), (6, 6), (13, 5), (11, 12), (5, 7), (12, 5),
     (1, 11), (9, 12), (11, 14), (10, 15), (0, 14), (8, 15), (12, 9), (4, 8),
     (13, 9), (3, 14), (7, 5), (15, 6), (14, 8), (5, 6), (6, 5), (2, 12),
     (4, 9), (0, 15), (5, 5), (9, 11), (7, 6), (12, 8), (2, 13), (10, 12),
     (14, 5), (1, 12), (3, 13), (8, 14), (11, 11), (6, 8), (15, 5), (13, 6)]"

definition rmd_rounds2 :: "(nat \<times> nat) list" where
  "rmd_rounds2 =
    [(5, 8), (14, 9), (7, 9), (0, 11), (9, 13), (2, 15), (11, 15), (4, 5),
     (13, 7), (6, 7), (15, 8), (8, 11), (1, 14), (10, 14), (3, 12), (12, 6),
     (6, 9), (11, 13), (3, 15), (7, 7), (0, 12), (13, 8), (5, 9), (10, 11),
     (14, 7), (15, 7), (8, 12), (12, 7), (4, 6), (9, 15), (1, 13), (2, 11),
     (15, 9), (5, 7), (1, 15), (3, 11), (7, 8), (14, 6), (6, 6), (9, 14),
     (11, 12), (8, 13), (12, 5), (2, 14), (10, 13), (0, 13), (4, 7), (13, 5),
     (8, 15), (6, 5), (4, 8), (1, 11), (3, 14), (11, 14), (15, 6), (0, 14),
     (5, 6), (12, 9), (2, 12), (13, 9), (9, 12), (7, 5), (10, 15), (14, 8),
     (12, 8), (15, 5), (10, 12), (4, 9), (1, 12), (5, 5), (8, 14), (7, 6),
     (6, 8), (2, 13), (13, 6), (14, 5), (0, 15), (3, 13), (9, 11), (11, 11)]"

definition rmd_step :: "((u32 \<Rightarrow> u32 \<Rightarrow> u32 \<Rightarrow> u32) \<times> u32) list \<Rightarrow> (nat \<times> nat) list \<Rightarrow> bytes \<Rightarrow> nat \<Rightarrow> hash_vars \<Rightarrow> hash_vars" where
  "rmd_step stages rounds chunk i v =
     rmd_Round v (fst (stages ! (i div 16))) (ReadLE32 (drop (4 * fst (rounds ! i)) chunk)) (snd (stages ! (i div 16))) (snd (rounds ! i))"

definition rmd_Transform :: "u32 list \<Rightarrow> bytes \<Rightarrow> u32 list" where
  "rmd_Transform st chunk =
     (case (fold (rmd_step rmd_stages1 rmd_rounds1 chunk) [0..<80] (hash_vars_of st),
            fold (rmd_step rmd_stages2 rmd_rounds2 chunk) [0..<80] (hash_vars_of st)) of
        ((a1, b1, c1, d1, e1), (a2, b2, c2, d2, e2)) \<Rightarrow>
          [st ! 1 + c1 + d2, st ! 2 + d1 + e2, st ! 3 + e1 + a2, st ! 4 + a1 + b2, st ! 0 + b1 + c2])"

type_synonym CRIPEMD160 = hasher

definition CRIPEMD160_init :: CRIPEMD160 where
  "CRIPEMD160_init = \<lparr>s = Initialize160, buf = replicate 64 0, nbytes = 0\<rparr>"

definition CRIPEMD160_Write :: "CRIPEMD160 \<Rightarrow> bytes \<Rightarrow> CRIPEMD160" where
  "CRIPEMD160_Write = hash_write rmd_Transform"

definition WriteLE64 :: "u64 \<Rightarrow> bytes" where
  "WriteLE64 x = to_le 8 (unat x)"

definition CRIPEMD160_Finalize :: "CRIPEMD160 \<Rightarrow> bytes" where
  "CRIPEMD160_Finalize c = concat (map WriteLE32 (s (hash_finish rmd_Transform (WriteLE64 (push_bit 3 (nbytes c))) c)))"

definition CRIPEMD160_Reset :: "CRIPEMD160 \<Rightarrow> CRIPEMD160" where
  "CRIPEMD160_Reset c = c\<lparr>nbytes := 0, s := Initialize160\<rparr>"

section \<open>The hashes of a byte string\<close>

definition Sha1 :: "bytes \<Rightarrow> bytes" where
  "Sha1 vch = CSHA1_Finalize (CSHA1_Write CSHA1_init vch)"

definition Ripemd160 :: "bytes \<Rightarrow> bytes" where
  "Ripemd160 vch = CRIPEMD160_Finalize (CRIPEMD160_Write CRIPEMD160_init vch)"

definition CHash160_Finalize :: "CSHA256 \<Rightarrow> bytes" where
  "CHash160_Finalize sha = CRIPEMD160_Finalize (CRIPEMD160_Write CRIPEMD160_init (CSHA256_Finalize sha))"

definition Hash160 :: "bytes \<Rightarrow> bytes" where
  "Hash160 in1 = CHash160_Finalize (CSHA256_Write CSHA256_init in1)"

section \<open>Streaming\<close>

lemma sha1_take: "64 \<le> n \<Longrightarrow> sha1_Transform st (take n chunk) = sha1_Transform st chunk"
proof -
  assume n: "64 \<le> n"
  have "sha1_schedule (take n chunk) i = sha1_schedule chunk i" for i
    using n by (auto simp: fun_eq_iff sha1_schedule_def ReadBE32_def take_drop min_def)
  then have "sha1_step (take n chunk) = sha1_step chunk" by (simp add: fun_eq_iff sha1_step_def)
  then show ?thesis by (simp add: sha1_Transform_def)
qed

lemma rmd_word_bound:
  "i < 80 \<Longrightarrow> fst (rmd_rounds1 ! i) < 16" "i < 80 \<Longrightarrow> fst (rmd_rounds2 ! i) < 16"
proof -
  have "\<forall>x\<in>set rmd_rounds1. fst x < 16" "\<forall>x\<in>set rmd_rounds2. fst x < 16"
    by (simp_all add: rmd_rounds1_def rmd_rounds2_def)
  moreover have "length rmd_rounds1 = 80" "length rmd_rounds2 = 80"
    by (simp_all add: rmd_rounds1_def rmd_rounds2_def)
  ultimately show "i < 80 \<Longrightarrow> fst (rmd_rounds1 ! i) < 16" "i < 80 \<Longrightarrow> fst (rmd_rounds2 ! i) < 16"
    by (metis nth_mem)+
qed

lemma rmd_step_take:
  assumes "64 \<le> n" "\<And>i. i \<in> set is \<Longrightarrow> fst (rounds ! i) < 16"
  shows "fold (rmd_step stages rounds (take n chunk)) is v = fold (rmd_step stages rounds chunk) is v"
proof (rule fold_cong [OF refl refl])
  fix i assume "i \<in> set is"
  then have "4 * fst (rounds ! i) + 4 \<le> n" using assms(2) [of i] assms(1) by simp
  then have "take 4 (drop (4 * fst (rounds ! i)) (take n chunk)) = take 4 (drop (4 * fst (rounds ! i)) chunk)"
    by (simp add: drop_take min_absorb1)
  then show "rmd_step stages rounds (take n chunk) i = rmd_step stages rounds chunk i"
    by (simp add: fun_eq_iff rmd_step_def ReadLE32_def)
qed

lemma rmd_take: "64 \<le> n \<Longrightarrow> rmd_Transform st (take n chunk) = rmd_Transform st chunk"
proof -
  assume n: "64 \<le> n"
  have i: "i \<in> set [0..<80] \<Longrightarrow> i < 80" for i :: nat by (simp only: set_upt atLeastLessThan_iff)
  show ?thesis unfolding rmd_Transform_def
    by (simp only: rmd_step_take [OF n rmd_word_bound(1) [OF i]] rmd_step_take [OF n rmd_word_bound(2) [OF i]])
qed

interpretation sha1_stream: block_hash sha1_Transform Initialize160
  by unfold_locales (rule sha1_take)

interpretation rmd_stream: block_hash rmd_Transform Initialize160
  by unfold_locales (rule rmd_take)

text \<open>The hashes of a padded message, and that any split into writes computes them.\<close>

definition rmd_pad :: "bytes \<Rightarrow> bytes" where
  "rmd_pad m = m @ 0x80 # replicate ((119 - length m mod 64) mod 64) 0 @ to_le 8 (8 * length m)"

definition sha1 :: "bytes \<Rightarrow> bytes" where
  "sha1 m = concat (map WriteBE32 (hash_blocks sha1_Transform Initialize160 (sha_pad m) (length (sha_pad m) div 64)))"

definition ripemd160 :: "bytes \<Rightarrow> bytes" where
  "ripemd160 m = concat (map WriteLE32 (hash_blocks rmd_Transform Initialize160 (rmd_pad m) (length (rmd_pad m) div 64)))"

lemma sha1_finish:
  assumes "sha1_stream.absorbs c m"
  shows "CSHA1_Finalize c = sha1 m"
proof -
  have "WriteBE64 (push_bit 3 (nbytes c)) = rev (to_le 8 (8 * length m))"
    by (simp only: WriteBE64_def sha1_stream.absorbs_length [OF assms] to_le_u64)
  then show ?thesis unfolding CSHA1_Finalize_def sha1_def
    using sha1_stream.finish [OF assms sha_pad_def] by simp
qed

lemma rmd_finish:
  assumes "rmd_stream.absorbs c m"
  shows "CRIPEMD160_Finalize c = ripemd160 m"
proof -
  have "WriteLE64 (push_bit 3 (nbytes c)) = to_le 8 (8 * length m)"
    by (simp only: WriteLE64_def rmd_stream.absorbs_length [OF assms] to_le_u64)
  then show ?thesis unfolding CRIPEMD160_Finalize_def ripemd160_def
    using rmd_stream.finish [OF assms rmd_pad_def] by simp
qed

lemma legacy_hash_streaming:
  "CSHA1_Finalize (foldl CSHA1_Write CSHA1_init chunks) = sha1 (concat chunks)"
  "CRIPEMD160_Finalize (foldl CRIPEMD160_Write CRIPEMD160_init chunks) = ripemd160 (concat chunks)"
  using sha1_finish [OF sha1_stream.absorbs_Writes [OF sha1_stream.absorbs_init, of chunks]]
    rmd_finish [OF rmd_stream.absorbs_Writes [OF rmd_stream.absorbs_init, of chunks]]
  by (simp_all add: CSHA1_Write_def CSHA1_init_def CRIPEMD160_Write_def CRIPEMD160_init_def)

lemma Sha1_eq: "Sha1 m = sha1 m"
  using legacy_hash_streaming(1) [of "[m]"] by (simp add: Sha1_def)

lemma Ripemd160_eq: "Ripemd160 m = ripemd160 m"
  using legacy_hash_streaming(2) [of "[m]"] by (simp add: Ripemd160_def)

lemma Hash160_eq: "Hash160 m = ripemd160 (sha256 m)"
  using Ripemd160_eq [of "sha256 m"] by (simp add: Hash160_def CHash160_Finalize_def sha256_write Ripemd160_def)

lemma length_transform160: "length (sha1_Transform st chunk) = 5" "length (rmd_Transform st chunk) = 5"
proof -
  have "length (case p of (a, b, c, d, e) \<Rightarrow> [st ! 0 + a, st ! 1 + b, st ! 2 + c, st ! 3 + d, st ! 4 + e]) = 5"
    for p :: hash_vars by (simp split: prod.split)
  then show "length (sha1_Transform st chunk) = 5" unfolding sha1_Transform_def .
  have "length (case p of ((a1, b1, c1, d1, e1), (a2, b2, c2, d2, e2)) \<Rightarrow>
      [st ! 1 + c1 + d2, st ! 2 + d1 + e2, st ! 3 + e1 + a2, st ! 4 + a1 + b2, st ! 0 + b1 + c2]) = 5"
    for p :: "hash_vars \<times> hash_vars" by (simp split: prod.split)
  then show "length (rmd_Transform st chunk) = 5" unfolding rmd_Transform_def .
qed

lemma length_hash_blocks:
  assumes "\<And>st chunk. length (f st chunk) = n" "length st = n"
  shows "length (hash_blocks f st chunk k) = n"
  using assms(2) by (induction k arbitrary: st chunk) (simp_all add: assms(1))

lemma length_words: "length (concat (map WriteBE32 ws)) = 4 * length ws" "length (concat (map WriteLE32 ws)) = 4 * length ws"
  by (simp_all add: length_concat comp_def WriteBE32_def WriteLE32_def sum_list_triv)

lemma length_hash160 [simp]: "length (Sha1 m) = 20" "length (Ripemd160 m) = 20" "length (Hash160 m) = 20"
proof -
  have i: "length Initialize160 = 5" by (simp add: Initialize160_def)
  show "length (Sha1 m) = 20"
    unfolding Sha1_eq sha1_def length_words length_hash_blocks [OF length_transform160(1) i] by simp
  have r: "length (ripemd160 m) = 20" for m
    unfolding ripemd160_def length_words length_hash_blocks [OF length_transform160(2) i] by simp
  then show "length (Ripemd160 m) = 20" "length (Hash160 m) = 20"
    unfolding Ripemd160_eq Hash160_eq by simp_all
qed

end
