(* ===== verification/Script_Interp.thy ===== *)
theory Script_Interp
  imports Condition_Stack Hash_Legacy
begin

unbundle bit_operations_syntax

text \<open>
  \<^verbatim>\<open>script/interpreter.cpp\<close>: the stack machine \<^verbatim>\<open>EvalScript\<close> with every opcode, and its signature and encoding
  checks.  A C++ stack is a list whose head is the top, so \<^verbatim>\<open>stacktop(-i)\<close> is the element \<open>i - 1\<close>; an iterator
  into the script is the list of the bytes from it to the end.  The machine is a function on the state of the
  loop, one definition for each group of cases of the switch.
\<close>

section \<open>Encodings of signatures and keys\<close>

fun CastToBool :: "valtype \<Rightarrow> bool" where
  "CastToBool [] = False"
| "CastToBool (b # vch) = (if b \<noteq> 0 then \<not> (vch = [] \<and> b = 0x80) else CastToBool vch)"

definition IsCompressedOrUncompressedPubKey :: "valtype \<Rightarrow> bool" where
  "IsCompressedOrUncompressedPubKey vchPubKey =
     (if length vchPubKey < 33 then False
      else if vchPubKey ! 0 = 0x04 then length vchPubKey = 65
      else if vchPubKey ! 0 = 0x02 \<or> vchPubKey ! 0 = 0x03 then length vchPubKey = 33
      else False)"

definition IsCompressedPubKey :: "valtype \<Rightarrow> bool" where
  "IsCompressedPubKey vchPubKey \<longleftrightarrow> length vchPubKey = 33 \<and> (vchPubKey ! 0 = 0x02 \<or> vchPubKey ! 0 = 0x03)"

definition IsValidSignatureEncoding :: "bytes \<Rightarrow> bool" where
  "IsValidSignatureEncoding sig =
     (if length sig < 9 then False
      else if length sig > 73 then False
      else if sig ! 0 \<noteq> 0x30 then False
      else if unat (sig ! 1) \<noteq> length sig - 3 then False
      else let lenR = unat (sig ! 3) in
      if 5 + lenR \<ge> length sig then False
      else let lenS = unat (sig ! (5 + lenR)) in
      if lenR + lenS + 7 \<noteq> length sig then False
      else if sig ! 2 \<noteq> 0x02 then False
      else if lenR = 0 then False
      else if sig ! 4 AND 0x80 \<noteq> 0 then False
      else if lenR > 1 \<and> sig ! 4 = 0x00 \<and> sig ! 5 AND 0x80 = 0 then False
      else if sig ! (lenR + 4) \<noteq> 0x02 then False
      else if lenS = 0 then False
      else if sig ! (lenR + 6) AND 0x80 \<noteq> 0 then False
      else if lenS > 1 \<and> sig ! (lenR + 6) = 0x00 \<and> sig ! (lenR + 7) AND 0x80 = 0 then False
      else True)"

definition IsLowDERSignature :: "BaseSignatureChecker \<Rightarrow> valtype \<Rightarrow> unit eval" where
  "IsLowDERSignature checker vchSig =
     (if \<not> IsValidSignatureEncoding vchSig then set_error SCRIPT_ERR_SIG_DER
      else if \<not> CheckLowS checker (butlast vchSig) then set_error SCRIPT_ERR_SIG_HIGH_S
      else Inr ())"

definition IsDefinedHashtypeSignature :: "valtype \<Rightarrow> bool" where
  "IsDefinedHashtypeSignature vchSig =
     (if length vchSig = 0 then False
      else let nHashType = last vchSig AND NOT 0x80 in \<not> (nHashType < 1 \<or> nHashType > 3))"

definition CheckSignatureEncoding :: "BaseSignatureChecker \<Rightarrow> valtype \<Rightarrow> script_verify_flags \<Rightarrow> unit eval" where
  "CheckSignatureEncoding checker vchSig flags =
     (if length vchSig = 0 then Inr ()
      else if flags \<inter> {SCRIPT_VERIFY_DERSIG, SCRIPT_VERIFY_LOW_S, SCRIPT_VERIFY_STRICTENC} \<noteq> {} \<and> \<not> IsValidSignatureEncoding vchSig
      then set_error SCRIPT_ERR_SIG_DER
      else bindE (if SCRIPT_VERIFY_LOW_S \<in> flags then IsLowDERSignature checker vchSig else Inr ())
        (\<lambda>_. if SCRIPT_VERIFY_STRICTENC \<in> flags \<and> \<not> IsDefinedHashtypeSignature vchSig then set_error SCRIPT_ERR_SIG_HASHTYPE
              else Inr ()))"

definition CheckPubKeyEncoding :: "valtype \<Rightarrow> script_verify_flags \<Rightarrow> SigVersion \<Rightarrow> unit eval" where
  "CheckPubKeyEncoding vchPubKey flags sigversion =
     (if SCRIPT_VERIFY_STRICTENC \<in> flags \<and> \<not> IsCompressedOrUncompressedPubKey vchPubKey then set_error SCRIPT_ERR_PUBKEYTYPE
      else if SCRIPT_VERIFY_WITNESS_PUBKEYTYPE \<in> flags \<and> sigversion = WITNESS_V0 \<and> \<not> IsCompressedPubKey vchPubKey
      then set_error SCRIPT_ERR_WITNESS_PUBKEYTYPE
      else Inr ())"

text \<open>\<^verbatim>\<open>FindAndDelete\<close>: the inner loop drops copies of \<open>b\<close> at the current position; the outer loop copies one
  instruction at a time.  The result is the number of copies found and the new script.\<close>

function skip_matches :: "bytes \<Rightarrow> bytes \<Rightarrow> nat \<Rightarrow> bytes \<times> nat" where
  "skip_matches b pc nFound =
     (if b \<noteq> [] \<and> length pc \<ge> length b \<and> take (length b) pc = b then skip_matches b (drop (length b) pc) (nFound + 1)
      else (pc, nFound))"
  by pat_completeness auto
termination
proof (relation "measure (\<lambda>(b, pc, nFound). length pc)")
  fix b pc :: bytes and nFound :: nat
  assume "b \<noteq> [] \<and> length pc \<ge> length b \<and> take (length b) pc = b"
  then show "((b, drop (length b) pc, nFound + 1), b, pc, nFound) \<in> measure (\<lambda>(b, pc, nFound). length pc)"
    by (cases b; cases pc) auto
qed simp

declare skip_matches.simps [simp del]

lemma skip_matches_length: "length (fst (skip_matches b pc n)) \<le> length pc"
proof (induction b pc n rule: skip_matches.induct)
  case (1 b pc n)
  then show ?case by (subst skip_matches.simps) force
qed

function find_and_delete_loop :: "bytes \<Rightarrow> bytes \<Rightarrow> bytes \<Rightarrow> nat \<Rightarrow> bytes \<times> bytes \<times> nat" where
  "find_and_delete_loop b pc result nFound =
     (case skip_matches b pc nFound of (pc2, nFound) \<Rightarrow>
        (case GetScriptOp pc2 of
           None \<Rightarrow> (result, pc2, nFound)
         | Some (opcode, data, pc') \<Rightarrow>
             find_and_delete_loop b pc' (result @ take (length pc2 - length pc') pc2) nFound))"
  by pat_completeness auto
termination
  by (relation "measure (\<lambda>(b, pc, result, nFound). length pc)")
    (auto dest!: GetScriptOp_shorter, metis fst_conv skip_matches_length order_less_le_trans)

declare find_and_delete_loop.simps [simp del]

definition FindAndDelete :: "CScript \<Rightarrow> CScript \<Rightarrow> nat \<times> CScript" where
  "FindAndDelete script b =
     (if b = [] then (0, script)
      else case find_and_delete_loop b script [] 0 of (result, pc2, nFound) \<Rightarrow>
             if nFound > 0 then (nFound, result @ pc2) else (nFound, script))"

section \<open>Signature opcodes\<close>

definition PQ_PUBKEY_SIZE :: nat where [const_defs]: "PQ_PUBKEY_SIZE = 1952"
definition PQ_PUBKEY_HASH_SIZE :: nat where [const_defs]: "PQ_PUBKEY_HASH_SIZE = 32"
definition SLH_PUBKEY_SIZE :: nat where [const_defs]: "SLH_PUBKEY_SIZE = 32"
definition XCOIN_V3_VALIDATION_WEIGHT_PER_HASHED_BYTE :: int where [const_defs]: "XCOIN_V3_VALIDATION_WEIGHT_PER_HASHED_BYTE = 1"
definition XCOIN_V3_VALIDATION_WEIGHT_MLDSA :: int where [const_defs]: "XCOIN_V3_VALIDATION_WEIGHT_MLDSA = 200"
definition XCOIN_V3_VALIDATION_WEIGHT_SLH :: int where [const_defs]: "XCOIN_V3_VALIDATION_WEIGHT_SLH = 1080"

text \<open>The charge against the validation weight, which four places of the source make in the same way.\<close>

definition charge_weight :: "int \<Rightarrow> ScriptError \<Rightarrow> ScriptExecutionData \<Rightarrow> ScriptExecutionData eval" where
  "charge_weight w serror execdata =
     bindE (assertE (m_validation_weight_left_init execdata))
       (\<lambda>_. let execdata = execdata\<lparr>m_validation_weight_left := m_validation_weight_left execdata - w\<rparr>
             in if m_validation_weight_left execdata < 0 then set_error serror else Inr execdata)"

text \<open>A check that may store the hash of the outputs.\<close>

definition checked :: "ScriptError + uint256 option \<Rightarrow> ScriptExecutionData \<Rightarrow> ScriptExecutionData eval" where
  "checked r execdata = (case r of Inl serror \<Rightarrow> set_error serror | Inr h \<Rightarrow> Inr (execdata\<lparr>m_output_hash := h\<rparr>))"

definition EvalChecksigPreTapscript ::
  "valtype \<Rightarrow> valtype \<Rightarrow> bytes \<Rightarrow> script_verify_flags \<Rightarrow> BaseSignatureChecker \<Rightarrow> SigVersion \<Rightarrow> bool eval"
where
  "EvalChecksigPreTapscript vchSig vchPubKey pbegincodehash flags checker sigversion =
     bindE (assertE (sigversion = BASE \<or> sigversion = WITNESS_V0))
       (\<lambda>_. case (if sigversion = BASE then FindAndDelete pbegincodehash (push_data [] vchSig) else (0, pbegincodehash)) of
          (found, scriptCode) \<Rightarrow>
             if found > 0 \<and> SCRIPT_VERIFY_CONST_SCRIPTCODE \<in> flags then set_error SCRIPT_ERR_SIG_FINDANDDELETE
             else bindE (CheckSignatureEncoding checker vchSig flags)
               (\<lambda>_. bindE (CheckPubKeyEncoding vchPubKey flags sigversion)
                 (\<lambda>_. let fSuccess = CheckECDSASignature checker vchSig vchPubKey scriptCode sigversion
                       in if \<not> fSuccess \<and> SCRIPT_VERIFY_NULLFAIL \<in> flags \<and> length vchSig > 0 then set_error SCRIPT_ERR_SIG_NULLFAIL
                          else Inr fSuccess)))"

definition EvalChecksigTapscript ::
  "valtype \<Rightarrow> valtype \<Rightarrow> ScriptExecutionData \<Rightarrow> script_verify_flags \<Rightarrow> BaseSignatureChecker \<Rightarrow> SigVersion \<Rightarrow> (bool \<times> ScriptExecutionData) eval"
where
  "EvalChecksigTapscript sig pubkey execdata flags checker sigversion =
     bindE (assertE (sigversion = TAPSCRIPT))
       (\<lambda>_. let success = (sig \<noteq> []) in
         bindE (if success then charge_weight VALIDATION_WEIGHT_PER_SIGOP_PASSED SCRIPT_ERR_TAPSCRIPT_VALIDATION_WEIGHT execdata else Inr execdata)
           (\<lambda>execdata.
              if length pubkey = 0 then set_error SCRIPT_ERR_TAPSCRIPT_EMPTY_PUBKEY
              else if length pubkey = 32
              then bindE (if success then checked (CheckSchnorrSignature checker sig pubkey sigversion execdata) execdata else Inr execdata)
                     (\<lambda>execdata. Inr (success, execdata))
              else if SCRIPT_VERIFY_DISCOURAGE_UPGRADABLE_PUBKEYTYPE \<in> flags then set_error SCRIPT_ERR_DISCOURAGE_UPGRADABLE_PUBKEYTYPE
              else Inr (success, execdata)))"

definition EvalChecksigXcoinV3 ::
  "valtype \<Rightarrow> valtype \<Rightarrow> valtype \<Rightarrow> ScriptExecutionData \<Rightarrow> script_verify_flags \<Rightarrow> BaseSignatureChecker \<Rightarrow> (bool \<times> ScriptExecutionData) eval"
where
  "EvalChecksigXcoinV3 sig pubkey_hash pubkey execdata flags checker =
     (let success = (sig \<noteq> []) in
      bindE (if success then charge_weight XCOIN_V3_VALIDATION_WEIGHT_MLDSA SCRIPT_ERR_TAPSCRIPT_VALIDATION_WEIGHT execdata else Inr execdata)
        (\<lambda>execdata.
           if length pubkey_hash = 0 then set_error SCRIPT_ERR_TAPSCRIPT_EMPTY_PUBKEY
           else if length pubkey_hash = PQ_PUBKEY_HASH_SIZE
           then if \<not> success then if pubkey \<noteq> [] then set_error SCRIPT_ERR_XCOIN_V3_PUBKEY else Inr (success, execdata)
                else if length pubkey \<noteq> PQ_PUBKEY_SIZE then set_error SCRIPT_ERR_XCOIN_V3_PUBKEY
                else if CSHA256_Finalize (CSHA256_Write CSHA256_init pubkey) \<noteq> pubkey_hash then set_error SCRIPT_ERR_XCOIN_V3_PUBKEY
                else bindE (checked (CheckPQSigV3 checker sig pubkey XCOIN_PQ_TAPSCRIPT execdata) execdata)
                       (\<lambda>execdata. Inr (success, execdata))
           else if SCRIPT_VERIFY_DISCOURAGE_UPGRADABLE_PUBKEYTYPE \<in> flags then set_error SCRIPT_ERR_DISCOURAGE_UPGRADABLE_PUBKEYTYPE
           else Inr (success, execdata)))"

definition EvalChecksigXcoinSLH ::
  "valtype \<Rightarrow> valtype \<Rightarrow> ScriptExecutionData \<Rightarrow> script_verify_flags \<Rightarrow> BaseSignatureChecker \<Rightarrow> SigVersion \<Rightarrow> (bool \<times> ScriptExecutionData) eval"
where
  "EvalChecksigXcoinSLH sig pubkey execdata flags checker sigversion =
     bindE (assertE (sigversion = XCOIN_SLH_TAPSCRIPT))
       (\<lambda>_. let success = (sig \<noteq> []) in
         bindE (if success then charge_weight XCOIN_V3_VALIDATION_WEIGHT_SLH SCRIPT_ERR_TAPSCRIPT_VALIDATION_WEIGHT execdata else Inr execdata)
           (\<lambda>execdata.
              if length pubkey = 0 then set_error SCRIPT_ERR_TAPSCRIPT_EMPTY_PUBKEY
              else if length pubkey = SLH_PUBKEY_SIZE
              then bindE (if success then checked (CheckSLHSigV3 checker sig pubkey sigversion execdata) execdata else Inr execdata)
                     (\<lambda>execdata. Inr (success, execdata))
              else if SCRIPT_VERIFY_DISCOURAGE_UPGRADABLE_PUBKEYTYPE \<in> flags then set_error SCRIPT_ERR_DISCOURAGE_UPGRADABLE_PUBKEYTYPE
              else Inr (success, execdata)))"

definition EvalChecksig ::
  "valtype \<Rightarrow> valtype \<Rightarrow> bytes \<Rightarrow> ScriptExecutionData \<Rightarrow> script_verify_flags \<Rightarrow> BaseSignatureChecker \<Rightarrow> SigVersion \<Rightarrow> (bool \<times> ScriptExecutionData) eval"
where
  "EvalChecksig sig pubkey pbegincodehash execdata flags checker sigversion =
     (case sigversion of
        BASE \<Rightarrow> bindE (EvalChecksigPreTapscript sig pubkey pbegincodehash flags checker sigversion) (\<lambda>success. Inr (success, execdata))
      | WITNESS_V0 \<Rightarrow> bindE (EvalChecksigPreTapscript sig pubkey pbegincodehash flags checker sigversion) (\<lambda>success. Inr (success, execdata))
      | TAPSCRIPT \<Rightarrow> EvalChecksigTapscript sig pubkey execdata flags checker sigversion
      | XCOIN_SLH_TAPSCRIPT \<Rightarrow> EvalChecksigXcoinSLH sig pubkey execdata flags checker sigversion
      | TAPROOT \<Rightarrow> Inl Assert_Fail
      | XCOIN_PQ_TAPSCRIPT \<Rightarrow> Inl Assert_Fail)"

section \<open>The state of the loop\<close>

record EvalState =
  stack :: "valtype list"
  altstack :: "valtype list"
  vfExec :: ConditionStack
  nOpCount :: int
  pbegincodehash :: bytes
  opcode_pos :: u32
  execdata :: ScriptExecutionData

definition vchFalse :: valtype where [const_defs]: "vchFalse = []"
definition vchTrue :: valtype where [const_defs]: "vchTrue = [1]"

definition vchBool :: "bool \<Rightarrow> valtype" where
  "vchBool b = (if b then vchTrue else vchFalse)"

text \<open>The leaves under a Merkle commitment share the tapscript rules; scripts other than BIP 342 leaves are limited.\<close>

definition tapscript_rules :: "SigVersion \<Rightarrow> bool" where
  "tapscript_rules sigversion \<longleftrightarrow> sigversion = TAPSCRIPT \<or> IsXcoinV3Tapscript sigversion"

definition script_limits :: "SigVersion \<Rightarrow> bool" where
  "script_limits sigversion \<longleftrightarrow> sigversion = BASE \<or> sigversion = WITNESS_V0 \<or> IsXcoinV3Tapscript sigversion"

text \<open>A number read from the stack; the exception is caught at the end of the loop.\<close>

definition script_num :: "script_verify_flags \<Rightarrow> valtype \<Rightarrow> nat \<Rightarrow> int eval" where
  "script_num flags vch nMaxNumSize =
     (case CScriptNum vch (SCRIPT_VERIFY_MINIMALDATA \<in> flags) nMaxNumSize of
        None \<Rightarrow> set_error SCRIPT_ERR_SCRIPTNUM | Some n \<Rightarrow> Inr n)"

section \<open>Control\<close>

definition op_CHECKLOCKTIMEVERIFY :: "script_verify_flags \<Rightarrow> BaseSignatureChecker \<Rightarrow> EvalState \<Rightarrow> EvalState eval" where
  "op_CHECKLOCKTIMEVERIFY flags checker st =
     (if SCRIPT_VERIFY_CHECKLOCKTIMEVERIFY \<notin> flags then Inr st
      else case stack st of
             [] \<Rightarrow> set_error SCRIPT_ERR_INVALID_STACK_OPERATION
           | vch # _ \<Rightarrow> bindE (script_num flags vch 5)
               (\<lambda>n. if n < 0 then set_error SCRIPT_ERR_NEGATIVE_LOCKTIME
                     else if \<not> CheckLockTime checker n then set_error SCRIPT_ERR_UNSATISFIED_LOCKTIME
                     else Inr st))"

definition op_CHECKSEQUENCEVERIFY :: "script_verify_flags \<Rightarrow> BaseSignatureChecker \<Rightarrow> EvalState \<Rightarrow> EvalState eval" where
  "op_CHECKSEQUENCEVERIFY flags checker st =
     (if SCRIPT_VERIFY_CHECKSEQUENCEVERIFY \<notin> flags then Inr st
      else case stack st of
             [] \<Rightarrow> set_error SCRIPT_ERR_INVALID_STACK_OPERATION
           | vch # _ \<Rightarrow> bindE (script_num flags vch 5)
               (\<lambda>n. if n < 0 then set_error SCRIPT_ERR_NEGATIVE_LOCKTIME
                     else if n AND uint SEQUENCE_LOCKTIME_DISABLE_FLAG \<noteq> 0 then Inr st
                     else if \<not> CheckSequence checker n then set_error SCRIPT_ERR_UNSATISFIED_LOCKTIME
                     else Inr st))"

definition op_NOPn :: "script_verify_flags \<Rightarrow> EvalState \<Rightarrow> EvalState eval" where
  "op_NOPn flags st =
     (if SCRIPT_VERIFY_DISCOURAGE_UPGRADABLE_NOPS \<in> flags then set_error SCRIPT_ERR_DISCOURAGE_UPGRADABLE_NOPS else Inr st)"

definition op_CHECKTEMPLATEVERIFY :: "script_verify_flags \<Rightarrow> BaseSignatureChecker \<Rightarrow> SigVersion \<Rightarrow> EvalState \<Rightarrow> EvalState eval" where
  "op_CHECKTEMPLATEVERIFY flags checker sigversion st =
     (if IsXcoinV3Tapscript sigversion
      then case stack st of
             [] \<Rightarrow> set_error SCRIPT_ERR_INVALID_STACK_OPERATION
           | vch # _ \<Rightarrow>
               if length vch = 32
               then if \<not> CheckDefaultCheckTemplateVerifyHash checker vch then set_error SCRIPT_ERR_TEMPLATE_MISMATCH else Inr st
               else if SCRIPT_VERIFY_DISCOURAGE_UPGRADABLE_NOPS \<in> flags then set_error SCRIPT_ERR_DISCOURAGE_UPGRADABLE_NOPS
               else Inr st
      else op_NOPn flags st)"

definition minimal_if :: "valtype \<Rightarrow> bool" where
  "minimal_if vch \<longleftrightarrow> \<not> (length vch > 1 \<or> length vch = 1 \<and> vch ! 0 \<noteq> 1)"

definition op_IF :: "script_verify_flags \<Rightarrow> SigVersion \<Rightarrow> opcodetype \<Rightarrow> bool \<Rightarrow> EvalState \<Rightarrow> EvalState eval" where
  "op_IF flags sigversion opcode fExec st =
     (if fExec
      then case stack st of
             [] \<Rightarrow> set_error SCRIPT_ERR_INVALID_STACK_OPERATION
           | vch # rest \<Rightarrow>
               if tapscript_rules sigversion \<and> \<not> minimal_if vch then set_error SCRIPT_ERR_TAPSCRIPT_MINIMALIF
               else if sigversion = WITNESS_V0 \<and> SCRIPT_VERIFY_MINIMALIF \<in> flags \<and> \<not> minimal_if vch then set_error SCRIPT_ERR_MINIMALIF
               else let fValue = (if opcode = OP_NOTIF then \<not> CastToBool vch else CastToBool vch)
                    in Inr (st\<lparr>stack := rest, vfExec := cond_push_back fValue (vfExec st)\<rparr>)
      else Inr (st\<lparr>vfExec := cond_push_back False (vfExec st)\<rparr>))"

definition op_ELSE :: "EvalState \<Rightarrow> EvalState eval" where
  "op_ELSE st =
     (if cond_empty (vfExec st) then set_error SCRIPT_ERR_UNBALANCED_CONDITIONAL
      else bindE (cond_toggle_top (vfExec st)) (\<lambda>c. Inr (st\<lparr>vfExec := c\<rparr>)))"

definition op_ENDIF :: "EvalState \<Rightarrow> EvalState eval" where
  "op_ENDIF st =
     (if cond_empty (vfExec st) then set_error SCRIPT_ERR_UNBALANCED_CONDITIONAL
      else bindE (cond_pop_back (vfExec st)) (\<lambda>c. Inr (st\<lparr>vfExec := c\<rparr>)))"

text \<open>The verifying opcodes drop a true result and fail on a false one.\<close>

definition verify_top :: "bool \<Rightarrow> bool \<Rightarrow> ScriptError \<Rightarrow> EvalState \<Rightarrow> EvalState eval" where
  "verify_top verifying fSuccess serror st =
     (if verifying then if fSuccess then Inr (st\<lparr>stack := tl (stack st)\<rparr>) else set_error serror else Inr st)"

definition op_VERIFY :: "EvalState \<Rightarrow> EvalState eval" where
  "op_VERIFY st =
     (case stack st of
        [] \<Rightarrow> set_error SCRIPT_ERR_INVALID_STACK_OPERATION
      | vch # rest \<Rightarrow> verify_top True (CastToBool vch) SCRIPT_ERR_VERIFY st)"

section \<open>Stack\<close>

definition op_TOALTSTACK :: "EvalState \<Rightarrow> EvalState eval" where
  "op_TOALTSTACK st =
     (case stack st of
        [] \<Rightarrow> set_error SCRIPT_ERR_INVALID_STACK_OPERATION
      | vch # rest \<Rightarrow> Inr (st\<lparr>altstack := vch # altstack st, stack := rest\<rparr>))"

definition op_FROMALTSTACK :: "EvalState \<Rightarrow> EvalState eval" where
  "op_FROMALTSTACK st =
     (case altstack st of
        [] \<Rightarrow> set_error SCRIPT_ERR_INVALID_ALTSTACK_OPERATION
      | vch # rest \<Rightarrow> Inr (st\<lparr>stack := vch # stack st, altstack := rest\<rparr>))"

text \<open>The opcodes that rearrange the stack; \<open>None\<close> when it has too few elements.\<close>

definition stack_op :: "opcodetype \<Rightarrow> valtype list \<Rightarrow> valtype list option" where
  "stack_op opcode stk =
     (if opcode = OP_2DROP then (case stk of x2 # x1 # r \<Rightarrow> Some r | _ \<Rightarrow> None)
      else if opcode = OP_2DUP then (case stk of x2 # x1 # r \<Rightarrow> Some (x2 # x1 # x2 # x1 # r) | _ \<Rightarrow> None)
      else if opcode = OP_3DUP then (case stk of x3 # x2 # x1 # r \<Rightarrow> Some (x3 # x2 # x1 # x3 # x2 # x1 # r) | _ \<Rightarrow> None)
      else if opcode = OP_2OVER then (case stk of x4 # x3 # x2 # x1 # r \<Rightarrow> Some (x2 # x1 # x4 # x3 # x2 # x1 # r) | _ \<Rightarrow> None)
      else if opcode = OP_2ROT then (case stk of x6 # x5 # x4 # x3 # x2 # x1 # r \<Rightarrow> Some (x2 # x1 # x6 # x5 # x4 # x3 # r) | _ \<Rightarrow> None)
      else if opcode = OP_2SWAP then (case stk of x4 # x3 # x2 # x1 # r \<Rightarrow> Some (x2 # x1 # x4 # x3 # r) | _ \<Rightarrow> None)
      else if opcode = OP_IFDUP then (case stk of x # r \<Rightarrow> Some (if CastToBool x then x # x # r else x # r) | _ \<Rightarrow> None)
      else if opcode = OP_DEPTH then Some (scriptnum_serialize (int (length stk)) # stk)
      else if opcode = OP_DROP then (case stk of x # r \<Rightarrow> Some r | _ \<Rightarrow> None)
      else if opcode = OP_DUP then (case stk of x # r \<Rightarrow> Some (x # x # r) | _ \<Rightarrow> None)
      else if opcode = OP_NIP then (case stk of x2 # x1 # r \<Rightarrow> Some (x2 # r) | _ \<Rightarrow> None)
      else if opcode = OP_OVER then (case stk of x2 # x1 # r \<Rightarrow> Some (x1 # x2 # x1 # r) | _ \<Rightarrow> None)
      else if opcode = OP_ROT then (case stk of x3 # x2 # x1 # r \<Rightarrow> Some (x1 # x3 # x2 # r) | _ \<Rightarrow> None)
      else if opcode = OP_SWAP then (case stk of x2 # x1 # r \<Rightarrow> Some (x1 # x2 # r) | _ \<Rightarrow> None)
      else if opcode = OP_TUCK then (case stk of x2 # x1 # r \<Rightarrow> Some (x2 # x1 # x2 # r) | _ \<Rightarrow> None)
      else (case stk of x # r \<Rightarrow> Some (scriptnum_serialize (int (length x)) # x # r) | _ \<Rightarrow> None))"

definition op_stack :: "opcodetype \<Rightarrow> EvalState \<Rightarrow> EvalState eval" where
  "op_stack opcode st =
     (case stack_op opcode (stack st) of
        None \<Rightarrow> set_error SCRIPT_ERR_INVALID_STACK_OPERATION
      | Some stk \<Rightarrow> Inr (st\<lparr>stack := stk\<rparr>))"

definition op_PICK :: "script_verify_flags \<Rightarrow> opcodetype \<Rightarrow> EvalState \<Rightarrow> EvalState eval" where
  "op_PICK flags opcode st =
     (if length (stack st) < 2 then set_error SCRIPT_ERR_INVALID_STACK_OPERATION
      else bindE (script_num flags (hd (stack st)) nDefaultMaxNumSize)
        (\<lambda>k. let n = getint k; stk = tl (stack st)
              in if n < 0 \<or> n \<ge> int (length stk) then set_error SCRIPT_ERR_INVALID_STACK_OPERATION
                 else let vch = stk ! nat n;
                          stk = (if opcode = OP_ROLL then take (nat n) stk @ drop (Suc (nat n)) stk else stk)
                      in Inr (st\<lparr>stack := vch # stk\<rparr>)))"

definition op_EQUAL :: "opcodetype \<Rightarrow> EvalState \<Rightarrow> EvalState eval" where
  "op_EQUAL opcode st =
     (case stack st of
        vch2 # vch1 # rest \<Rightarrow>
          let fEqual = (vch1 = vch2)
          in verify_top (opcode = OP_EQUALVERIFY) fEqual SCRIPT_ERR_EQUALVERIFY (st\<lparr>stack := vchBool fEqual # rest\<rparr>)
      | _ \<Rightarrow> set_error SCRIPT_ERR_INVALID_STACK_OPERATION)"

section \<open>Numeric\<close>

text \<open>The compound assignments and the negation of \<^verbatim>\<open>CScriptNum\<close> assert that they stay in \<^verbatim>\<open>int64_t\<close>.\<close>

definition num_add_assign :: "int \<Rightarrow> int \<Rightarrow> int eval" where
  "num_add_assign m_value rhs =
     bindE (assertE (rhs = 0 \<or> (rhs > 0 \<and> m_value \<le> 2 ^ 63 - 1 - rhs) \<or> (rhs < 0 \<and> m_value \<ge> - (2 ^ 63) - rhs))) (\<lambda>_. Inr (m_value + rhs))"

definition num_sub_assign :: "int \<Rightarrow> int \<Rightarrow> int eval" where
  "num_sub_assign m_value rhs =
     bindE (assertE (rhs = 0 \<or> (rhs > 0 \<and> m_value \<ge> - (2 ^ 63) + rhs) \<or> (rhs < 0 \<and> m_value \<le> 2 ^ 63 - 1 + rhs))) (\<lambda>_. Inr (m_value - rhs))"

definition num_negate :: "int \<Rightarrow> int eval" where
  "num_negate m_value = bindE (assertE (m_value \<noteq> - (2 ^ 63))) (\<lambda>_. Inr (- m_value))"

definition unary_num :: "opcodetype \<Rightarrow> int \<Rightarrow> int eval" where
  "unary_num opcode bn =
     (if opcode = OP_1ADD then num_add_assign bn 1
      else if opcode = OP_1SUB then num_sub_assign bn 1
      else if opcode = OP_NEGATE then num_negate bn
      else if opcode = OP_ABS then if bn < 0 then num_negate bn else Inr bn
      else if opcode = OP_NOT then Inr (of_bool (bn = 0))
      else if opcode = OP_0NOTEQUAL then Inr (of_bool (bn \<noteq> 0))
      else Inl Assert_Fail)"

definition op_unary :: "script_verify_flags \<Rightarrow> opcodetype \<Rightarrow> EvalState \<Rightarrow> EvalState eval" where
  "op_unary flags opcode st =
     (case stack st of
        [] \<Rightarrow> set_error SCRIPT_ERR_INVALID_STACK_OPERATION
      | vch # rest \<Rightarrow> bindE (script_num flags vch nDefaultMaxNumSize)
          (\<lambda>bn. bindE (unary_num opcode bn) (\<lambda>bn. Inr (st\<lparr>stack := scriptnum_serialize bn # rest\<rparr>))))"

definition binary_num :: "opcodetype \<Rightarrow> int \<Rightarrow> int \<Rightarrow> int eval" where
  "binary_num opcode bn1 bn2 =
     (if opcode = OP_ADD then Inr (bn1 + bn2)
      else if opcode = OP_SUB then Inr (bn1 - bn2)
      else if opcode = OP_BOOLAND then Inr (of_bool (bn1 \<noteq> 0 \<and> bn2 \<noteq> 0))
      else if opcode = OP_BOOLOR then Inr (of_bool (bn1 \<noteq> 0 \<or> bn2 \<noteq> 0))
      else if opcode = OP_NUMEQUAL then Inr (of_bool (bn1 = bn2))
      else if opcode = OP_NUMEQUALVERIFY then Inr (of_bool (bn1 = bn2))
      else if opcode = OP_NUMNOTEQUAL then Inr (of_bool (bn1 \<noteq> bn2))
      else if opcode = OP_LESSTHAN then Inr (of_bool (bn1 < bn2))
      else if opcode = OP_GREATERTHAN then Inr (of_bool (bn1 > bn2))
      else if opcode = OP_LESSTHANOREQUAL then Inr (of_bool (bn1 \<le> bn2))
      else if opcode = OP_GREATERTHANOREQUAL then Inr (of_bool (bn1 \<ge> bn2))
      else if opcode = OP_MIN then Inr (if bn1 < bn2 then bn1 else bn2)
      else if opcode = OP_MAX then Inr (if bn1 > bn2 then bn1 else bn2)
      else Inl Assert_Fail)"

definition op_binary :: "script_verify_flags \<Rightarrow> opcodetype \<Rightarrow> EvalState \<Rightarrow> EvalState eval" where
  "op_binary flags opcode st =
     (case stack st of
        vch2 # vch1 # rest \<Rightarrow>
          bindE (script_num flags vch1 nDefaultMaxNumSize)
            (\<lambda>bn1. bindE (script_num flags vch2 nDefaultMaxNumSize)
              (\<lambda>bn2. bindE (binary_num opcode bn1 bn2)
                (\<lambda>bn. verify_top (opcode = OP_NUMEQUALVERIFY) (CastToBool (scriptnum_serialize bn)) SCRIPT_ERR_NUMEQUALVERIFY
                        (st\<lparr>stack := scriptnum_serialize bn # rest\<rparr>))))
      | _ \<Rightarrow> set_error SCRIPT_ERR_INVALID_STACK_OPERATION)"

definition op_WITHIN :: "script_verify_flags \<Rightarrow> EvalState \<Rightarrow> EvalState eval" where
  "op_WITHIN flags st =
     (case stack st of
        vch3 # vch2 # vch1 # rest \<Rightarrow>
          bindE (script_num flags vch1 nDefaultMaxNumSize)
            (\<lambda>bn1. bindE (script_num flags vch2 nDefaultMaxNumSize)
              (\<lambda>bn2. bindE (script_num flags vch3 nDefaultMaxNumSize)
                (\<lambda>bn3. Inr (st\<lparr>stack := vchBool (bn2 \<le> bn1 \<and> bn1 < bn3) # rest\<rparr>))))
      | _ \<Rightarrow> set_error SCRIPT_ERR_INVALID_STACK_OPERATION)"

section \<open>Crypto\<close>

definition hash_vch :: "opcodetype \<Rightarrow> valtype \<Rightarrow> valtype" where
  "hash_vch opcode vch =
     (if opcode = OP_RIPEMD160 then Ripemd160 vch
      else if opcode = OP_SHA1 then Sha1 vch
      else if opcode = OP_SHA256 then CSHA256_Finalize (CSHA256_Write CSHA256_init vch)
      else if opcode = OP_HASH160 then Hash160 vch
      else Hash vch)"

definition bytes_hashed :: "opcodetype \<Rightarrow> valtype \<Rightarrow> int" where
  "bytes_hashed opcode vch = int (length vch) + (if opcode = OP_HASH160 \<or> opcode = OP_HASH256 then 32 else 0)"

definition op_HASH :: "SigVersion \<Rightarrow> opcodetype \<Rightarrow> EvalState \<Rightarrow> EvalState eval" where
  "op_HASH sigversion opcode st =
     (case stack st of
        [] \<Rightarrow> set_error SCRIPT_ERR_INVALID_STACK_OPERATION
      | vch # rest \<Rightarrow>
          bindE (if IsXcoinV3Tapscript sigversion
                 then charge_weight (bytes_hashed opcode vch * XCOIN_V3_VALIDATION_WEIGHT_PER_HASHED_BYTE) SCRIPT_ERR_XCOIN_V3_HASH_WEIGHT (execdata st)
                 else Inr (execdata st))
            (\<lambda>ed. Inr (st\<lparr>execdata := ed, stack := hash_vch opcode vch # rest\<rparr>)))"

definition op_CODESEPARATOR :: "bytes \<Rightarrow> EvalState \<Rightarrow> EvalState eval" where
  "op_CODESEPARATOR pc st =
     Inr (st\<lparr>pbegincodehash := pc, execdata := (execdata st)\<lparr>m_codeseparator_pos := opcode_pos st\<rparr>\<rparr>)"

definition op_CHECKSIG :: "script_verify_flags \<Rightarrow> BaseSignatureChecker \<Rightarrow> SigVersion \<Rightarrow> opcodetype \<Rightarrow> EvalState \<Rightarrow> EvalState eval" where
  "op_CHECKSIG flags checker sigversion opcode st =
     (if sigversion = XCOIN_PQ_TAPSCRIPT
      then case stack st of
             vchPubKeyHash # vchSig # vchPubKey # rest \<Rightarrow>
               bindE (EvalChecksigXcoinV3 vchSig vchPubKeyHash vchPubKey (execdata st) flags checker)
                 (\<lambda>(fSuccess, ed). verify_top (opcode = OP_CHECKSIGVERIFY) fSuccess SCRIPT_ERR_CHECKSIGVERIFY
                    (st\<lparr>execdata := ed, stack := vchBool fSuccess # rest\<rparr>))
           | _ \<Rightarrow> set_error SCRIPT_ERR_INVALID_STACK_OPERATION
      else case stack st of
             vchPubKey # vchSig # rest \<Rightarrow>
               bindE (EvalChecksig vchSig vchPubKey (pbegincodehash st) (execdata st) flags checker sigversion)
                 (\<lambda>(fSuccess, ed). verify_top (opcode = OP_CHECKSIGVERIFY) fSuccess SCRIPT_ERR_CHECKSIGVERIFY
                    (st\<lparr>execdata := ed, stack := vchBool fSuccess # rest\<rparr>))
           | _ \<Rightarrow> set_error SCRIPT_ERR_INVALID_STACK_OPERATION)"

definition op_CHECKSIGADD :: "script_verify_flags \<Rightarrow> BaseSignatureChecker \<Rightarrow> SigVersion \<Rightarrow> EvalState \<Rightarrow> EvalState eval" where
  "op_CHECKSIGADD flags checker sigversion st =
     (if sigversion = BASE \<or> sigversion = WITNESS_V0 then set_error SCRIPT_ERR_BAD_OPCODE
      else if sigversion = XCOIN_PQ_TAPSCRIPT
      then case stack st of
             pubkey_hash # num # sig # pubkey # rest \<Rightarrow>
               bindE (script_num flags num nDefaultMaxNumSize)
                 (\<lambda>n. bindE (EvalChecksigXcoinV3 sig pubkey_hash pubkey (execdata st) flags checker)
                   (\<lambda>(success, ed). Inr (st\<lparr>execdata := ed, stack := scriptnum_serialize (n + (if success then 1 else 0)) # rest\<rparr>)))
           | _ \<Rightarrow> set_error SCRIPT_ERR_INVALID_STACK_OPERATION
      else case stack st of
             pubkey # num # sig # rest \<Rightarrow>
               bindE (script_num flags num nDefaultMaxNumSize)
                 (\<lambda>n. bindE (EvalChecksig sig pubkey (pbegincodehash st) (execdata st) flags checker sigversion)
                   (\<lambda>(success, ed). Inr (st\<lparr>execdata := ed, stack := scriptnum_serialize (n + (if success then 1 else 0)) # rest\<rparr>)))
           | _ \<Rightarrow> set_error SCRIPT_ERR_INVALID_STACK_OPERATION)"

definition op_CHECKSIG_PQ :: "BaseSignatureChecker \<Rightarrow> SigVersion \<Rightarrow> opcodetype \<Rightarrow> EvalState \<Rightarrow> EvalState eval" where
  "op_CHECKSIG_PQ checker sigversion opcode st =
     (case stack st of
        vchPubKey # vchSig # rest \<Rightarrow>
          let fSuccess = (if length vchPubKey = PQ_PUBKEY_SIZE \<and> vchSig \<noteq> []
                          then CheckPQSig checker vchSig vchPubKey (pbegincodehash st) sigversion else False)
          in verify_top (opcode = OP_CHECKSIGVERIFY_PQ) fSuccess SCRIPT_ERR_CHECKSIGVERIFY (st\<lparr>stack := vchBool fSuccess # rest\<rparr>)
      | _ \<Rightarrow> set_error SCRIPT_ERR_INVALID_STACK_OPERATION)"

section \<open>CHECKMULTISIG\<close>

text \<open>Positions are those of the source, counted from 1 at the top of the stack.\<close>

primrec multisig_delete :: "script_verify_flags \<Rightarrow> SigVersion \<Rightarrow> valtype list \<Rightarrow> CScript \<Rightarrow> CScript eval" where
  "multisig_delete flags sigversion [] scriptCode = Inr scriptCode"
| "multisig_delete flags sigversion (vchSig # sigs) scriptCode =
     (case (if sigversion = BASE then FindAndDelete scriptCode (push_data [] vchSig) else (0, scriptCode)) of
        (found, scriptCode) \<Rightarrow>
          if found > 0 \<and> SCRIPT_VERIFY_CONST_SCRIPTCODE \<in> flags then set_error SCRIPT_ERR_SIG_FINDANDDELETE
          else multisig_delete flags sigversion sigs scriptCode)"

function multisig_loop ::
  "script_verify_flags \<Rightarrow> BaseSignatureChecker \<Rightarrow> SigVersion \<Rightarrow> valtype list \<Rightarrow> CScript \<Rightarrow> nat \<Rightarrow> nat \<Rightarrow> nat \<Rightarrow> nat \<Rightarrow> bool eval"
where
  "multisig_loop flags checker sigversion stk scriptCode isig ikey nSigsCount nKeysCount =
     (if nSigsCount = 0 then Inr True
      else let vchSig = stk ! (isig - 1); vchPubKey = stk ! (ikey - 1) in
        bindE (CheckSignatureEncoding checker vchSig flags)
          (\<lambda>_. bindE (CheckPubKeyEncoding vchPubKey flags sigversion)
            (\<lambda>_. let fOk = CheckECDSASignature checker vchSig vchPubKey scriptCode sigversion;
                      isig' = (if fOk then isig + 1 else isig);
                      nSigs = (if fOk then nSigsCount - 1 else nSigsCount)
                  in if int nSigs > int nKeysCount - 1 then Inr False
                     else multisig_loop flags checker sigversion stk scriptCode isig' (ikey + 1) nSigs (nKeysCount - 1))))"
  by pat_completeness auto
termination
  by (relation "measure (\<lambda>(flags, checker, sigversion, stk, scriptCode, isig, ikey, nSigsCount, nKeysCount). nKeysCount)") auto

declare multisig_loop.simps [simp del]

text \<open>The arguments are popped one by one: \<open>ikey2\<close> counts down over the keys and the counts, the rest are signatures.\<close>

fun multisig_cleanup :: "script_verify_flags \<Rightarrow> bool \<Rightarrow> nat \<Rightarrow> nat \<Rightarrow> valtype list \<Rightarrow> valtype list eval" where
  "multisig_cleanup flags fSuccess ikey2 0 stk = Inr stk"
| "multisig_cleanup flags fSuccess ikey2 (Suc i) stk =
     (if \<not> fSuccess \<and> SCRIPT_VERIFY_NULLFAIL \<in> flags \<and> ikey2 = 0 \<and> length (hd stk) > 0 then set_error SCRIPT_ERR_SIG_NULLFAIL
      else multisig_cleanup flags fSuccess (ikey2 - 1) i (tl stk))"

definition op_CHECKMULTISIG :: "script_verify_flags \<Rightarrow> BaseSignatureChecker \<Rightarrow> SigVersion \<Rightarrow> opcodetype \<Rightarrow> EvalState \<Rightarrow> EvalState eval" where
  "op_CHECKMULTISIG flags checker sigversion opcode st =
     (if tapscript_rules sigversion then set_error SCRIPT_ERR_TAPSCRIPT_CHECKMULTISIG
      else if length (stack st) < 1 then set_error SCRIPT_ERR_INVALID_STACK_OPERATION
      else bindE (script_num flags (stack st ! 0) nDefaultMaxNumSize)
        (\<lambda>k. let nKeysCount = getint k in
          if nKeysCount < 0 \<or> nKeysCount > MAX_PUBKEYS_PER_MULTISIG then set_error SCRIPT_ERR_PUBKEY_COUNT
          else let st = st\<lparr>nOpCount := nOpCount st + nKeysCount\<rparr> in
          if nOpCount st > MAX_OPS_PER_SCRIPT then set_error SCRIPT_ERR_OP_COUNT
          else let ikey = 2; ikey2 = nat nKeysCount + 2; i = 2 + nat nKeysCount in
          if length (stack st) < i then set_error SCRIPT_ERR_INVALID_STACK_OPERATION
          else bindE (script_num flags (stack st ! (i - 1)) nDefaultMaxNumSize)
            (\<lambda>k. let nSigsCount = getint k in
              if nSigsCount < 0 \<or> nSigsCount > nKeysCount then set_error SCRIPT_ERR_SIG_COUNT
              else let isig = i + 1; i = isig + nat nSigsCount in
              if length (stack st) < i then set_error SCRIPT_ERR_INVALID_STACK_OPERATION
              else bindE (multisig_delete flags sigversion (take (nat nSigsCount) (drop (isig - 1) (stack st))) (pbegincodehash st))
                (\<lambda>scriptCode. bindE (multisig_loop flags checker sigversion (stack st) scriptCode isig ikey (nat nSigsCount) (nat nKeysCount))
                  (\<lambda>fSuccess. bindE (multisig_cleanup flags fSuccess ikey2 (i - 1) (stack st))
                    (\<lambda>stk. if length stk < 1 then set_error SCRIPT_ERR_INVALID_STACK_OPERATION
                            else if SCRIPT_VERIFY_NULLDUMMY \<in> flags \<and> length (hd stk) > 0 then set_error SCRIPT_ERR_SIG_NULLDUMMY
                            else verify_top (opcode = OP_CHECKMULTISIGVERIFY) fSuccess SCRIPT_ERR_CHECKMULTISIGVERIFY
                                   (st\<lparr>stack := vchBool fSuccess # tl stk\<rparr>)))))))"

section \<open>The loop\<close>

definition is_disabled :: "opcodetype \<Rightarrow> bool" where
  "is_disabled opcode \<longleftrightarrow> opcode = OP_CAT \<or> opcode = OP_SUBSTR \<or> opcode = OP_LEFT \<or> opcode = OP_RIGHT \<or> opcode = OP_INVERT
     \<or> opcode = OP_AND \<or> opcode = OP_OR \<or> opcode = OP_XOR \<or> opcode = OP_2MUL \<or> opcode = OP_2DIV \<or> opcode = OP_MUL
     \<or> opcode = OP_DIV \<or> opcode = OP_MOD \<or> opcode = OP_LSHIFT \<or> opcode = OP_RSHIFT"

text \<open>The switch.\<close>

definition exec_op ::
  "script_verify_flags \<Rightarrow> BaseSignatureChecker \<Rightarrow> SigVersion \<Rightarrow> opcodetype \<Rightarrow> bool \<Rightarrow> bytes \<Rightarrow> EvalState \<Rightarrow> EvalState eval"
where
  "exec_op flags checker sigversion opcode fExec pc st =
     (if opcode = OP_1NEGATE \<or> OP_1 \<le> opcode \<and> opcode \<le> OP_16
      then Inr (st\<lparr>stack := scriptnum_serialize (int opcode - (int OP_1 - 1)) # stack st\<rparr>)
      else if opcode = OP_NOP then Inr st
      else if opcode = OP_CHECKLOCKTIMEVERIFY then op_CHECKLOCKTIMEVERIFY flags checker st
      else if opcode = OP_CHECKSEQUENCEVERIFY then op_CHECKSEQUENCEVERIFY flags checker st
      else if opcode = OP_CHECKTEMPLATEVERIFY then op_CHECKTEMPLATEVERIFY flags checker sigversion st
      else if opcode = OP_NOP1 \<or> OP_NOP5 \<le> opcode \<and> opcode \<le> OP_NOP10 then op_NOPn flags st
      else if opcode = OP_IF \<or> opcode = OP_NOTIF then op_IF flags sigversion opcode fExec st
      else if opcode = OP_ELSE then op_ELSE st
      else if opcode = OP_ENDIF then op_ENDIF st
      else if opcode = OP_VERIFY then op_VERIFY st
      else if opcode = OP_RETURN then set_error SCRIPT_ERR_OP_RETURN
      else if opcode = OP_TOALTSTACK then op_TOALTSTACK st
      else if opcode = OP_FROMALTSTACK then op_FROMALTSTACK st
      else if opcode = OP_PICK \<or> opcode = OP_ROLL then op_PICK flags opcode st
      else if OP_2DROP \<le> opcode \<and> opcode \<le> OP_TUCK \<or> opcode = OP_SIZE then op_stack opcode st
      else if opcode = OP_EQUAL \<or> opcode = OP_EQUALVERIFY then op_EQUAL opcode st
      else if opcode = OP_1ADD \<or> opcode = OP_1SUB \<or> OP_NEGATE \<le> opcode \<and> opcode \<le> OP_0NOTEQUAL then op_unary flags opcode st
      else if opcode = OP_ADD \<or> opcode = OP_SUB \<or> OP_BOOLAND \<le> opcode \<and> opcode \<le> OP_MAX then op_binary flags opcode st
      else if opcode = OP_WITHIN then op_WITHIN flags st
      else if OP_RIPEMD160 \<le> opcode \<and> opcode \<le> OP_HASH256 then op_HASH sigversion opcode st
      else if opcode = OP_CODESEPARATOR then op_CODESEPARATOR pc st
      else if opcode = OP_CHECKSIG \<or> opcode = OP_CHECKSIGVERIFY then op_CHECKSIG flags checker sigversion opcode st
      else if opcode = OP_CHECKSIGADD then op_CHECKSIGADD flags checker sigversion st
      else if opcode = OP_CHECKSIG_PQ \<or> opcode = OP_CHECKSIGVERIFY_PQ then op_CHECKSIG_PQ checker sigversion opcode st
      else if opcode = OP_CHECKMULTISIG \<or> opcode = OP_CHECKMULTISIGVERIFY then op_CHECKMULTISIG flags checker sigversion opcode st
      else set_error SCRIPT_ERR_BAD_OPCODE)"

text \<open>The instruction read: a push or the switch, in an executed branch or for the branch opcodes.\<close>

definition exec_instr ::
  "script_verify_flags \<Rightarrow> BaseSignatureChecker \<Rightarrow> SigVersion \<Rightarrow> opcodetype \<Rightarrow> valtype \<Rightarrow> bytes \<Rightarrow> EvalState \<Rightarrow> EvalState eval"
where
  "exec_instr flags checker sigversion opcode vchPushValue pc st =
     (let fExec = cond_all_true (vfExec st) in
      if fExec \<and> opcode \<le> OP_PUSHDATA4
      then if SCRIPT_VERIFY_MINIMALDATA \<in> flags \<and> \<not> CheckMinimalPush vchPushValue opcode then set_error SCRIPT_ERR_MINIMALDATA
           else Inr (st\<lparr>stack := vchPushValue # stack st\<rparr>)
      else if fExec \<or> OP_IF \<le> opcode \<and> opcode \<le> OP_ENDIF then exec_op flags checker sigversion opcode fExec pc st
      else Inr st)"

text \<open>One pass of the loop, from the position \<open>pc\<close> to the position after the instruction.\<close>

definition eval_step ::
  "script_verify_flags \<Rightarrow> BaseSignatureChecker \<Rightarrow> SigVersion \<Rightarrow> bytes \<Rightarrow> EvalState \<Rightarrow> (bytes \<times> EvalState) eval"
where
  "eval_step flags checker sigversion pc st =
     (case GetScriptOp pc of
        None \<Rightarrow> set_error SCRIPT_ERR_BAD_OPCODE
      | Some (opcode, vchPushValue, pc') \<Rightarrow>
          if length vchPushValue > MAX_SCRIPT_ELEMENT_SIZE then set_error SCRIPT_ERR_PUSH_SIZE
          else let st = (if script_limits sigversion \<and> opcode > OP_16 then st\<lparr>nOpCount := nOpCount st + 1\<rparr> else st) in
          if script_limits sigversion \<and> opcode > OP_16 \<and> nOpCount st > MAX_OPS_PER_SCRIPT then set_error SCRIPT_ERR_OP_COUNT
          else if is_disabled opcode then set_error SCRIPT_ERR_DISABLED_OPCODE
          else if opcode = OP_CODESEPARATOR \<and> sigversion = BASE \<and> SCRIPT_VERIFY_CONST_SCRIPTCODE \<in> flags
          then set_error SCRIPT_ERR_OP_CODESEPARATOR
          else bindE (exec_instr flags checker sigversion opcode vchPushValue pc' st)
            (\<lambda>st. if length (stack st) + length (altstack st) > MAX_STACK_SIZE then set_error SCRIPT_ERR_STACK_SIZE
                   else Inr (pc', st\<lparr>opcode_pos := opcode_pos st + 1\<rparr>)))"

lemma eval_step_shorter: "eval_step flags checker sigversion pc st = Inr (pc', st') \<Longrightarrow> length pc' < length pc"
  by (auto simp: eval_step_def set_error_def bindE_Inr Let_def dest!: GetScriptOp_shorter split: option.splits if_splits)

function eval_loop ::
  "script_verify_flags \<Rightarrow> BaseSignatureChecker \<Rightarrow> SigVersion \<Rightarrow> bytes \<Rightarrow> EvalState \<Rightarrow> EvalState eval"
where
  "eval_loop flags checker sigversion pc st =
     (if pc = [] then Inr st
      else bindE (eval_step flags checker sigversion pc st) (\<lambda>(pc', st'). eval_loop flags checker sigversion pc' st'))"
  by pat_completeness auto
termination
  by (relation "measure (\<lambda>(flags, checker, sigversion, pc, st). length pc)") (auto dest: eval_step_shorter)

declare eval_loop.simps [simp del]

definition eval_init :: "valtype list \<Rightarrow> CScript \<Rightarrow> ScriptExecutionData \<Rightarrow> EvalState" where
  "eval_init stk script ed =
     \<lparr>stack = stk, altstack = [], vfExec = cond_init, nOpCount = 0, pbegincodehash = script, opcode_pos = 0,
      execdata = ed\<lparr>m_codeseparator_pos := 0xFFFFFFFF, m_codeseparator_pos_init := True\<rparr>\<rparr>"

text \<open>The result is the stack and the execution data, which the caller passes by reference.\<close>

definition EvalScript ::
  "valtype list \<Rightarrow> CScript \<Rightarrow> script_verify_flags \<Rightarrow> BaseSignatureChecker \<Rightarrow> SigVersion \<Rightarrow> ScriptExecutionData
     \<Rightarrow> (valtype list \<times> ScriptExecutionData) eval"
where
  "EvalScript stk script flags checker sigversion ed =
     bindE (assertE (sigversion = BASE \<or> sigversion = WITNESS_V0 \<or> sigversion = TAPSCRIPT \<or> IsXcoinV3Tapscript sigversion))
       (\<lambda>_. if script_limits sigversion \<and> length script > MAX_SCRIPT_SIZE then set_error SCRIPT_ERR_SCRIPT_SIZE
             else bindE (eval_loop flags checker sigversion script (eval_init stk script ed))
               (\<lambda>st. if \<not> cond_empty (vfExec st) then set_error SCRIPT_ERR_UNBALANCED_CONDITIONAL
                      else Inr (stack st, execdata st)))"

end
