(* ===== verification/Script_Verify.thy ===== *)
theory Script_Verify
  imports Script_Interp
begin

unbundle bit_operations_syntax

text \<open>
  \<^verbatim>\<open>script/interpreter.cpp\<close> from \<^verbatim>\<open>ExecuteWitnessScript\<close> on: witness programs of versions 0 to 3, the Merkle
  commitments of tapscript and of the post-quantum script tree (\<^verbatim>\<open>script/xcoin_v3.h\<close>), \<^verbatim>\<open>VerifyScript\<close>, and the
  signature operation counts of witnesses.  A witness stack is in the order of the transaction, the top last.
\<close>

section \<open>Tagged hashes\<close>

text \<open>The characters of a string literal as bytes.\<close>

definition ascii :: "string \<Rightarrow> bytes" where
  "ascii cs = map (\<lambda>c. of_nat (of_char c)) cs"

definition TaggedHash :: "string \<Rightarrow> CSHA256" where
  "TaggedHash tag =
     (let taghash = CSHA256_Finalize (CSHA256_Write CSHA256_init (ascii tag))
      in CSHA256_Write (CSHA256_Write CSHA256_init taghash) taghash)"

definition HASHER_TAPLEAF :: CSHA256 where "HASHER_TAPLEAF = TaggedHash ''TapLeaf''"
definition HASHER_TAPBRANCH :: CSHA256 where "HASHER_TAPBRANCH = TaggedHash ''TapBranch''"
definition HASHER_XCOIN_LEAF :: CSHA256 where "HASHER_XCOIN_LEAF = TaggedHash ''XCoinLeaf''"
definition HASHER_XCOIN_BRANCH :: CSHA256 where "HASHER_XCOIN_BRANCH = TaggedHash ''XCoinBranch''"

definition XCOIN_V3_NOKEY :: uint256 where
  "XCOIN_V3_NOKEY = CSHA256_Finalize (CSHA256_Write CSHA256_init (ascii ''xcoin/v3/nokey''))"

definition WITNESS_V0_SCRIPTHASH_SIZE :: nat where [const_defs]: "WITNESS_V0_SCRIPTHASH_SIZE = 32"
definition WITNESS_V0_KEYHASH_SIZE :: nat where [const_defs]: "WITNESS_V0_KEYHASH_SIZE = 20"
definition WITNESS_V1_TAPROOT_SIZE :: nat where [const_defs]: "WITNESS_V1_TAPROOT_SIZE = 32"
definition WITNESS_V3_SIZE :: nat where [const_defs]: "WITNESS_V3_SIZE = 32"
definition TAPROOT_LEAF_MASK :: byte where [const_defs]: "TAPROOT_LEAF_MASK = 0xfe"
definition TAPROOT_LEAF_TAPSCRIPT :: byte where [const_defs]: "TAPROOT_LEAF_TAPSCRIPT = 0xc0"
definition TAPROOT_CONTROL_BASE_SIZE :: nat where [const_defs]: "TAPROOT_CONTROL_BASE_SIZE = 33"
definition TAPROOT_CONTROL_NODE_SIZE :: nat where [const_defs]: "TAPROOT_CONTROL_NODE_SIZE = 32"
definition TAPROOT_CONTROL_MAX_SIZE :: nat where [const_defs]: "TAPROOT_CONTROL_MAX_SIZE = 33 + 32 * 128"
definition XCOIN_LEAF_PQ :: byte where [const_defs]: "XCOIN_LEAF_PQ = 0xc0"
definition XCOIN_LEAF_SLH :: byte where [const_defs]: "XCOIN_LEAF_SLH = 0xc2"
definition XCOIN_V3_CONTROL_BASE_SIZE :: nat where [const_defs]: "XCOIN_V3_CONTROL_BASE_SIZE = 33"
definition XCOIN_V3_CONTROL_NODE_SIZE :: nat where [const_defs]: "XCOIN_V3_CONTROL_NODE_SIZE = 32"
definition XCOIN_V3_CONTROL_MAX_SIZE :: nat where [const_defs]: "XCOIN_V3_CONTROL_MAX_SIZE = 33 + 32 * 128"
definition MAX_XCOIN_V3_INITIAL_ELEMENT_SIZE :: nat where [const_defs]: "MAX_XCOIN_V3_INITIAL_ELEMENT_SIZE = 8192"

fun lexicographical_compare :: "bytes \<Rightarrow> bytes \<Rightarrow> bool" where
  "lexicographical_compare _ [] = False"
| "lexicographical_compare [] (b # bs) = True"
| "lexicographical_compare (a # as) (b # bs) = (if a < b then True else if b < a then False else lexicographical_compare as bs)"

section \<open>Commitments\<close>

definition ComputeTapleafHash :: "byte \<Rightarrow> bytes \<Rightarrow> uint256" where
  "ComputeTapleafHash leaf_version script =
     HashWriter_GetSHA256 (CSHA256_Write (CSHA256_Write (CSHA256_Write HASHER_TAPLEAF [leaf_version]) (WriteCompactSize (length script))) script)"

definition ComputeTapbranchHash :: "bytes \<Rightarrow> bytes \<Rightarrow> uint256" where
  "ComputeTapbranchHash a b =
     HashWriter_GetSHA256 (if lexicographical_compare a b then CSHA256_Write (CSHA256_Write HASHER_TAPBRANCH a) b
                           else CSHA256_Write (CSHA256_Write HASHER_TAPBRANCH b) a)"

definition control_node :: "bytes \<Rightarrow> nat \<Rightarrow> bytes" where
  "control_node control i = take TAPROOT_CONTROL_NODE_SIZE (drop (TAPROOT_CONTROL_BASE_SIZE + TAPROOT_CONTROL_NODE_SIZE * i) control)"

definition ComputeTaprootMerkleRoot :: "bytes \<Rightarrow> uint256 \<Rightarrow> uint256 eval" where
  "ComputeTaprootMerkleRoot control tapleaf_hash =
     bindE (assertE (length control \<ge> TAPROOT_CONTROL_BASE_SIZE \<and> length control \<le> TAPROOT_CONTROL_MAX_SIZE
         \<and> (length control - TAPROOT_CONTROL_BASE_SIZE) mod TAPROOT_CONTROL_NODE_SIZE = 0))
       (\<lambda>_. Inr (fold (\<lambda>i k. ComputeTapbranchHash k (control_node control i))
                  [0..<(length control - TAPROOT_CONTROL_BASE_SIZE) div TAPROOT_CONTROL_NODE_SIZE] tapleaf_hash))"

definition ComputeXcoinLeafHash :: "byte \<Rightarrow> bytes \<Rightarrow> uint256" where
  "ComputeXcoinLeafHash leaf_version script =
     HashWriter_GetSHA256 (CSHA256_Write (CSHA256_Write (CSHA256_Write HASHER_XCOIN_LEAF [leaf_version]) (WriteCompactSize (length script))) script)"

definition ComputeXcoinBranchHash :: "bytes \<Rightarrow> bytes \<Rightarrow> uint256 eval" where
  "ComputeXcoinBranchHash a b =
     bindE (assertE (length a = 32 \<and> length b = 32))
       (\<lambda>_. Inr (HashWriter_GetSHA256
          (if lexicographical_compare a b then CSHA256_Write (CSHA256_Write HASHER_XCOIN_BRANCH a) b
           else CSHA256_Write (CSHA256_Write HASHER_XCOIN_BRANCH b) a)))"

primrec xcoin_path :: "bytes \<Rightarrow> nat list \<Rightarrow> uint256 \<Rightarrow> uint256 eval" where
  "xcoin_path control [] k = Inr k"
| "xcoin_path control (i # is) k =
     bindE (ComputeXcoinBranchHash k (take XCOIN_V3_CONTROL_NODE_SIZE (drop (XCOIN_V3_CONTROL_BASE_SIZE + XCOIN_V3_CONTROL_NODE_SIZE * i) control)))
       (\<lambda>k. xcoin_path control is k)"

definition ComputeXcoinV3MerkleRoot :: "bytes \<Rightarrow> uint256 \<Rightarrow> uint256 eval" where
  "ComputeXcoinV3MerkleRoot control leaf_hash =
     bindE (assertE (length control \<ge> XCOIN_V3_CONTROL_BASE_SIZE \<and> length control \<le> XCOIN_V3_CONTROL_MAX_SIZE
         \<and> (length control - XCOIN_V3_CONTROL_BASE_SIZE) mod XCOIN_V3_CONTROL_NODE_SIZE = 0))
       (\<lambda>_. xcoin_path control [0..<(length control - XCOIN_V3_CONTROL_BASE_SIZE) div XCOIN_V3_CONTROL_NODE_SIZE] leaf_hash)"

definition VerifyXcoinV3Commitment :: "bytes \<Rightarrow> bytes \<Rightarrow> uint256 \<Rightarrow> bool eval" where
  "VerifyXcoinV3Commitment control program leaf_hash =
     bindE (assertE (length control \<ge> XCOIN_V3_CONTROL_BASE_SIZE \<and> length program = WITNESS_V3_SIZE))
       (\<lambda>_. bindE (ComputeXcoinV3MerkleRoot control leaf_hash) (\<lambda>merkle_root. Inr (merkle_root = program)))"

definition VerifyTaprootCommitment :: "BaseSignatureChecker \<Rightarrow> bytes \<Rightarrow> bytes \<Rightarrow> uint256 \<Rightarrow> bool eval" where
  "VerifyTaprootCommitment checker control program tapleaf_hash =
     bindE (assertE (length control \<ge> TAPROOT_CONTROL_BASE_SIZE \<and> length program \<ge> 32))
       (\<lambda>_. bindE (ComputeTaprootMerkleRoot control tapleaf_hash)
         (\<lambda>merkle_root. Inr (CheckTapTweak checker program (take (TAPROOT_CONTROL_BASE_SIZE - 1) (drop 1 control)) merkle_root (control ! 0 AND 1 \<noteq> 0))))"

section \<open>Witness programs\<close>

text \<open>The scan for opcodes that make a leaf succeed; true when one is found.\<close>

function scan_success :: "script_verify_flags \<Rightarrow> bytes \<Rightarrow> bool eval" where
  "scan_success flags pc =
     (if pc = [] then Inr False
      else case GetScriptOp pc of
             None \<Rightarrow> set_error SCRIPT_ERR_BAD_OPCODE
           | Some (opcode, data, pc') \<Rightarrow>
               if IsOpSuccess opcode
               then if SCRIPT_VERIFY_DISCOURAGE_OP_SUCCESS \<in> flags then set_error SCRIPT_ERR_DISCOURAGE_OP_SUCCESS else Inr True
               else scan_success flags pc')"
  by pat_completeness auto
termination
  by (relation "measure (\<lambda>(flags, pc). length pc)") (auto dest: GetScriptOp_shorter)

declare scan_success.simps [simp del]

definition max_initial_element_size :: "SigVersion \<Rightarrow> nat" where
  "max_initial_element_size sigversion =
     (if IsXcoinV3Tapscript sigversion then MAX_XCOIN_V3_INITIAL_ELEMENT_SIZE else MAX_SCRIPT_ELEMENT_SIZE)"

definition ExecuteWitnessScript ::
  "valtype list \<Rightarrow> CScript \<Rightarrow> script_verify_flags \<Rightarrow> SigVersion \<Rightarrow> BaseSignatureChecker \<Rightarrow> ScriptExecutionData \<Rightarrow> unit eval"
where
  "ExecuteWitnessScript stack_span exec_script flags sigversion checker ed =
     bindE (if tapscript_rules sigversion
            then bindE (scan_success flags exec_script)
                   (\<lambda>found. if found then Inr True
                             else if length stack_span > MAX_STACK_SIZE then set_error SCRIPT_ERR_STACK_SIZE else Inr False)
            else Inr False)
       (\<lambda>found. if found then Inr ()
          else if \<exists>elem\<in>set stack_span. length elem > max_initial_element_size sigversion then set_error SCRIPT_ERR_PUSH_SIZE
          else bindE (EvalScript (rev stack_span) exec_script flags checker sigversion ed)
            (\<lambda>(stk, ed). if length stk \<noteq> 1 then set_error SCRIPT_ERR_CLEANSTACK
                          else if \<not> CastToBool (hd stk) then set_error SCRIPT_ERR_EVAL_FALSE
                          else Inr ()))"

definition verify_v0 :: "valtype list \<Rightarrow> bytes \<Rightarrow> script_verify_flags \<Rightarrow> BaseSignatureChecker \<Rightarrow> unit eval" where
  "verify_v0 stk program flags checker =
     (if length program = WITNESS_V0_SCRIPTHASH_SIZE
      then if stk = [] then set_error SCRIPT_ERR_WITNESS_PROGRAM_WITNESS_EMPTY
           else let exec_script = last stk in
             if CSHA256_Finalize (CSHA256_Write CSHA256_init exec_script) \<noteq> program then set_error SCRIPT_ERR_WITNESS_PROGRAM_MISMATCH
             else ExecuteWitnessScript (butlast stk) exec_script flags WITNESS_V0 checker execdata_init
      else if length program = WITNESS_V0_KEYHASH_SIZE
      then if length stk \<noteq> 2 then set_error SCRIPT_ERR_WITNESS_PROGRAM_MISMATCH
           else ExecuteWitnessScript stk
                  (push_data [of_nat OP_DUP, of_nat OP_HASH160] program @ [of_nat OP_EQUALVERIFY, of_nat OP_CHECKSIG])
                  flags WITNESS_V0 checker execdata_init
      else set_error SCRIPT_ERR_WITNESS_PROGRAM_WRONG_LENGTH)"

definition split_annex :: "valtype list \<Rightarrow> ScriptExecutionData \<Rightarrow> valtype list \<times> ScriptExecutionData" where
  "split_annex stk ed =
     (if length stk \<ge> 2 \<and> last stk \<noteq> [] \<and> hd (last stk) = ANNEX_TAG
      then (butlast stk, ed\<lparr>m_annex_hash := HashWriter_GetSHA256 (CSHA256_Write CSHA256_init (ser_bytes (last stk))),
                            m_annex_present := True, m_annex_init := True\<rparr>)
      else (stk, ed\<lparr>m_annex_present := False, m_annex_init := True\<rparr>))"

definition weight_budget :: "valtype list \<Rightarrow> int" where
  "weight_budget witness = int (length (ser_stack witness)) + VALIDATION_WEIGHT_OFFSET"

definition verify_taproot :: "valtype list \<Rightarrow> bytes \<Rightarrow> script_verify_flags \<Rightarrow> BaseSignatureChecker \<Rightarrow> unit eval" where
  "verify_taproot witness program flags checker =
     (if SCRIPT_VERIFY_TAPROOT \<notin> flags then Inr ()
      else if witness = [] then set_error SCRIPT_ERR_WITNESS_PROGRAM_WITNESS_EMPTY
      else case split_annex witness execdata_init of (stk, ed) \<Rightarrow>
        if length stk = 1
        then bindE (checked (CheckSchnorrSignature checker (hd stk) program TAPROOT ed) ed) (\<lambda>_. Inr ())
        else let control = last stk; script = last (butlast stk); stk = butlast (butlast stk) in
          if length control < TAPROOT_CONTROL_BASE_SIZE \<or> length control > TAPROOT_CONTROL_MAX_SIZE
             \<or> (length control - TAPROOT_CONTROL_BASE_SIZE) mod TAPROOT_CONTROL_NODE_SIZE \<noteq> 0
          then set_error SCRIPT_ERR_TAPROOT_WRONG_CONTROL_SIZE
          else let ed = ed\<lparr>m_tapleaf_hash := ComputeTapleafHash (control ! 0 AND TAPROOT_LEAF_MASK) script\<rparr> in
            bindE (VerifyTaprootCommitment checker control program (m_tapleaf_hash ed))
              (\<lambda>ok. if \<not> ok then set_error SCRIPT_ERR_WITNESS_PROGRAM_MISMATCH
                else if control ! 0 AND TAPROOT_LEAF_MASK = TAPROOT_LEAF_TAPSCRIPT
                then ExecuteWitnessScript stk script flags TAPSCRIPT checker
                       (ed\<lparr>m_tapleaf_hash_init := True, m_validation_weight_left := weight_budget witness, m_validation_weight_left_init := True\<rparr>)
                else if SCRIPT_VERIFY_DISCOURAGE_UPGRADABLE_TAPROOT_VERSION \<in> flags
                then set_error SCRIPT_ERR_DISCOURAGE_UPGRADABLE_TAPROOT_VERSION
                else Inr ()))"

definition verify_v2 :: "valtype list \<Rightarrow> bytes \<Rightarrow> BaseSignatureChecker \<Rightarrow> unit eval" where
  "verify_v2 stk program checker =
     (if length stk \<noteq> 2 then set_error SCRIPT_ERR_WITNESS_PROGRAM_MISMATCH
      else let vchSig = stk ! 0; vchPubKey = stk ! 1 in
        if length vchPubKey \<noteq> PQ_PUBKEY_SIZE then set_error SCRIPT_ERR_WITNESS_PROGRAM_MISMATCH
        else if CSHA256_Finalize (CSHA256_Write CSHA256_init vchPubKey) \<noteq> program then set_error SCRIPT_ERR_WITNESS_PROGRAM_MISMATCH
        else if \<not> CheckPQSig checker vchSig vchPubKey (push_data [of_nat OP_2] program) WITNESS_V0 then set_error SCRIPT_ERR_CHECKSIGVERIFY
        else Inr ())"

definition verify_v3 :: "valtype list \<Rightarrow> bytes \<Rightarrow> script_verify_flags \<Rightarrow> BaseSignatureChecker \<Rightarrow> unit eval" where
  "verify_v3 witness program flags checker =
     (if SCRIPT_VERIFY_XCOIN_V3 \<notin> flags then Inr ()
      else if witness = [] then set_error SCRIPT_ERR_WITNESS_PROGRAM_WITNESS_EMPTY
      else case split_annex witness execdata_init of (stk, ed) \<Rightarrow>
        if length stk < 2 then set_error SCRIPT_ERR_WITNESS_PROGRAM_MISMATCH
        else let control = last stk; script = last (butlast stk); stk = butlast (butlast stk) in
          if length control < XCOIN_V3_CONTROL_BASE_SIZE \<or> length control > XCOIN_V3_CONTROL_MAX_SIZE
             \<or> (length control - XCOIN_V3_CONTROL_BASE_SIZE) mod XCOIN_V3_CONTROL_NODE_SIZE \<noteq> 0
          then set_error SCRIPT_ERR_XCOIN_V3_CONTROL
          else if control ! 0 AND NOT TAPROOT_LEAF_MASK \<noteq> 0 then set_error SCRIPT_ERR_XCOIN_V3_CONTROL
          else if take (XCOIN_V3_CONTROL_BASE_SIZE - 1) (drop 1 control) \<noteq> XCOIN_V3_NOKEY then set_error SCRIPT_ERR_XCOIN_V3_CONTROL
          else let leaf_version = control ! 0 AND TAPROOT_LEAF_MASK;
                   ed = ed\<lparr>m_tapleaf_hash := ComputeXcoinLeafHash leaf_version script\<rparr> in
            bindE (VerifyXcoinV3Commitment control program (m_tapleaf_hash ed))
              (\<lambda>ok. if \<not> ok then set_error SCRIPT_ERR_WITNESS_PROGRAM_MISMATCH
                else if leaf_version = XCOIN_LEAF_PQ \<or> leaf_version = XCOIN_LEAF_SLH
                then ExecuteWitnessScript stk script flags
                       (if leaf_version = XCOIN_LEAF_PQ then XCOIN_PQ_TAPSCRIPT else XCOIN_SLH_TAPSCRIPT) checker
                       (ed\<lparr>m_tapleaf_hash_init := True, m_validation_weight_left := weight_budget witness, m_validation_weight_left_init := True\<rparr>)
                else if SCRIPT_VERIFY_DISCOURAGE_UPGRADABLE_TAPROOT_VERSION \<in> flags
                then set_error SCRIPT_ERR_DISCOURAGE_UPGRADABLE_XCOIN_LEAF_VERSION
                else Inr ()))"

definition VerifyWitnessProgram ::
  "valtype list \<Rightarrow> int \<Rightarrow> bytes \<Rightarrow> script_verify_flags \<Rightarrow> BaseSignatureChecker \<Rightarrow> bool \<Rightarrow> unit eval"
where
  "VerifyWitnessProgram witness witversion program flags checker is_p2sh =
     (if witversion = 0 then verify_v0 witness program flags checker
      else if witversion = 1 \<and> length program = WITNESS_V1_TAPROOT_SIZE \<and> \<not> is_p2sh then verify_taproot witness program flags checker
      else if witversion = 2 \<and> length program = 32 \<and> \<not> is_p2sh then verify_v2 witness program checker
      else if witversion = 3 \<and> length program = WITNESS_V3_SIZE \<and> \<not> is_p2sh then verify_v3 witness program flags checker
      else if \<not> is_p2sh \<and> IsPayToAnchor_program witversion program then Inr ()
      else if SCRIPT_VERIFY_DISCOURAGE_UPGRADABLE_WITNESS_PROGRAM \<in> flags then set_error SCRIPT_ERR_DISCOURAGE_UPGRADABLE_WITNESS_PROGRAM
      else Inr ())"

section \<open>VerifyScript\<close>

text \<open>The block for bare witness programs: the stack and \<^verbatim>\<open>hadWitness\<close> afterwards.  \<^verbatim>\<open>resize(1)\<close> keeps the bottom element.\<close>

definition verify_bare_witness ::
  "CScript \<Rightarrow> CScript \<Rightarrow> valtype list \<Rightarrow> script_verify_flags \<Rightarrow> BaseSignatureChecker \<Rightarrow> valtype list \<Rightarrow> (valtype list \<times> bool) eval"
where
  "verify_bare_witness script_sig script_pubkey witness flags checker stk =
     (if SCRIPT_VERIFY_WITNESS \<in> flags
      then case IsWitnessProgram script_pubkey of
             None \<Rightarrow> Inr (stk, False)
           | Some (witnessversion, witnessprogram) \<Rightarrow>
               if length script_sig \<noteq> 0 then set_error SCRIPT_ERR_WITNESS_MALLEATED
               else bindE (VerifyWitnessProgram witness witnessversion witnessprogram flags checker False) (\<lambda>_. Inr ([last stk], True))
      else Inr (stk, False))"

definition verify_p2sh ::
  "CScript \<Rightarrow> CScript \<Rightarrow> valtype list \<Rightarrow> script_verify_flags \<Rightarrow> BaseSignatureChecker \<Rightarrow> valtype list \<Rightarrow> valtype list \<times> bool \<Rightarrow> (valtype list \<times> bool) eval"
where
  "verify_p2sh script_sig script_pubkey witness flags checker stackCopy cur =
     (if SCRIPT_VERIFY_P2SH \<in> flags \<and> IsPayToScriptHash script_pubkey
      then if \<not> IsPushOnly script_sig then set_error SCRIPT_ERR_SIG_PUSHONLY
           else bindE (assertE (stackCopy \<noteq> []))
             (\<lambda>_. let pubKey2 = hd stackCopy in
               bindE (EvalScript (tl stackCopy) pubKey2 flags checker BASE execdata_init)
                 (\<lambda>(stk, ed).
                    if stk = [] then set_error SCRIPT_ERR_EVAL_FALSE
                    else if \<not> CastToBool (hd stk) then set_error SCRIPT_ERR_EVAL_FALSE
                    else if SCRIPT_VERIFY_WITNESS \<in> flags
                    then case IsWitnessProgram pubKey2 of
                           None \<Rightarrow> Inr (stk, snd cur)
                         | Some (witnessversion, witnessprogram) \<Rightarrow>
                             if script_sig \<noteq> push_data [] pubKey2 then set_error SCRIPT_ERR_WITNESS_MALLEATED_P2SH
                             else bindE (VerifyWitnessProgram witness witnessversion witnessprogram flags checker True) (\<lambda>_. Inr ([last stk], True))
                    else Inr (stk, snd cur)))
      else Inr cur)"

definition VerifyScript :: "CScript \<Rightarrow> CScript \<Rightarrow> valtype list \<Rightarrow> script_verify_flags \<Rightarrow> BaseSignatureChecker \<Rightarrow> unit eval" where
  "VerifyScript script_sig script_pubkey witness flags checker =
     (if SCRIPT_VERIFY_SIGPUSHONLY \<in> flags \<and> \<not> IsPushOnly script_sig then set_error SCRIPT_ERR_SIG_PUSHONLY
      else bindE (EvalScript [] script_sig flags checker BASE execdata_init)
        (\<lambda>(stackCopy, ed). bindE (EvalScript stackCopy script_pubkey flags checker BASE execdata_init)
          (\<lambda>(stk, ed).
             if stk = [] then set_error SCRIPT_ERR_EVAL_FALSE
             else if \<not> CastToBool (hd stk) then set_error SCRIPT_ERR_EVAL_FALSE
             else bindE (verify_bare_witness script_sig script_pubkey witness flags checker stk)
               (\<lambda>cur. bindE (verify_p2sh script_sig script_pubkey witness flags checker stackCopy cur)
                 (\<lambda>(stk, hadWitness).
                    bindE (if SCRIPT_VERIFY_CLEANSTACK \<in> flags
                           then bindE (assertE (SCRIPT_VERIFY_P2SH \<in> flags \<and> SCRIPT_VERIFY_WITNESS \<in> flags))
                                  (\<lambda>_. if length stk \<noteq> 1 then set_error SCRIPT_ERR_CLEANSTACK else Inr ())
                           else Inr ())
                      (\<lambda>_. if SCRIPT_VERIFY_WITNESS \<in> flags
                            then bindE (assertE (SCRIPT_VERIFY_P2SH \<in> flags))
                                   (\<lambda>_. if \<not> hadWitness \<and> witness \<noteq> [] then set_error SCRIPT_ERR_WITNESS_UNEXPECTED else Inr ())
                            else Inr ()))))))"

section \<open>Signature operations of witnesses\<close>

definition WitnessSigOps :: "int \<Rightarrow> bytes \<Rightarrow> valtype list \<Rightarrow> int" where
  "WitnessSigOps witversion witprogram witness =
     (if witversion = 0 \<and> length witprogram = WITNESS_V0_KEYHASH_SIZE then 1
      else if witversion = 0 \<and> length witprogram = WITNESS_V0_SCRIPTHASH_SIZE \<and> length witness > 0 then GetSigOpCount (last witness) True
      else if witversion = 2 \<and> length witprogram = 32 then PQ_SIGOPS_COST
      else if witversion = 3 \<and> length witprogram = WITNESS_V3_SIZE then PQ_SIGOPS_COST
      else 0)"

function last_data :: "bytes \<Rightarrow> bytes \<Rightarrow> bytes" where
  "last_data pc data =
     (case GetScriptOp pc of None \<Rightarrow> data | Some (opcode, data', pc') \<Rightarrow> last_data pc' data')"
  by pat_completeness auto
termination
  by (relation "measure (\<lambda>(pc, data). length pc)") (auto dest: GetScriptOp_shorter)

declare last_data.simps [simp del]

definition CountWitnessSigOps :: "CScript \<Rightarrow> CScript \<Rightarrow> valtype list \<Rightarrow> script_verify_flags \<Rightarrow> int eval" where
  "CountWitnessSigOps script_sig script_pubkey witness flags =
     (if SCRIPT_VERIFY_WITNESS \<notin> flags then Inr 0
      else bindE (assertE (SCRIPT_VERIFY_P2SH \<in> flags))
        (\<lambda>_. case IsWitnessProgram script_pubkey of
           Some (witnessversion, witnessprogram) \<Rightarrow> Inr (WitnessSigOps witnessversion witnessprogram witness)
         | None \<Rightarrow>
             if IsPayToScriptHash script_pubkey \<and> IsPushOnly script_sig
             then case IsWitnessProgram (last_data script_sig []) of
                    Some (witnessversion, witnessprogram) \<Rightarrow> Inr (WitnessSigOps witnessversion witnessprogram witness)
                  | None \<Rightarrow> Inr 0
             else Inr 0))"

section \<open>The base class of the checkers\<close>

text \<open>Every virtual member of the base class returns false, and leaves the error that \<^verbatim>\<open>EvalScript\<close> has set.  The calls
  into the curve library are not members of it.\<close>

definition base_checker :: "(bytes \<Rightarrow> bool) \<Rightarrow> (bytes \<Rightarrow> bytes \<Rightarrow> uint256 \<Rightarrow> bool \<Rightarrow> bool) \<Rightarrow> BaseSignatureChecker" where
  "base_checker low_s tweak =
     \<lparr>CheckECDSASignature = (\<lambda>_ _ _ _. False), CheckSchnorrSignature = (\<lambda>_ _ _ _. Inl SCRIPT_ERR_UNKNOWN_ERROR),
      CheckPQSig = (\<lambda>_ _ _ _. False), CheckPQSigV3 = (\<lambda>_ _ _ _. Inl SCRIPT_ERR_UNKNOWN_ERROR),
      CheckSLHSigV3 = (\<lambda>_ _ _ _. Inl SCRIPT_ERR_UNKNOWN_ERROR), CheckDefaultCheckTemplateVerifyHash = (\<lambda>_. False),
      CheckLockTime = (\<lambda>_. False), CheckSequence = (\<lambda>_. False), CheckLowS = low_s, CheckTapTweak = tweak\<rparr>"

end
