(* ===== verification/Script_Softfork.thy ===== *)
theory Script_Softfork
  imports Script_Verify
begin

text \<open>
  The comment on the flags in \<^verbatim>\<open>script/interpreter.h\<close>: every flag is a soft fork, so that whatever is accepted under
  a set of flags is accepted under each of its subsets.  The relation \<open>permits\<close> between results is closed under
  the combinators of the interpreter; one lemma for each definition of the interpreter shows that the result
  under more flags permits the result under fewer.
\<close>

section \<open>Results under more and fewer flags\<close>

named_theorems permits_intros "a result under more flags permits the result under fewer"

text \<open>Where \<open>m\<close> succeeds, \<open>m'\<close> succeeds with the same value.\<close>

definition permits :: "'a eval \<Rightarrow> 'a eval \<Rightarrow> bool" where
  "permits m m' \<longleftrightarrow> (\<forall>x. m = Inr x \<longrightarrow> m' = Inr x)"

lemma permitsD: "permits m m' \<Longrightarrow> m = Inr x \<Longrightarrow> m' = Inr x"
  by (simp add: permits_def)

lemma permits_refl [permits_intros]: "permits m m"
  by (simp add: permits_def)

lemma permits_error [permits_intros]: "permits (set_error e) m" "permits (Inl e') m"
  by (simp_all add: permits_def set_error_def)

lemma permits_bind [permits_intros]:
  "permits m m' \<Longrightarrow> (\<And>x. permits (f x) (f' x)) \<Longrightarrow> permits (bindE m f) (bindE m' f')"
  by (auto simp: permits_def bindE_Inr)

lemma permits_if_error [permits_intros]:
  "(P' \<Longrightarrow> P) \<Longrightarrow> permits m m' \<Longrightarrow> permits (if P then set_error e else m) (if P' then set_error e' else m')"
  by (auto simp: permits_def set_error_def)

lemma permits_if [permits_intros]:
  "(P \<Longrightarrow> permits m m') \<Longrightarrow> (\<not> P \<Longrightarrow> permits n n') \<Longrightarrow> permits (if P then m else n) (if P then m' else n')"
  by simp

lemma permits_skip: "(P' \<Longrightarrow> P) \<Longrightarrow> permits m m' \<Longrightarrow> (\<And>x. m = Inr x \<Longrightarrow> x = y) \<Longrightarrow> permits (if P then m else Inr y) (if P' then m' else Inr y)"
  by (auto simp: permits_def)

lemma permits_case_list [permits_intros]:
  "permits m m' \<Longrightarrow> (\<And>x xs. permits (f x xs) (f' x xs)) \<Longrightarrow> permits (case l of [] \<Rightarrow> m | x # xs \<Rightarrow> f x xs) (case l of [] \<Rightarrow> m' | x # xs \<Rightarrow> f' x xs)"
  by (cases l) auto

lemma permits_case_option [permits_intros]:
  "permits m m' \<Longrightarrow> (\<And>x. permits (f x) (f' x)) \<Longrightarrow> permits (case v of None \<Rightarrow> m | Some x \<Rightarrow> f x) (case v of None \<Rightarrow> m' | Some x \<Rightarrow> f' x)"
  by (cases v) auto

lemma permits_case_prod [permits_intros]:
  "(\<And>x y. permits (f x y) (f' x y)) \<Longrightarrow> permits (case p of (x, y) \<Rightarrow> f x y) (case p of (x, y) \<Rightarrow> f' x y)"
  by (cases p) auto

lemma permits_let [permits_intros]: "(\<And>x. permits (f x) (f' x)) \<Longrightarrow> permits (Let v f) (Let v f')"
  by simp

section \<open>The opcodes\<close>

lemma permits_script_num [permits_intros]: "flags \<subseteq> flags' \<Longrightarrow> permits (script_num flags' vch n) (script_num flags vch n)"
  by (auto simp: permits_def script_num_def CScriptNum_def set_error_def split: if_splits)

lemma permits_CheckSignatureEncoding [permits_intros]:
  "flags \<subseteq> flags' \<Longrightarrow> permits (CheckSignatureEncoding checker sig flags') (CheckSignatureEncoding checker sig flags)"
  unfolding CheckSignatureEncoding_def
  by (intro permits_intros permits_skip) auto

lemma permits_CheckPubKeyEncoding [permits_intros]:
  "flags \<subseteq> flags' \<Longrightarrow> permits (CheckPubKeyEncoding key flags' v) (CheckPubKeyEncoding key flags v)"
  unfolding CheckPubKeyEncoding_def by (intro permits_intros) auto

lemma permits_checksig [permits_intros]:
  assumes "flags \<subseteq> flags'"
  shows "permits (EvalChecksigPreTapscript sig key code flags' checker v) (EvalChecksigPreTapscript sig key code flags checker v)"
    "permits (EvalChecksigTapscript sig key ed flags' checker v) (EvalChecksigTapscript sig key ed flags checker v)"
    "permits (EvalChecksigXcoinV3 sig h key ed flags' checker) (EvalChecksigXcoinV3 sig h key ed flags checker)"
    "permits (EvalChecksigXcoinSLH sig key ed flags' checker v) (EvalChecksigXcoinSLH sig key ed flags checker v)"
  unfolding EvalChecksigPreTapscript_def EvalChecksigTapscript_def EvalChecksigXcoinV3_def EvalChecksigXcoinSLH_def
  using assms by (intro permits_intros; auto)+

lemma permits_EvalChecksig [permits_intros]:
  "flags \<subseteq> flags' \<Longrightarrow> permits (EvalChecksig sig key code ed flags' checker v) (EvalChecksig sig key code ed flags checker v)"
  unfolding EvalChecksig_def by (cases v) (simp_all add: permits_intros)

lemma permits_lock [permits_intros]:
  assumes "flags \<subseteq> flags'"
  shows "permits (op_CHECKLOCKTIMEVERIFY flags' checker st) (op_CHECKLOCKTIMEVERIFY flags checker st)"
    "permits (op_CHECKSEQUENCEVERIFY flags' checker st) (op_CHECKSEQUENCEVERIFY flags checker st)"
  using permitsD [OF permits_script_num [OF assms]] assms
  by (fastforce simp: permits_def op_CHECKLOCKTIMEVERIFY_def op_CHECKSEQUENCEVERIFY_def bindE_Inr set_error_def split: list.splits if_splits)+

lemma permits_nop [permits_intros]:
  assumes "flags \<subseteq> flags'"
  shows "permits (op_NOPn flags' st) (op_NOPn flags st)"
    "permits (op_CHECKTEMPLATEVERIFY flags' checker v st) (op_CHECKTEMPLATEVERIFY flags checker v st)"
    "permits (op_IF flags' v opcode fExec st) (op_IF flags v opcode fExec st)"
  unfolding op_NOPn_def op_CHECKTEMPLATEVERIFY_def op_IF_def using assms by (intro permits_intros; auto)+

lemma permits_num [permits_intros]:
  assumes "flags \<subseteq> flags'"
  shows "permits (op_PICK flags' opcode st) (op_PICK flags opcode st)"
    "permits (op_unary flags' opcode st) (op_unary flags opcode st)"
    "permits (op_binary flags' opcode st) (op_binary flags opcode st)"
    "permits (op_WITHIN flags' st) (op_WITHIN flags st)"
  unfolding op_PICK_def op_unary_def op_binary_def op_WITHIN_def using assms by (intro permits_intros; auto)+

lemma permits_op_checksig [permits_intros]:
  assumes "flags \<subseteq> flags'"
  shows "permits (op_CHECKSIG flags' checker v opcode st) (op_CHECKSIG flags checker v opcode st)"
    "permits (op_CHECKSIGADD flags' checker v st) (op_CHECKSIGADD flags checker v st)"
  unfolding op_CHECKSIG_def op_CHECKSIGADD_def using assms by (intro permits_intros; auto)+

lemma permits_multisig_delete [permits_intros]:
  "flags \<subseteq> flags' \<Longrightarrow> permits (multisig_delete flags' v sigs code) (multisig_delete flags v sigs code)"
  by (induction sigs arbitrary: code) (auto intro!: permits_intros simp: subset_iff split: prod.split)

lemma permits_multisig_loop [permits_intros]:
  "flags \<subseteq> flags' \<Longrightarrow> permits (multisig_loop flags' checker v stk code isig ikey nsigs nkeys) (multisig_loop flags checker v stk code isig ikey nsigs nkeys)"
proof (induction nkeys arbitrary: isig ikey nsigs rule: less_induct)
  case (less nkeys)
  have "permits (multisig_loop flags' checker v stk code i (ikey + 1) n (nkeys - 1)) (multisig_loop flags checker v stk code i (ikey + 1) n (nkeys - 1))"
    if "\<not> int n > int nkeys - 1" for i n
    using less.IH [of "nkeys - 1" i "ikey + 1" n] less.prems that by (cases nkeys) auto
  then show ?case using less.prems
    by (subst multisig_loop.simps, subst multisig_loop.simps [of flags])
      (intro permits_if permits_let permits_bind permits_refl permits_CheckSignatureEncoding permits_CheckPubKeyEncoding;
        simp add: permits_refl)
qed

lemma permits_multisig_cleanup [permits_intros]:
  "flags \<subseteq> flags' \<Longrightarrow> permits (multisig_cleanup flags' ok ikey2 i stk) (multisig_cleanup flags ok ikey2 i stk)"
  by (induction i arbitrary: ikey2 stk) (auto intro!: permits_intros)

lemma permits_CHECKMULTISIG [permits_intros]:
  "flags \<subseteq> flags' \<Longrightarrow> permits (op_CHECKMULTISIG flags' checker v opcode st) (op_CHECKMULTISIG flags checker v opcode st)"
  unfolding op_CHECKMULTISIG_def by (intro permits_intros; auto)

section \<open>The interpreter\<close>

lemma permits_exec_op [permits_intros]:
  "flags \<subseteq> flags' \<Longrightarrow> permits (exec_op flags' checker v opcode fExec pc st) (exec_op flags checker v opcode fExec pc st)"
  unfolding exec_op_def by (intro permits_intros; assumption)

lemma permits_eval_step [permits_intros]:
  "flags \<subseteq> flags' \<Longrightarrow> permits (eval_step flags' checker v pc st) (eval_step flags checker v pc st)"
  unfolding eval_step_def exec_instr_def by (intro permits_intros; auto)

lemma permits_eval_loop [permits_intros]:
  "flags \<subseteq> flags' \<Longrightarrow> permits (eval_loop flags' checker v pc st) (eval_loop flags checker v pc st)"
proof (induction "length pc" arbitrary: pc st rule: less_induct)
  case less
  show ?case
  proof (cases "pc = []")
    case False
    show ?thesis unfolding permits_def
    proof (intro allI impI)
      fix r assume "eval_loop flags' checker v pc st = Inr r"
      then obtain pc' st' where s: "eval_step flags' checker v pc st = Inr (pc', st')" and l: "eval_loop flags' checker v pc' st' = Inr r"
        using False by (subst (asm) eval_loop.simps) (auto simp: bindE_Inr)
      have "eval_loop flags checker v pc' st' = Inr r"
        using permitsD [OF less.hyps [OF eval_step_shorter [OF s] less.prems] l] .
      then show "eval_loop flags checker v pc st = Inr r"
        using False permitsD [OF permits_eval_step [OF less.prems] s] by (subst eval_loop.simps) simp
    qed
  qed (simp add: eval_loop.simps permits_refl)
qed

lemma permits_EvalScript [permits_intros]:
  "flags \<subseteq> flags' \<Longrightarrow> permits (EvalScript stk script flags' checker v ed) (EvalScript stk script flags checker v ed)"
  unfolding EvalScript_def by (intro permits_intros; assumption)

section \<open>Witness programs\<close>

lemma permits_scan_success [permits_intros]:
  "flags \<subseteq> flags' \<Longrightarrow> permits (scan_success flags' pc) (scan_success flags pc)"
proof (induction pc rule: length_induct)
  case (1 pc)
  have "permits (scan_success flags' pc') (scan_success flags pc')" if "GetScriptOp pc = Some (opcode, data, pc')" for opcode data pc'
    using 1 GetScriptOp_shorter [OF that] by blast
  then show ?case using 1(2)
    by (subst scan_success.simps, subst scan_success.simps [of flags])
      (auto intro!: permits_intros split: option.split)
qed

lemma permits_ExecuteWitnessScript [permits_intros]:
  "flags \<subseteq> flags' \<Longrightarrow> permits (ExecuteWitnessScript stk script flags' v checker ed) (ExecuteWitnessScript stk script flags v checker ed)"
  unfolding ExecuteWitnessScript_def by (intro permits_intros; assumption)

lemma permits_verify_v0 [permits_intros]:
  "flags \<subseteq> flags' \<Longrightarrow> permits (verify_v0 stk program flags' checker) (verify_v0 stk program flags checker)"
  unfolding verify_v0_def by (intro permits_intros; assumption)

lemma permits_unless: "(P \<Longrightarrow> P') \<Longrightarrow> permits m (m' :: unit eval) \<Longrightarrow> permits (if P then Inr () else m) (if P' then Inr () else m')"
  by (simp add: permits_def)

lemma permits_verify_leaf [permits_intros]:
  assumes "flags \<subseteq> flags'"
  shows "permits (verify_taproot stk program flags' checker) (verify_taproot stk program flags checker)"
    "permits (verify_v3 stk program flags' checker) (verify_v3 stk program flags checker)"
  unfolding verify_taproot_def verify_v3_def using assms by (intro permits_unless permits_intros; auto)+

lemma permits_VerifyWitnessProgram [permits_intros]:
  "flags \<subseteq> flags' \<Longrightarrow> permits (VerifyWitnessProgram stk ver program flags' checker p2sh) (VerifyWitnessProgram stk ver program flags checker p2sh)"
  unfolding VerifyWitnessProgram_def by (intro permits_intros; auto)

section \<open>VerifyScript\<close>

text \<open>The combinations of flags that the assertions of \<^verbatim>\<open>VerifyScript\<close> ask for.\<close>

definition flags_ok :: "script_verify_flags \<Rightarrow> bool" where
  "flags_ok flags \<longleftrightarrow> (SCRIPT_VERIFY_CLEANSTACK \<in> flags \<longrightarrow> SCRIPT_VERIFY_P2SH \<in> flags \<and> SCRIPT_VERIFY_WITNESS \<in> flags)
     \<and> (SCRIPT_VERIFY_WITNESS \<in> flags \<longrightarrow> SCRIPT_VERIFY_P2SH \<in> flags)"

lemma permits_if_eq:
  "P \<longleftrightarrow> P' \<Longrightarrow> permits m m' \<Longrightarrow> permits n n' \<Longrightarrow> permits (if P then m else n) (if P' then m' else n')"
  by simp

lemma permits_bare_witness:
  "flags \<subseteq> flags' \<Longrightarrow> SCRIPT_VERIFY_WITNESS \<in> flags \<Longrightarrow>
    permits (verify_bare_witness script_sig script_pubkey witness flags' checker stk) (verify_bare_witness script_sig script_pubkey witness flags checker stk)"
  unfolding verify_bare_witness_def
  by (intro permits_if_eq permits_case_option permits_case_prod permits_bind permits_refl permits_VerifyWitnessProgram; auto)

lemma permits_p2sh:
  "flags \<subseteq> flags' \<Longrightarrow> SCRIPT_VERIFY_WITNESS \<in> flags \<Longrightarrow> SCRIPT_VERIFY_P2SH \<in> flags \<Longrightarrow>
    permits (verify_p2sh script_sig script_pubkey witness flags' checker copy cur) (verify_p2sh script_sig script_pubkey witness flags checker copy cur)"
  unfolding verify_p2sh_def
  by (intro permits_if_eq permits_let permits_case_option permits_case_prod permits_bind permits_refl permits_EvalScript
      permits_VerifyWitnessProgram; auto)

text \<open>Without witness evaluation the two blocks accept whatever they accept with it.\<close>

lemma p2sh_without_witness:
  assumes "flags \<subseteq> flags'" "SCRIPT_VERIFY_WITNESS \<notin> flags"
    "verify_p2sh script_sig script_pubkey witness flags' checker copy cur = Inr r"
  shows "\<exists>r'. verify_p2sh script_sig script_pubkey witness flags checker copy cur' = Inr r'"
proof (cases "SCRIPT_VERIFY_P2SH \<in> flags \<and> IsPayToScriptHash script_pubkey")
  case True
  then have "SCRIPT_VERIFY_P2SH \<in> flags'" using assms(1) by blast
  then obtain stk ed where "IsPushOnly script_sig" "copy \<noteq> []" "EvalScript (tl copy) (hd copy) flags' checker BASE execdata_init = Inr (stk, ed)"
    "stk \<noteq> []" "CastToBool (hd stk)"
    using True assms(3) by (auto simp: verify_p2sh_def bindE_Inr assertE_def set_error_def Let_def split: if_splits)
  then show ?thesis using True assms(2) permitsD [OF permits_EvalScript [OF assms(1)]]
    by (auto simp: verify_p2sh_def assertE_def)
qed (auto simp: verify_p2sh_def)

text \<open>C34. Every verification flag is a soft fork: a spend that \<^verbatim>\<open>VerifyScript\<close> accepts under a set of flags it accepts under
  every subset of them in the combinations it allows (\<^verbatim>\<open>WITNESS\<close> with \<^verbatim>\<open>P2SH\<close>, \<^verbatim>\<open>CLEANSTACK\<close> with both).  So enabling a flag, the
  post-quantum rules of witness version 3 included, can only reject spends, for every signature checker.\<close>

theorem script_flags_soft_fork:
  assumes "flags \<subseteq> flags'" "flags_ok flags" "VerifyScript script_sig script_pubkey witness flags' checker = Inr ()"
  shows "VerifyScript script_sig script_pubkey witness flags checker = Inr ()"
proof -
  note ev = permitsD [OF permits_EvalScript [OF assms(1)]]
  obtain copy ed stk ed' cur stk2 had where push: "\<not> (SCRIPT_VERIFY_SIGPUSHONLY \<in> flags' \<and> \<not> IsPushOnly script_sig)"
    and e: "EvalScript [] script_sig flags' checker BASE execdata_init = Inr (copy, ed)"
      "EvalScript copy script_pubkey flags' checker BASE execdata_init = Inr (stk, ed')" "stk \<noteq> []" "CastToBool (hd stk)"
    and b: "verify_bare_witness script_sig script_pubkey witness flags' checker stk = Inr cur"
    and p: "verify_p2sh script_sig script_pubkey witness flags' checker copy cur = Inr (stk2, had)"
    and c: "SCRIPT_VERIFY_CLEANSTACK \<in> flags' \<Longrightarrow> length stk2 = 1"
    and w: "SCRIPT_VERIFY_WITNESS \<in> flags' \<Longrightarrow> had \<or> witness = []"
    using assms(3) unfolding VerifyScript_def
    by (auto simp: bindE_Inr set_error_def assertE_def split: if_splits)
  have push': "\<not> (SCRIPT_VERIFY_SIGPUSHONLY \<in> flags \<and> \<not> IsPushOnly script_sig)" using push assms(1) by blast
  note e' = ev [OF e(1)] ev [OF e(2)]
  show ?thesis
  proof (cases "SCRIPT_VERIFY_WITNESS \<in> flags")
    case True
    then have f: "SCRIPT_VERIFY_P2SH \<in> flags" "SCRIPT_VERIFY_WITNESS \<in> flags'" using assms(1,2) by (auto simp: flags_ok_def)
    have c': "SCRIPT_VERIFY_CLEANSTACK \<in> flags \<Longrightarrow> length stk2 = 1" using c assms(1) by blast
    show ?thesis
      using push' e' e(3,4) permitsD [OF permits_bare_witness [OF assms(1) True] b] permitsD [OF permits_p2sh [OF assms(1) True f(1)] p] w [OF f(2)] c' True f(1)
      by (auto simp: VerifyScript_def assertE_def)
  next
    case False
    then have "SCRIPT_VERIFY_CLEANSTACK \<notin> flags" using assms(2) by (auto simp: flags_ok_def)
    moreover have "verify_bare_witness script_sig script_pubkey witness flags checker stk = Inr (stk, False)"
      using False by (simp add: verify_bare_witness_def)
    moreover obtain r' where "verify_p2sh script_sig script_pubkey witness flags checker copy (stk, False) = Inr r'"
      using p2sh_without_witness [OF assms(1) False p] by blast
    ultimately show ?thesis using push' e' e(3,4) False by (cases r') (auto simp: VerifyScript_def)
  qed
qed

lemma example_eval:
  "EvalScript [] [0x51] flags checker BASE execdata_init = Inr ([[1]], execdata_init\<lparr>m_codeseparator_pos := 0xFFFFFFFF, m_codeseparator_pos_init := True\<rparr>)"
  "EvalScript [[1]] [0x51] flags checker BASE execdata_init = Inr ([[1], [1]], execdata_init\<lparr>m_codeseparator_pos := 0xFFFFFFFF, m_codeseparator_pos_init := True\<rparr>)"
  by (simp_all add: EvalScript_def assertE_def script_limits_def const_defs eval_loop.simps eval_step_def GetScriptOp_def is_disabled_def
      exec_instr_def exec_op_def eval_init_def cond_init_def cond_all_true_def cond_empty_def scriptnum_serialize_def abs_bytes.simps)

theorem script_flags_soft_fork_witness:
  "VerifyScript [0x51] [0x51] [] {SCRIPT_VERIFY_P2SH, SCRIPT_VERIFY_WITNESS, SCRIPT_VERIFY_NULLFAIL} (base_checker (\<lambda>_. False) (\<lambda>_ _ _ _. False)) = Inr ()
   \<and> VerifyScript [0x51] [0x51] [] {SCRIPT_VERIFY_P2SH} (base_checker (\<lambda>_. False) (\<lambda>_ _ _ _. False)) = Inr ()"
proof -
  have "VerifyScript [0x51] [0x51] [] {SCRIPT_VERIFY_P2SH, SCRIPT_VERIFY_WITNESS, SCRIPT_VERIFY_NULLFAIL} (base_checker (\<lambda>_. False) (\<lambda>_ _ _ _. False)) = Inr ()"
    by (simp add: VerifyScript_def example_eval verify_bare_witness_def IsWitnessProgram_def verify_p2sh_def IsPayToScriptHash_def assertE_def)
  then show ?thesis
    using script_flags_soft_fork [of "{SCRIPT_VERIFY_P2SH}" "{SCRIPT_VERIFY_P2SH, SCRIPT_VERIFY_WITNESS, SCRIPT_VERIFY_NULLFAIL}"]
    by (simp add: flags_ok_def)
qed

end
