(* ===== verification/Script_Spend.thy ===== *)
theory Script_Spend
  imports Script_Softfork
begin

unbundle bit_operations_syntax

text \<open>
  What spending each kind of output requires: outputs of witness version 2 need a post-quantum signature, outputs of
  version 3 an opening of the script tree, and an output that \<^verbatim>\<open>IsUnspendable\<close> marks cannot be spent.
\<close>

section \<open>Witness programs as scripts\<close>

lemma eval_version_push:
  assumes "length program = 32" "OP_1 \<le> n" "n \<le> OP_16" "length stk \<le> 998"
  shows "EvalScript stk (of_nat n # 32 # program) flags checker BASE ed =
    Inr (program # scriptnum_serialize (int n - 80) # stk, ed\<lparr>m_codeseparator_pos := 0xFFFFFFFF, m_codeseparator_pos_init := True\<rparr>)"
proof -
  have n: "unat (of_nat n :: byte) = n" using assms(3) by (intro unat_of_nat_fits) simp
  have g: "GetScriptOp (of_nat n # 32 # program) = Some (n, [], 32 # program)" "GetScriptOp (32 # program) = Some (32, program, [])"
    using assms(1,2) by (simp_all add: GetScriptOp_def n)
  have m: "CheckMinimalPush program 32" using assms(1) by (simp add: CheckMinimalPush_def)
  show ?thesis using assms m
    by (simp add: EvalScript_def assertE_def script_limits_def const_defs eval_loop.simps eval_step_def g is_disabled_def
        exec_instr_def exec_op_def eval_init_def cond_init_def cond_all_true_def cond_empty_def)
qed

lemma eval_empty: "EvalScript stk [] flags checker BASE ed =
    Inr (stk, ed\<lparr>m_codeseparator_pos := 0xFFFFFFFF, m_codeseparator_pos_init := True\<rparr>)"
  by (simp add: EvalScript_def assertE_def eval_loop.simps eval_init_def cond_init_def cond_empty_def)

lemma verify_bare_output:
  assumes "IsWitnessProgram sp = Some (v, program)" "EvalScript [] sp flags checker BASE execdata_init = Inr (vch # rest, ed)"
    "{SCRIPT_VERIFY_P2SH, SCRIPT_VERIFY_WITNESS} \<subseteq> flags"
  shows "VerifyScript script_sig sp witness flags checker = Inr () \<longleftrightarrow>
    script_sig = [] \<and> CastToBool vch \<and> VerifyWitnessProgram witness v program flags checker False = Inr ()"
proof (cases "script_sig = []")
  case True
  have only: "IsPushOnly []" by (simp add: IsPushOnly.simps)
  show ?thesis using True assms IsWitnessProgram_not_p2sh [OF assms(1)]
    by (auto simp: VerifyScript_def eval_empty only verify_bare_witness_def verify_p2sh_def assertE_def bindE_Inr set_error_def)
next
  case False
  then have "verify_bare_witness script_sig sp witness flags checker stk = Inl (Script_Err SCRIPT_ERR_WITNESS_MALLEATED)" for stk
    using assms by (simp add: verify_bare_witness_def set_error_def)
  then have "VerifyScript script_sig sp witness flags checker \<noteq> Inr ()"
    by (auto simp: VerifyScript_def bindE_Inr set_error_def split: if_splits)
  then show ?thesis using False by simp
qed

text \<open>An output with a 32-byte program of version 1 to 16 is spent exactly by its witness, with an empty script.\<close>

lemma verify_witness_output:
  assumes "length program = 32" "1 \<le> v" "v \<le> 16" "{SCRIPT_VERIFY_P2SH, SCRIPT_VERIFY_WITNESS} \<subseteq> flags"
  shows "VerifyScript script_sig (of_nat (80 + v) # 32 # program) witness flags checker = Inr () \<longleftrightarrow>
    script_sig = [] \<and> CastToBool program \<and> VerifyWitnessProgram witness (int v) program flags checker False = Inr ()"
proof (rule verify_bare_output [OF _ _ assms(4)])
  show "IsWitnessProgram (of_nat (80 + v) # 32 # program) = Some (int v, program)"
    unfolding IsWitnessProgram_iff using assms by (simp add: EncodeOP_N_def)
  show "EvalScript [] (of_nat (80 + v) # 32 # program) flags checker BASE execdata_init =
    Inr ([program, scriptnum_serialize (int (80 + v) - 80)], execdata_init\<lparr>m_codeseparator_pos := 0xFFFFFFFF, m_codeseparator_pos_init := True\<rparr>)"
    using assms by (intro eval_version_push) simp_all
qed

section \<open>Version 2: a post-quantum signature\<close>

text \<open>C35. An output of witness version 2 can be spent only with a post-quantum signature: \<^verbatim>\<open>VerifyScript\<close> accepts exactly when the
  script is empty and the witness is a signature and a key of 1952 bytes whose SHA-256 is the program, and the checker accepts
  the signature for that key.  (A program that the script language reads as false cannot be spent at all.)  There is no
  other path, whatever the other flags are.\<close>

theorem witness_v2_spend_iff:
  assumes "length program = 32" "{SCRIPT_VERIFY_P2SH, SCRIPT_VERIFY_WITNESS} \<subseteq> flags"
  shows "VerifyScript script_sig (0x52 # 0x20 # program) witness flags checker = Inr () \<longleftrightarrow>
    script_sig = [] \<and> CastToBool program
    \<and> (\<exists>vchSig vchPubKey. witness = [vchSig, vchPubKey] \<and> length vchPubKey = 1952 \<and> sha256 vchPubKey = program
        \<and> CheckPQSig checker vchSig vchPubKey (0x52 # 0x20 # program) WITNESS_V0)"
proof -
  have s: "(0x52 # 0x20 # program :: bytes) = of_nat (80 + 2) # 32 # program" by simp
  have p: "push_data [0x52] program = 0x52 # 0x20 # program"
    using assms(1) by (simp add: push_data_def AppendDataSize_def)
  have "VerifyWitnessProgram witness 2 program flags checker False = Inr () \<longleftrightarrow>
    (\<exists>vchSig vchPubKey. witness = [vchSig, vchPubKey] \<and> length vchPubKey = 1952 \<and> sha256 vchPubKey = program
        \<and> CheckPQSig checker vchSig vchPubKey (0x52 # 0x20 # program) WITNESS_V0)"
    using assms(1) by (cases witness rule: remdups_adj.cases)
      (auto simp: VerifyWitnessProgram_def verify_v2_def const_defs sha256_write p set_error_def Let_def)
  then show ?thesis unfolding s using verify_witness_output [OF assms(1) _ _ assms(2), of 2] by simp
qed

theorem witness_v2_spend_iff_witness:
  "VerifyScript [] (0x52 # 0x20 # replicate 32 1) [[], []] {SCRIPT_VERIFY_P2SH, SCRIPT_VERIFY_WITNESS} (base_checker (\<lambda>_. False) (\<lambda>_ _ _ _. False)) \<noteq> Inr ()"
  using witness_v2_spend_iff [of "replicate 32 1" "{SCRIPT_VERIFY_P2SH, SCRIPT_VERIFY_WITNESS}"] by simp

section \<open>Version 3: an opening of the script tree\<close>

lemma leaf_mask: "TAPROOT_LEAF_MASK = NOT 1"
  unfolding TAPROOT_LEAF_MASK_def by (transfer; simp)

text \<open>An accepted spend of an output of version 3 reveals a leaf whose hash leads along the control block to the program, with the
  fixed marker in place of a key and no parity bit, and a leaf of a known version is executed.\<close>

lemma verify_v3_opening:
  assumes "verify_v3 witness program flags checker = Inr ()" "SCRIPT_VERIFY_XCOIN_V3 \<in> flags"
  obtains items script control annex where
    "witness = items @ [script, control] @ annex" "length annex \<le> 1"
    "33 \<le> length control" "length control \<le> 33 + 32 * 128" "(length control - 33) mod 32 = 0"
    "take 32 (drop 1 control) = XCOIN_V3_NOKEY" "control ! 0 AND 1 = 0"
    "ComputeXcoinV3MerkleRoot control (ComputeXcoinLeafHash (control ! 0) script) = Inr program"
proof -
  obtain stk ed where a: "split_annex witness execdata_init = (stk, ed)" by fastforce
  have w: "\<exists>annex. witness = stk @ annex \<and> length annex \<le> 1"
  proof (cases "length witness \<ge> 2 \<and> last witness \<noteq> [] \<and> hd (last witness) = ANNEX_TAG")
    case True
    then have "witness = stk @ [last witness]" using a by (cases witness rule: rev_cases) (auto simp: split_annex_def)
    then show ?thesis by (metis One_nat_def le_refl length_Cons list.size(3))
  next
    case False
    then have "witness = stk @ []" using a unfolding split_annex_def if_not_P [OF False] by simp
    then show ?thesis by (metis list.size(3) zero_le)
  qed
  have l: "\<not> length stk < 2"
    using assms a by (auto simp: verify_v3_def set_error_def split: if_splits)
  define control script where "control = last stk" and "script = last (butlast stk)"
  have s: "stk = butlast (butlast stk) @ [script, control]"
    using l by (cases stk rule: rev_cases; cases "butlast stk" rule: rev_cases) (auto simp: control_def script_def butlast_append)
  have "control ! 0 AND NOT TAPROOT_LEAF_MASK = 0" and lim: "33 \<le> length control" "length control \<le> 33 + 32 * 128" "(length control - 33) mod 32 = 0"
    and key: "take 32 (drop 1 control) = XCOIN_V3_NOKEY"
    and c: "VerifyXcoinV3Commitment control program (ComputeXcoinLeafHash (control ! 0 AND TAPROOT_LEAF_MASK) script) = Inr True"
    using assms a l by (auto simp: verify_v3_def set_error_def control_def script_def const_defs Let_def bindE_Inr split: if_splits)
  then have b: "control ! 0 AND 1 = 0" unfolding leaf_mask by simp
  have "(control ! 0 AND 1) OR (control ! 0 AND NOT 1) = control ! 0" by (rule bit_eqI) (auto simp: bit_simps)
  then have "control ! 0 AND TAPROOT_LEAF_MASK = control ! 0" unfolding leaf_mask b by simp
  then have "ComputeXcoinV3MerkleRoot control (ComputeXcoinLeafHash (control ! 0) script) = Inr program"
    using c by (auto simp: VerifyXcoinV3Commitment_def bindE_Inr assertE_def split: if_splits)
  moreover obtain annex where "witness = stk @ annex" "length annex \<le> 1" using w by blast
  moreover have "stk @ annex = butlast (butlast stk) @ [script, control] @ annex" by (subst s) simp
  ultimately show thesis using that [of "butlast (butlast stk)" script control annex] lim key b by simp
qed

section \<open>Unspendable outputs\<close>

lemma eval_return:
  assumes "script \<noteq> []" "unat (hd script) = OP_RETURN"
  shows "EvalScript stk script flags checker BASE ed \<noteq> Inr r"
proof -
  have "GetScriptOp script = Some (OP_RETURN, [], tl script)"
    using assms by (simp add: GetScriptOp_def)
  then have "eval_step flags checker BASE script (eval_init stk script ed) \<noteq> Inr x" for x
    by (simp add: eval_step_def const_defs script_limits_def eval_init_def is_disabled_def exec_instr_def exec_op_def
        cond_init_def cond_all_true_def set_error_def)
  then show ?thesis using assms(1)
    by (subst EvalScript_def, subst eval_loop.simps) (auto simp: bindE_Inr set_error_def)
qed

text \<open>C36. An output whose script \<^verbatim>\<open>IsUnspendable\<close> marks, and that is therefore dropped from the set of unspent outputs, cannot be
  spent: \<^verbatim>\<open>VerifyScript\<close> rejects every script, witness, set of flags and checker.\<close>

theorem unspendable_never_spent:
  assumes "IsUnspendable script_pubkey"
  shows "VerifyScript script_sig script_pubkey witness flags checker \<noteq> Inr ()"
proof -
  have "EvalScript stk script_pubkey flags checker BASE ed \<noteq> Inr r" for stk ed r
  proof (cases "length script_pubkey > MAX_SCRIPT_SIZE")
    case True
    then show ?thesis by (simp add: EvalScript_def script_limits_def assertE_def set_error_def)
  next
    case False
    then show ?thesis using assms by (intro eval_return) (auto simp: IsUnspendable_def hd_conv_nth)
  qed
  then show ?thesis by (auto simp: VerifyScript_def bindE_Inr set_error_def)
qed

theorem unspendable_never_spent_witness:
  "VerifyScript [] [0x6a] [] {} (base_checker (\<lambda>_. False) (\<lambda>_ _ _ _. False)) \<noteq> Inr ()"
  using unspendable_never_spent [of "[0x6a]" "[]" "[]" "{}" "base_checker (\<lambda>_. False) (\<lambda>_ _ _ _. False)"]
  by (simp add: IsUnspendable_def)

end
