(* ===== verification/Script_Limits.thy ===== *)
theory Script_Limits
  imports Script_Verify
begin

unbundle bit_operations_syntax

text \<open>
  The limits of an execution.  The loop of \<^verbatim>\<open>EvalScript\<close> is a step relation whose runs also count the bytes that the hash opcodes
  hash and the signature checks that are charged.  Every state of a run keeps the bounds on the elements and on the
  number of opcodes, every state after the first instruction also the bound on the stacks, and in a leaf of the post-quantum script tree the two counts together are paid from the
  validation weight.
\<close>

section \<open>What an operation yields\<close>

named_theorems yields_intros "rules for the value of a successful operation"

definition yields :: "'a eval \<Rightarrow> ('a \<Rightarrow> bool) \<Rightarrow> bool" where
  "yields m Q \<longleftrightarrow> (\<forall>x. m = Inr x \<longrightarrow> Q x)"

lemma yieldsD: "yields m Q \<Longrightarrow> m = Inr x \<Longrightarrow> Q x"
  by (simp add: yields_def)

lemma yields_Inr [yields_intros]: "Q x \<Longrightarrow> yields (Inr x) Q"
  by (simp add: yields_def)

lemma yields_error [yields_intros]: "yields (set_error e) Q" "yields (Inl e') Q"
  by (simp_all add: yields_def set_error_def)

lemma yields_bind [yields_intros]: "(\<And>x. m = Inr x \<Longrightarrow> yields (f x) Q) \<Longrightarrow> yields (bindE m f) Q"
  by (auto simp: yields_def bindE_Inr)

lemma yields_if [yields_intros]: "(P \<Longrightarrow> yields m Q) \<Longrightarrow> (\<not> P \<Longrightarrow> yields n Q) \<Longrightarrow> yields (if P then m else n) Q"
  by simp

lemma yields_let [yields_intros]: "(\<And>x. x = v \<Longrightarrow> yields (f x) Q) \<Longrightarrow> yields (Let v f) Q"
  by simp

lemma yields_case_list [yields_intros]:
  "(l = [] \<Longrightarrow> yields m Q) \<Longrightarrow> (\<And>x xs. l = x # xs \<Longrightarrow> yields (f x xs) Q) \<Longrightarrow> yields (case l of [] \<Rightarrow> m | x # xs \<Rightarrow> f x xs) Q"
  by (cases l) auto

lemma yields_case_option [yields_intros]:
  "(v = None \<Longrightarrow> yields m Q) \<Longrightarrow> (\<And>x. v = Some x \<Longrightarrow> yields (f x) Q) \<Longrightarrow> yields (case v of None \<Rightarrow> m | Some x \<Rightarrow> f x) Q"
  by (cases v) auto

lemma yields_case_prod [yields_intros]:
  "(\<And>x y. p = (x, y) \<Longrightarrow> yields (f x y) Q) \<Longrightarrow> yields (case p of (x, y) \<Rightarrow> f x y) Q"
  by (cases p) auto

section \<open>Elements and opcodes\<close>

text \<open>The elements of both stacks; an operation leaves old elements, or makes new ones of at most 32 bytes.\<close>

definition elems :: "EvalState \<Rightarrow> valtype set" where
  "elems st = set (stack st) \<union> set (altstack st)"

definition keeps :: "EvalState \<Rightarrow> EvalState \<Rightarrow> bool" where
  "keeps st st' \<longleftrightarrow> (\<forall>vch\<in>elems st'. vch \<in> elems st \<or> length vch \<le> 32)
     \<and> (nOpCount st' = nOpCount st \<or> nOpCount st' \<le> MAX_OPS_PER_SCRIPT)"

lemma length_scriptnum: "length (scriptnum_serialize n) \<le> 9"
proof -
  have b: "length (abs_bytes (unat (x :: u64))) \<le> 8" for x
    using unsigned_less [of x, where 'a = nat] by (intro length_abs_bytes) simp
  have c: "length (abs_bytes (unat (x :: u64))) \<le> 9" "length (abs_bytes (unat x)) - 1 \<le> 8" for x
    using b [of x] by linarith+
  show ?thesis using b c by (auto simp: scriptnum_serialize_def Let_def)
qed

lemma length_vchBool: "length (vchBool b) \<le> 32"
  by (simp add: vchBool_def const_defs)

lemma length_hash_vch: "length (hash_vch opcode vch) \<le> 32"
  by (simp add: hash_vch_def sha256_write Hash_eq length_sha256)

lemmas fresh_simps = keeps_def elems_def length_vchBool length_hash_vch order_trans [OF length_scriptnum]

lemma keeps_control [yields_intros]:
  "yields (op_CHECKLOCKTIMEVERIFY flags checker st) (keeps st)"
  "yields (op_CHECKSEQUENCEVERIFY flags checker st) (keeps st)"
  "yields (op_NOPn flags st) (keeps st)"
  "yields (op_CHECKTEMPLATEVERIFY flags checker v st) (keeps st)"
  "yields (op_IF flags v opcode fExec st) (keeps st)"
  "yields (op_ELSE st) (keeps st)" "yields (op_ENDIF st) (keeps st)"
  unfolding op_CHECKLOCKTIMEVERIFY_def op_CHECKSEQUENCEVERIFY_def op_NOPn_def op_CHECKTEMPLATEVERIFY_def op_IF_def op_ELSE_def op_ENDIF_def
  by (intro yields_intros; auto simp: fresh_simps)+

lemma keeps_verify_top: "(\<forall>vch\<in>elems st'. vch \<in> elems st \<or> length vch \<le> 32) \<Longrightarrow> nOpCount st' = nOpCount st \<or> nOpCount st' \<le> MAX_OPS_PER_SCRIPT
    \<Longrightarrow> yields (verify_top b ok e st') (keeps st)"
  unfolding verify_top_def by (intro yields_intros; cases "stack st'"; auto simp: fresh_simps)

lemma stack_op_elems: "stack_op opcode stk = Some stk' \<Longrightarrow> vch \<in> set stk' \<Longrightarrow> vch \<in> set stk \<or> length vch \<le> 32"
  unfolding stack_op_def by (auto simp: fresh_simps split: if_splits list.splits)

lemma keeps_stack [yields_intros]:
  "yields (op_VERIFY st) (keeps st)" "yields (op_TOALTSTACK st) (keeps st)" "yields (op_FROMALTSTACK st) (keeps st)"
  "yields (op_stack opcode st) (keeps st)" "yields (op_EQUAL opcode st) (keeps st)"
  unfolding op_VERIFY_def op_TOALTSTACK_def op_FROMALTSTACK_def op_stack_def op_EQUAL_def
  by (intro yields_intros keeps_verify_top; auto simp: fresh_simps dest: stack_op_elems)+

lemma keeps_PICK [yields_intros]: "yields (op_PICK flags opcode st) (keeps st)"
proof (cases "stack st")
  case (Cons x r)
  have "n < length r \<Longrightarrow> r ! n \<in> set (stack st)" "set (take n r) \<subseteq> set (stack st)" "set (drop n r) \<subseteq> set (stack st)" for n
    using Cons by (auto dest: in_set_takeD in_set_dropD)
  then show ?thesis unfolding op_PICK_def
    by (intro yields_intros; auto simp: fresh_simps Cons nat_less_iff subset_iff split: if_splits)
qed (simp add: op_PICK_def yields_intros)

lemma keeps_num [yields_intros]:
  "yields (op_unary flags opcode st) (keeps st)" "yields (op_binary flags opcode st) (keeps st)" "yields (op_WITHIN flags st) (keeps st)"
  unfolding op_unary_def op_binary_def op_WITHIN_def
  by (intro yields_intros keeps_verify_top; auto simp: fresh_simps)+

lemma keeps_crypto [yields_intros]:
  "yields (op_HASH v opcode st) (keeps st)" "yields (op_CODESEPARATOR pc st) (keeps st)"
  "yields (op_CHECKSIG flags checker v opcode st) (keeps st)" "yields (op_CHECKSIGADD flags checker v st) (keeps st)"
  "yields (op_CHECKSIG_PQ checker v opcode st) (keeps st)"
  unfolding op_HASH_def op_CODESEPARATOR_def op_CHECKSIG_def op_CHECKSIGADD_def op_CHECKSIG_PQ_def
  by (intro yields_intros keeps_verify_top; auto simp: fresh_simps)+

lemma multisig_cleanup_drop: "multisig_cleanup flags ok ikey2 i stk = Inr stk' \<Longrightarrow> stk' = drop i stk"
  by (induction i arbitrary: ikey2 stk) (auto simp: set_error_def drop_Suc split: if_splits)

lemma keeps_CHECKMULTISIG [yields_intros]: "yields (op_CHECKMULTISIG flags checker v opcode st) (keeps st)"
  unfolding op_CHECKMULTISIG_def
  by (intro yields_intros keeps_verify_top; auto simp: fresh_simps dest!: multisig_cleanup_drop in_set_dropD list.set_sel(2) [rotated])

lemma keeps_exec_op: "yields (exec_op flags checker v opcode fExec pc st) (keeps st)"
  unfolding exec_op_def by (intro yields_intros; auto simp: fresh_simps)


section \<open>Validation weight\<close>

abbreviation weight_left :: "EvalState \<Rightarrow> int" where
  "weight_left st \<equiv> m_validation_weight_left (execdata st)"

text \<open>The bytes that an opcode hashes: the top element, and for the double hashes also the 32 bytes of the first digest.  The
  signature checks that an opcode is charged for in a leaf of the script tree.\<close>

definition hashed :: "opcodetype \<Rightarrow> EvalState \<Rightarrow> int" where
  "hashed opcode st =
     (case stack st of
        [] \<Rightarrow> 0
      | vch # _ \<Rightarrow>
          if opcode \<in> {OP_RIPEMD160, OP_SHA1, OP_SHA256} then int (length vch)
          else if opcode \<in> {OP_HASH160, OP_HASH256} then int (length vch) + 32
          else 0)"

lemma hashed_eq:
  "hashed opcode st = (if OP_RIPEMD160 \<le> opcode \<and> opcode \<le> OP_HASH256 \<and> stack st \<noteq> [] then bytes_hashed opcode (hd (stack st)) else 0)"
  by (cases "stack st") (auto simp: hashed_def bytes_hashed_def)

definition sigs_checked :: "opcodetype \<Rightarrow> EvalState \<Rightarrow> int" where
  "sigs_checked opcode st =
     (if opcode = OP_CHECKSIG \<or> opcode = OP_CHECKSIGVERIFY then of_bool (stack st ! 1 \<noteq> [])
      else if opcode = OP_CHECKSIGADD then of_bool (stack st ! 2 \<noteq> [])
      else 0)"

definition sig_weight :: "SigVersion \<Rightarrow> int" where
  "sig_weight v = (if v = XCOIN_PQ_TAPSCRIPT then XCOIN_V3_VALIDATION_WEIGHT_MLDSA else XCOIN_V3_VALIDATION_WEIGHT_SLH)"

definition charges :: "EvalState \<Rightarrow> int \<Rightarrow> EvalState \<Rightarrow> bool" where
  "charges st w st' \<longleftrightarrow> weight_left st' = weight_left st - w \<and> (w = 0 \<or> 0 \<le> weight_left st')"

named_theorems charges_intros "operations that leave the validation weight alone"

lemma charges_zero_verify: "weight_left st' = weight_left st - w \<Longrightarrow> w = 0 \<or> 0 \<le> weight_left st' \<Longrightarrow> yields (verify_top b ok e st') (charges st w)"
  unfolding verify_top_def by (intro yields_intros; simp add: charges_def)

lemma charges_free [charges_intros]:
  "yields (op_CHECKLOCKTIMEVERIFY flags checker st) (charges st 0)"
  "yields (op_CHECKSEQUENCEVERIFY flags checker st) (charges st 0)"
  "yields (op_NOPn flags st) (charges st 0)"
  "yields (op_CHECKTEMPLATEVERIFY flags checker v st) (charges st 0)"
  "yields (op_IF flags v opcode fExec st) (charges st 0)"
  "yields (op_ELSE st) (charges st 0)" "yields (op_ENDIF st) (charges st 0)"
  "yields (op_VERIFY st) (charges st 0)" "yields (op_TOALTSTACK st) (charges st 0)" "yields (op_FROMALTSTACK st) (charges st 0)"
  "yields (op_stack opcode st) (charges st 0)" "yields (op_EQUAL opcode st) (charges st 0)" "yields (op_PICK flags opcode st) (charges st 0)"
  "yields (op_unary flags opcode st) (charges st 0)" "yields (op_binary flags opcode st) (charges st 0)" "yields (op_WITHIN flags st) (charges st 0)"
  "yields (op_CODESEPARATOR pc st) (charges st 0)" "yields (op_CHECKSIG_PQ checker v opcode st) (charges st 0)"
  "yields (op_CHECKMULTISIG flags checker v opcode st) (charges st 0)"
  unfolding op_CHECKLOCKTIMEVERIFY_def op_CHECKSEQUENCEVERIFY_def op_NOPn_def op_CHECKTEMPLATEVERIFY_def op_IF_def op_ELSE_def op_ENDIF_def
    op_VERIFY_def op_TOALTSTACK_def op_FROMALTSTACK_def op_stack_def op_EQUAL_def op_PICK_def op_unary_def op_binary_def op_WITHIN_def
    op_CODESEPARATOR_def op_CHECKSIG_PQ_def op_CHECKMULTISIG_def
  by (intro yields_intros charges_zero_verify; simp add: charges_def)+

lemma charge_weight_yields: "charge_weight w e ed = Inr ed' \<Longrightarrow>
    m_validation_weight_left ed' = m_validation_weight_left ed - w \<and> 0 \<le> m_validation_weight_left ed'"
  by (auto simp: charge_weight_def assertE_def set_error_def Let_def split: if_splits)

lemma checked_yields: "checked r ed = Inr ed' \<Longrightarrow> m_validation_weight_left ed' = m_validation_weight_left ed"
  by (auto simp: checked_def set_error_def split: sum.splits)

lemma charges_HASH:
  "IsXcoinV3Tapscript v \<Longrightarrow> OP_RIPEMD160 \<le> opcode \<Longrightarrow> opcode \<le> OP_HASH256 \<Longrightarrow> yields (op_HASH v opcode st) (charges st (hashed opcode st))"
  unfolding op_HASH_def by (intro yields_intros; auto simp: charges_def hashed_eq const_defs dest!: charge_weight_yields)

lemma charges_checksig_v3:
  "yields (EvalChecksigXcoinV3 sig h key ed flags checker) (\<lambda>(ok, ed'). m_validation_weight_left ed' = m_validation_weight_left ed - sig_weight XCOIN_PQ_TAPSCRIPT * of_bool (sig \<noteq> [])
      \<and> (sig \<noteq> [] \<longrightarrow> 0 \<le> m_validation_weight_left ed'))"
  "yields (EvalChecksigXcoinSLH sig key ed flags checker v) (\<lambda>(ok, ed'). m_validation_weight_left ed' = m_validation_weight_left ed - sig_weight XCOIN_SLH_TAPSCRIPT * of_bool (sig \<noteq> [])
      \<and> (sig \<noteq> [] \<longrightarrow> 0 \<le> m_validation_weight_left ed'))"
  unfolding EvalChecksigXcoinV3_def EvalChecksigXcoinSLH_def
  by (intro yields_intros; auto simp: sig_weight_def split: if_splits dest!: charge_weight_yields checked_yields)+


lemma charges_CHECKSIG:
  assumes "IsXcoinV3Tapscript v" "opcode = OP_CHECKSIG \<or> opcode = OP_CHECKSIGVERIFY"
  shows "yields (op_CHECKSIG flags checker v opcode st) (charges st (sig_weight v * sigs_checked opcode st))"
  using assms unfolding op_CHECKSIG_def EvalChecksig_def
  by (cases v; simp add: IsXcoinV3Tapscript_def)
    (intro yields_intros charges_zero_verify;
      auto simp: sigs_checked_def sig_weight_def dest!: charges_checksig_v3 [THEN yieldsD])+

lemma charges_CHECKSIGADD:
  assumes "IsXcoinV3Tapscript v"
  shows "yields (op_CHECKSIGADD flags checker v st) (charges st (sig_weight v * sigs_checked OP_CHECKSIGADD st))"
  using assms unfolding op_CHECKSIGADD_def EvalChecksig_def
  by (cases v; simp add: IsXcoinV3Tapscript_def)
    (intro yields_intros charges_zero_verify;
      auto simp: sigs_checked_def sig_weight_def charges_def dest!: charges_checksig_v3 [THEN yieldsD])+


definition cost :: "SigVersion \<Rightarrow> opcodetype \<Rightarrow> EvalState \<Rightarrow> int" where
  "cost v opcode st = hashed opcode st + sig_weight v * sigs_checked opcode st"

lemma cost_free: "\<not> (OP_RIPEMD160 \<le> opcode \<and> opcode \<le> OP_HASH256) \<Longrightarrow> opcode \<noteq> OP_CHECKSIG \<Longrightarrow> opcode \<noteq> OP_CHECKSIGVERIFY \<Longrightarrow> opcode \<noteq> OP_CHECKSIGADD
    \<Longrightarrow> cost v opcode st = 0"
  by (auto simp: cost_def hashed_eq sigs_checked_def)

lemma cost_hash: "OP_RIPEMD160 \<le> opcode \<Longrightarrow> opcode \<le> OP_HASH256 \<Longrightarrow> cost v opcode st = hashed opcode st"
  by (auto simp: cost_def sigs_checked_def)

lemma cost_sig: "opcode = OP_CHECKSIG \<or> opcode = OP_CHECKSIGVERIFY \<or> opcode = OP_CHECKSIGADD \<Longrightarrow> cost v opcode st = sig_weight v * sigs_checked opcode st"
  by (auto simp: cost_def hashed_eq)

lemma charges_exec_op:
  assumes v: "IsXcoinV3Tapscript v"
  shows "yields (exec_op flags checker v opcode fExec pc st) (charges st (cost v opcode st))"
proof -
  consider (hash) "OP_RIPEMD160 \<le> opcode" "opcode \<le> OP_HASH256"
    | (sig) "opcode = OP_CHECKSIG \<or> opcode = OP_CHECKSIGVERIFY"
    | (add) "opcode = OP_CHECKSIGADD"
    | (free) "\<not> (OP_RIPEMD160 \<le> opcode \<and> opcode \<le> OP_HASH256)" "opcode \<noteq> OP_CHECKSIG" "opcode \<noteq> OP_CHECKSIGVERIFY" "opcode \<noteq> OP_CHECKSIGADD"
    by blast
  then show ?thesis
  proof cases
    case hash
    then have "exec_op flags checker v opcode fExec pc st = op_HASH v opcode st" by (simp add: exec_op_def)
    then show ?thesis using charges_HASH [OF v hash] cost_hash [OF hash] by simp
  next
    case sig
    then have "exec_op flags checker v opcode fExec pc st = op_CHECKSIG flags checker v opcode st" by (elim disjE) (simp_all add: exec_op_def)
    then show ?thesis using charges_CHECKSIG [OF v sig] cost_sig [of opcode v st] sig by metis
  next
    case add
    then show ?thesis using charges_CHECKSIGADD [OF v] cost_sig [of opcode v st] by (simp add: exec_op_def)
  next
    case free
    have skip: "charges st 0 (st\<lparr>stack := stk\<rparr>)" "charges st 0 st" for stk by (simp_all add: charges_def)
    have "yields (exec_op flags checker v opcode fExec pc st) (charges st 0)"
      unfolding exec_op_def by (intro yields_if yields_Inr yields_error skip charges_intros; use free in blast)
    then show ?thesis by (simp only: cost_free [OF free])
  qed
qed

section \<open>Runs\<close>

definition step_count :: "(opcodetype \<Rightarrow> EvalState \<Rightarrow> int) \<Rightarrow> bytes \<Rightarrow> EvalState \<Rightarrow> int" where
  "step_count f pc st = (case GetScriptOp pc of Some (opcode, _) \<Rightarrow> if cond_all_true (vfExec st) then f opcode st else 0 | None \<Rightarrow> 0)"

text \<open>The states of an execution from \<open>script\<close> and \<open>st0\<close>, with the bytes hashed and the signatures checked so far.\<close>

inductive script_run ::
  "script_verify_flags \<Rightarrow> BaseSignatureChecker \<Rightarrow> SigVersion \<Rightarrow> bytes \<Rightarrow> EvalState \<Rightarrow> bytes \<Rightarrow> EvalState \<Rightarrow> int \<Rightarrow> int \<Rightarrow> bool"
  for flags checker v script st0
where
  run_start: "script_run flags checker v script st0 script st0 0 0"
| run_step: "script_run flags checker v script st0 pc st nhashed nsigs \<Longrightarrow> pc \<noteq> [] \<Longrightarrow> eval_step flags checker v pc st = Inr (pc', st')
    \<Longrightarrow> script_run flags checker v script st0 pc' st' (nhashed + step_count hashed pc st) (nsigs + step_count sigs_checked pc st)"

lemma run_eval: "script_run flags checker v script st0 pc st nhashed nsigs \<Longrightarrow> eval_loop flags checker v script st0 = eval_loop flags checker v pc st"
  by (induction rule: script_run.induct) (auto simp: eval_loop.simps [of flags checker v] bindE_def)

lemma run_extend:
  "eval_loop flags checker v pc st = Inr st' \<Longrightarrow> script_run flags checker v script st0 pc st nhashed nsigs
    \<Longrightarrow> \<exists>h s. script_run flags checker v script st0 [] st' h s"
proof (induction flags checker v pc st arbitrary: nhashed nsigs rule: eval_loop.induct)
  case (1 flags checker v pc st)
  show ?case
  proof (cases "pc = []")
    case True
    with 1(2,3) show ?thesis by (auto simp: eval_loop.simps [of _ _ _ "[]"])
  next
    case False
    with 1(2) obtain q where q: "eval_step flags checker v pc st = Inr q" "eval_loop flags checker v (fst q) (snd q) = Inr st'"
      by (subst (asm) eval_loop.simps) (auto simp: bindE_Inr)
    show ?thesis
      using 1(1) [OF False q(1) _ q(2)] run_step [OF 1(3) False, of "fst q" "snd q"] q(1) by (cases q) auto
  qed
qed

text \<open>The loop succeeds in the states that a run to the end of the script reaches.\<close>

lemma eval_loop_iff_run: "eval_loop flags checker v script st0 = Inr st' \<longleftrightarrow> (\<exists>h s. script_run flags checker v script st0 [] st' h s)"
  using run_extend [OF _ run_start] run_eval [of flags checker v script st0 "[]" st'] by (auto simp: eval_loop.simps [of _ _ _ "[]"])


lemma step_limits:
  assumes "eval_step flags checker v pc st = Inr (pc', st')"
  shows "length (stack st') + length (altstack st') \<le> MAX_STACK_SIZE"
    "vch \<in> elems st' \<Longrightarrow> vch \<in> elems st \<or> length vch \<le> MAX_SCRIPT_ELEMENT_SIZE"
    "nOpCount st' = nOpCount st \<or> nOpCount st' \<le> MAX_OPS_PER_SCRIPT"
proof -
  obtain opcode push st1 st2 where o: "length push \<le> MAX_SCRIPT_ELEMENT_SIZE" "exec_instr flags checker v opcode push pc' st1 = Inr st2"
    "length (stack st2) + length (altstack st2) \<le> MAX_STACK_SIZE" "st' = st2\<lparr>opcode_pos := opcode_pos st2 + 1\<rparr>"
    "elems st1 = elems st" "nOpCount st1 = nOpCount st \<or> nOpCount st1 \<le> MAX_OPS_PER_SCRIPT"
    using assms by (auto simp: eval_step_def set_error_def bindE_Inr Let_def elems_def not_less split: option.splits if_splits)
  have k: "(\<forall>vch\<in>elems st2. vch \<in> elems st1 \<or> length vch \<le> MAX_SCRIPT_ELEMENT_SIZE) \<and> (nOpCount st2 = nOpCount st1 \<or> nOpCount st2 \<le> MAX_OPS_PER_SCRIPT)"
    using o(1,2) yieldsD [OF keeps_exec_op, of flags checker v opcode _ pc' st1 st2]
    by (force simp: exec_instr_def Let_def set_error_def keeps_def elems_def MAX_SCRIPT_ELEMENT_SIZE_def split: if_splits)
  have e: "elems st' = elems st2" using o(4) by (simp add: elems_def)
  show "length (stack st') + length (altstack st') \<le> MAX_STACK_SIZE" using o(3,4) by simp
  show "vch \<in> elems st' \<Longrightarrow> vch \<in> elems st \<or> length vch \<le> MAX_SCRIPT_ELEMENT_SIZE" using k o(5) e by blast
  show "nOpCount st' = nOpCount st \<or> nOpCount st' \<le> MAX_OPS_PER_SCRIPT" using k o(4,6) by auto
qed

lemma step_charges:
  assumes v: "IsXcoinV3Tapscript v" and "eval_step flags checker v pc st = Inr (pc', st')"
  shows "charges st (step_count hashed pc st + sig_weight v * step_count sigs_checked pc st) st'"
proof -
  obtain opcode push st1 st2 where o: "GetScriptOp pc = Some (opcode, push, pc')" "exec_instr flags checker v opcode push pc' st1 = Inr st2"
    "st' = st2\<lparr>opcode_pos := opcode_pos st2 + 1\<rparr>" "vfExec st1 = vfExec st" "cost v opcode st1 = cost v opcode st" "weight_left st1 = weight_left st"
    using assms(2) by (auto simp: eval_step_def set_error_def bindE_Inr Let_def cost_def hashed_eq sigs_checked_def split: option.splits if_splits)
  have z: "opcode \<le> OP_ENDIF \<Longrightarrow> cost v opcode st1 = 0" by (rule cost_free) auto
  have x: "charges st1 (cost v opcode st1) st2" if "exec_op flags checker v opcode fExec pc' st1 = Inr st2" for fExec
    using yieldsD [OF charges_exec_op [OF v] that] .
  have "charges st1 (if cond_all_true (vfExec st1) then cost v opcode st1 else 0) st2"
    using o(2) z by (auto simp: exec_instr_def Let_def set_error_def charges_def dest!: x split: if_splits)
  then show ?thesis using o(1,3-6) by (auto simp: step_count_def cost_def charges_def)
qed

section \<open>The bounds\<close>

text \<open>C37. Resource limits.  In every state that an execution of a script reaches from any initial stack, every element is one of the initial stack
  or at most 520 bytes long, at most 201 counted opcodes have been executed, and after the first instruction the two stacks
  together hold at most 1000 elements.  (The initial stack is the only state that may be larger: it is checked before the execution
  only under the tapscript rules, and a larger one, which a witness of version 0 can bring, must shrink with the first instruction.)\<close>

theorem script_limits_invariant:
  assumes "script_run flags checker v script (eval_init stk script ed) pc st nhashed nsigs"
  shows "(pc = script \<and> st = eval_init stk script ed \<or> length (stack st) + length (altstack st) \<le> 1000)
    \<and> (\<forall>vch\<in>set (stack st) \<union> set (altstack st). vch \<in> set stk \<or> length vch \<le> 520) \<and> nOpCount st \<le> 201"
  using assms
proof (induction rule: script_run.induct)
  case run_start
  then show ?case by (simp add: eval_init_def)
next
  case (run_step pc st nhashed nsigs pc' st')
  then show ?case using step_limits [OF run_step.hyps(3)]
    by (auto simp: elems_def MAX_STACK_SIZE_def MAX_SCRIPT_ELEMENT_SIZE_def MAX_OPS_PER_SCRIPT_def)
qed

lemmas run_simps = eval_loop.simps eval_step_def exec_instr_def exec_op_def eval_init_def GetScriptOp_def is_disabled_def script_limits_def Let_def
  cond_all_true_def cond_init_def NO_FALSE_def IsXcoinV3Tapscript_def bindE_def assertE_def

text \<open>An execution that starts above the limit and drops one element.\<close>

lemma run_drop:
  "\<exists>st h s. script_run {} (base_checker (\<lambda>_. True) (\<lambda>_ _ _ _. True)) WITNESS_V0 [0x75] (eval_init ([] # replicate 1000 []) [0x75] execdata_init) [] st h s
    \<and> stack st = replicate 1000 []"
proof -
  have "\<exists>st. eval_loop {} (base_checker (\<lambda>_. True) (\<lambda>_ _ _ _. True)) WITNESS_V0 [0x75] (eval_init ([] # replicate 1000 []) [0x75] execdata_init) = Inr st
    \<and> stack st = replicate 1000 []"
    by (simp add: run_simps const_defs op_stack_def stack_op_def)
  then show ?thesis by (auto simp: eval_loop_iff_run)
qed

theorem script_limits_invariant_witness:
  "\<exists>st h s. script_run {} (base_checker (\<lambda>_. True) (\<lambda>_ _ _ _. True)) WITNESS_V0 [0x75] (eval_init ([] # replicate 1000 []) [0x75] execdata_init) [] st h s
    \<and> length (stack st) + length (altstack st) \<le> 1000 \<and> nOpCount st \<le> 201"
proof -
  obtain st h s where r: "script_run {} (base_checker (\<lambda>_. True) (\<lambda>_ _ _ _. True)) WITNESS_V0 [0x75] (eval_init ([] # replicate 1000 []) [0x75] execdata_init) [] st h s"
    using run_drop by blast
  show ?thesis using r script_limits_invariant [OF r] by auto
qed

text \<open>C38. The budget of a post-quantum leaf.  In every state that a leaf of witness version 3 reaches, the bytes that the hash opcodes have hashed and
  200 units for each ML-DSA, 1080 units for each SLH-DSA signature check have been paid from the validation weight that the
  witness brought, and what is left is not negative: an input can never hash more bytes than its budget.\<close>

theorem v3_weight_budget:
  assumes "script_run flags checker v script (eval_init stk script ed) pc st nhashed nsigs" "IsXcoinV3Tapscript v"
    "0 \<le> m_validation_weight_left ed"
  shows "0 \<le> nhashed \<and> 0 \<le> nsigs \<and> 0 \<le> m_validation_weight_left (execdata st)
    \<and> nhashed + (if v = XCOIN_PQ_TAPSCRIPT then 200 else 1080) * nsigs + m_validation_weight_left (execdata st) = m_validation_weight_left ed"
  using assms(1)
proof (induction rule: script_run.induct)
  case run_start
  then show ?case using assms(3) by (simp add: eval_init_def)
next
  case (run_step pc st nhashed nsigs pc' st')
  have "0 \<le> step_count hashed pc st" "0 \<le> step_count sigs_checked pc st"
    by (auto simp: step_count_def hashed_eq bytes_hashed_def sigs_checked_def split: option.splits)
  then show ?case using run_step.IH step_charges [OF assms(2) run_step.hyps(3)]
    by (auto simp: charges_def sig_weight_def XCOIN_V3_VALIDATION_WEIGHT_MLDSA_def XCOIN_V3_VALIDATION_WEIGHT_SLH_def algebra_simps)
qed


lemma run_checksig:
  "\<exists>st h s. script_run {} (base_checker (\<lambda>_. True) (\<lambda>_ _ _ _. True)) XCOIN_PQ_TAPSCRIPT [0xac]
      (eval_init [[1], [1], []] [0xac] (execdata_init\<lparr>m_validation_weight_left_init := True, m_validation_weight_left := 250\<rparr>)) [] st h s
    \<and> m_validation_weight_left (execdata st) = 50"
proof -
  have "\<exists>st. eval_loop {} (base_checker (\<lambda>_. True) (\<lambda>_ _ _ _. True)) XCOIN_PQ_TAPSCRIPT [0xac]
      (eval_init [[1], [1], []] [0xac] (execdata_init\<lparr>m_validation_weight_left_init := True, m_validation_weight_left := 250\<rparr>)) = Inr st
    \<and> m_validation_weight_left (execdata st) = 50"
    by (simp add: run_simps const_defs op_CHECKSIG_def EvalChecksigXcoinV3_def charge_weight_def verify_top_def)
  then show ?thesis by (auto simp: eval_loop_iff_run)
qed

theorem v3_weight_budget_witness:
  "\<exists>st h s. script_run {} (base_checker (\<lambda>_. True) (\<lambda>_ _ _ _. True)) XCOIN_PQ_TAPSCRIPT [0xac]
      (eval_init [[1], [1], []] [0xac] (execdata_init\<lparr>m_validation_weight_left_init := True, m_validation_weight_left := 250\<rparr>)) [] st h s
    \<and> h + 200 * s = 200"
proof -
  obtain st h s where r: "script_run {} (base_checker (\<lambda>_. True) (\<lambda>_ _ _ _. True)) XCOIN_PQ_TAPSCRIPT [0xac]
      (eval_init [[1], [1], []] [0xac] (execdata_init\<lparr>m_validation_weight_left_init := True, m_validation_weight_left := 250\<rparr>)) [] st h s"
    and w: "m_validation_weight_left (execdata st) = 50"
    using run_checksig by blast
  have "h + 200 * s = 200" using v3_weight_budget [OF r] w by (simp add: IsXcoinV3Tapscript_def)
  with r show ?thesis by blast
qed

end
