(* ===== verification/Coins.thy ===== *)
theory Coins
  imports Script_Core
begin

text \<open>
  \<^verbatim>\<open>coins.h\<close> and \<^verbatim>\<open>coins.cpp\<close>: the set of unspent outputs as a stack of caches over a database.  A cache keeps entries
  that may be spent, \<open>DIRTY\<close> (to be written to the view below) and \<open>FRESH\<close> (absent in the view below); the theory shows
  that whatever is done to a stack of caches, it behaves as one map from outpoints to coins.  The doubly linked list of
  flagged entries is the list of their keys; the memory accounting is left out.
\<close>

section \<open>Coins\<close>

record Coin =
  coin_out :: CTxOut
  fCoinBase :: bool
  coin_nHeight :: int

text \<open>The height is a field of 31 bits.\<close>

definition mkCoin :: "CTxOut \<Rightarrow> int \<Rightarrow> bool \<Rightarrow> Coin" where
  "mkCoin outIn nHeightIn fCoinBaseIn = \<lparr>coin_out = outIn, fCoinBase = fCoinBaseIn, coin_nHeight = nHeightIn mod 2 ^ 31\<rparr>"

definition coinEmpty :: Coin where
  "coinEmpty = \<lparr>coin_out = CTxOut_null, fCoinBase = False, coin_nHeight = 0\<rparr>"

definition IsSpent :: "Coin \<Rightarrow> bool" where
  "IsSpent c = CTxOut_IsNull (coin_out c)"

lemma IsSpent_coinEmpty [simp]: "IsSpent coinEmpty"
  by (simp add: IsSpent_def coinEmpty_def CTxOut_IsNull_def CTxOut_null_def)

section \<open>Operations on a view\<close>

text \<open>A failed assertion or an exception, or a result with the new state of the view.\<close>

datatype coins_fail = Assertion | Logic_Error | Runtime_Error

type_synonym ('v, 'a) vm = "'v \<Rightarrow> coins_fail + 'a \<times> 'v"

definition returnV :: "'a \<Rightarrow> ('v, 'a) vm" where
  "returnV x v = Inr (x, v)"

definition bindV :: "('v, 'a) vm \<Rightarrow> ('a \<Rightarrow> ('v, 'b) vm) \<Rightarrow> ('v, 'b) vm" where
  "bindV m f v = (case m v of Inl e \<Rightarrow> Inl e | Inr (x, v') \<Rightarrow> f x v')"

lemma bindV_Inr: "bindV m f v = Inr r \<longleftrightarrow> (\<exists>x v'. m v = Inr (x, v') \<and> f x v' = Inr r)"
  by (auto simp: bindV_def split: sum.splits prod.splits)

lemma bindV_eq [simp]: "m v = Inr (x, v') \<Longrightarrow> bindV m f v = f x v'"
  by (simp add: bindV_def)

lemma bindV_cong [fundef_cong]: "m v = m' v' \<Longrightarrow> (\<And>x w. m' v' = Inr (x, w) \<Longrightarrow> f x w = f' x w) \<Longrightarrow> bindV m f v = bindV m' f' v'"
  by (auto simp: bindV_def split: sum.splits)

section \<open>Caches\<close>

record CCoinsCacheEntry =
  coin :: Coin
  IsDirty :: bool
  IsFresh :: bool

record 's CCoinsViewCache =
  base :: 's
  hashBlock :: uint256
  cacheCoins :: "COutPoint \<Rightarrow> CCoinsCacheEntry option"
  m_flagged :: "COutPoint list"
  m_dirty_count :: nat

definition CCoinsViewCache_init :: "'s \<Rightarrow> 's CCoinsViewCache" where
  "CCoinsViewCache_init baseIn =
     \<lparr>base = baseIn, hashBlock = uint256_zero, cacheCoins = (\<lambda>_. None), m_flagged = [], m_dirty_count = 0\<rparr>"

text \<open>An entry with its flags set is appended to the list unless it is already there.\<close>

definition flagged :: "CCoinsCacheEntry option \<Rightarrow> bool" where
  "flagged e = (case e of None \<Rightarrow> False | Some e \<Rightarrow> IsDirty e \<or> IsFresh e)"

definition AddFlags :: "COutPoint \<Rightarrow> CCoinsCacheEntry \<Rightarrow> 's CCoinsViewCache \<Rightarrow> 's CCoinsViewCache" where
  "AddFlags p e c = c\<lparr>cacheCoins := (cacheCoins c)(p := Some e),
     m_flagged := (if flagged (cacheCoins c p) then m_flagged c else m_flagged c @ [p])\<rparr>"

definition erase :: "COutPoint \<Rightarrow> 's CCoinsViewCache \<Rightarrow> 's CCoinsViewCache" where
  "erase p c = c\<lparr>cacheCoins := (cacheCoins c)(p := None), m_flagged := remove1 p (m_flagged c)\<rparr>"

text \<open>\<^verbatim>\<open>TrySub\<close> leaves the counter alone rather than let it wrap.\<close>

definition TrySub :: "nat \<Rightarrow> bool \<Rightarrow> nat" where
  "TrySub n b = (if n < of_bool b then n else n - of_bool b)"

definition on_base :: "('s, 'a) vm \<Rightarrow> ('s CCoinsViewCache, 'a) vm" where
  "on_base m c = (case m (base c) of Inl e \<Rightarrow> Inl e | Inr (x, b) \<Rightarrow> Inr (x, c\<lparr>base := b\<rparr>))"

text \<open>The entry in the cache, after it has been fetched from the view below if need be.\<close>

definition FetchCoin :: "(COutPoint \<Rightarrow> ('s, Coin option) vm) \<Rightarrow> COutPoint \<Rightarrow> ('s CCoinsViewCache, CCoinsCacheEntry option) vm" where
  "FetchCoin get outpoint c =
     (case cacheCoins c outpoint of
        Some e \<Rightarrow> Inr (Some e, c)
      | None \<Rightarrow> bindV (on_base (get outpoint))
          (\<lambda>r c. case r of
             None \<Rightarrow> Inr (None, c)
           | Some x \<Rightarrow> if IsSpent x then Inl Assertion
               else let e = \<lparr>coin = x, IsDirty = False, IsFresh = False\<rparr>
                    in Inr (Some e, c\<lparr>cacheCoins := (cacheCoins c)(outpoint := Some e)\<rparr>)) c)"

definition unspent_coin :: "CCoinsCacheEntry option \<Rightarrow> Coin option" where
  "unspent_coin e = (case e of None \<Rightarrow> None | Some e \<Rightarrow> if IsSpent (coin e) then None else Some (coin e))"

definition GetCoin :: "(COutPoint \<Rightarrow> ('s, Coin option) vm) \<Rightarrow> COutPoint \<Rightarrow> ('s CCoinsViewCache, Coin option) vm" where
  "GetCoin get outpoint = bindV (FetchCoin get outpoint) (\<lambda>e. returnV (unspent_coin e))"

definition HaveCoin :: "(COutPoint \<Rightarrow> ('s, Coin option) vm) \<Rightarrow> COutPoint \<Rightarrow> ('s CCoinsViewCache, bool) vm" where
  "HaveCoin get outpoint = bindV (FetchCoin get outpoint) (\<lambda>e. returnV (unspent_coin e \<noteq> None))"

definition AccessCoin :: "(COutPoint \<Rightarrow> ('s, Coin option) vm) \<Rightarrow> COutPoint \<Rightarrow> ('s CCoinsViewCache, Coin) vm" where
  "AccessCoin get outpoint = bindV (FetchCoin get outpoint) (\<lambda>e. returnV (case e of None \<Rightarrow> coinEmpty | Some e \<Rightarrow> coin e))"

definition HaveCoinInCache :: "COutPoint \<Rightarrow> 's CCoinsViewCache \<Rightarrow> bool" where
  "HaveCoinInCache outpoint c = (unspent_coin (cacheCoins c outpoint) \<noteq> None)"

definition PeekCoin :: "(COutPoint \<Rightarrow> 's \<Rightarrow> Coin option) \<Rightarrow> COutPoint \<Rightarrow> 's CCoinsViewCache \<Rightarrow> Coin option" where
  "PeekCoin peek outpoint c =
     (case cacheCoins c outpoint of Some e \<Rightarrow> unspent_coin (Some e) | None \<Rightarrow> peek outpoint (base c))"

definition AddCoin :: "COutPoint \<Rightarrow> Coin \<Rightarrow> bool \<Rightarrow> ('s CCoinsViewCache, unit) vm" where
  "AddCoin outpoint x possible_overwrite c =
     (if IsSpent x then Inl Assertion
      else if IsUnspendable (scriptPubKey (coin_out x)) then Inr ((), c)
      else let inserted = (cacheCoins c outpoint = None);
               e = (case cacheCoins c outpoint of None \<Rightarrow> \<lparr>coin = coinEmpty, IsDirty = False, IsFresh = False\<rparr> | Some e \<Rightarrow> e) in
        if \<not> possible_overwrite \<and> \<not> IsSpent (coin e) then Inl Logic_Error
        else let fresh = (\<not> possible_overwrite \<and> \<not> IsDirty e);
                 n = (if inserted then m_dirty_count c else TrySub (m_dirty_count c) (IsDirty e))
             in Inr ((), (AddFlags outpoint \<lparr>coin = x, IsDirty = True, IsFresh = IsFresh e \<or> fresh\<rparr> c)\<lparr>m_dirty_count := n + 1\<rparr>))"

text \<open>The result is \<open>None\<close> where the source returns false, and otherwise the coin moved out.\<close>

definition SpendCoin :: "(COutPoint \<Rightarrow> ('s, Coin option) vm) \<Rightarrow> COutPoint \<Rightarrow> ('s CCoinsViewCache, Coin option) vm" where
  "SpendCoin get outpoint = bindV (FetchCoin get outpoint)
     (\<lambda>e c. case e of
        None \<Rightarrow> Inr (None, c)
      | Some e \<Rightarrow>
          let n = TrySub (m_dirty_count c) (IsDirty e) in
          if IsFresh e then Inr (Some (coin e), (erase outpoint c)\<lparr>m_dirty_count := n\<rparr>)
          else Inr (Some (coin e), (AddFlags outpoint (e\<lparr>coin := coinEmpty, IsDirty := True\<rparr>) c)\<lparr>m_dirty_count := n + 1\<rparr>))"

definition GetBestBlock :: "('s, uint256) vm \<Rightarrow> ('s CCoinsViewCache, uint256) vm" where
  "GetBestBlock best c =
     (if uint256_IsNull (hashBlock c) then bindV (on_base best) (\<lambda>h c. Inr (h, c\<lparr>hashBlock := h\<rparr>)) c
      else Inr (hashBlock c, c))"

definition SetBestBlock :: "uint256 \<Rightarrow> 's CCoinsViewCache \<Rightarrow> 's CCoinsViewCache" where
  "SetBestBlock hashBlockIn c = c\<lparr>hashBlock := hashBlockIn\<rparr>"

text \<open>One entry that a cache above writes into this one.\<close>

definition batch_entry :: "COutPoint \<Rightarrow> CCoinsCacheEntry \<Rightarrow> 's CCoinsViewCache \<Rightarrow> coins_fail + 's CCoinsViewCache" where
  "batch_entry p it c =
     (if \<not> IsDirty it then Inr c
      else case cacheCoins c p of
        None \<Rightarrow>
          if IsFresh it \<and> IsSpent (coin it) then Inr c
          else Inr ((AddFlags p \<lparr>coin = coin it, IsDirty = True, IsFresh = IsFresh it\<rparr> c)\<lparr>m_dirty_count := m_dirty_count c + 1\<rparr>)
      | Some us \<Rightarrow>
          if IsFresh it \<and> \<not> IsSpent (coin us) then Inl Logic_Error
          else if IsFresh us \<and> IsSpent (coin it)
          then Inr ((erase p c)\<lparr>m_dirty_count := TrySub (m_dirty_count c) (IsDirty us)\<rparr>)
          else Inr ((AddFlags p (us\<lparr>coin := coin it, IsDirty := True\<rparr>) c)
                      \<lparr>m_dirty_count := (if IsDirty us then m_dirty_count c else m_dirty_count c + 1)\<rparr>))"

fun batch_loop :: "(COutPoint \<times> CCoinsCacheEntry) list \<Rightarrow> 's CCoinsViewCache \<Rightarrow> coins_fail + 's CCoinsViewCache" where
  "batch_loop [] c = Inr c"
| "batch_loop ((p, it) # cursor) c = (case batch_entry p it c of Inl e \<Rightarrow> Inl e | Inr c' \<Rightarrow> batch_loop cursor c')"

definition BatchWrite :: "(COutPoint \<times> CCoinsCacheEntry) list \<Rightarrow> uint256 \<Rightarrow> ('s CCoinsViewCache, unit) vm" where
  "BatchWrite cursor hashBlockIn c =
     (case batch_loop cursor c of Inl e \<Rightarrow> Inl e | Inr c' \<Rightarrow> Inr ((), SetBestBlock hashBlockIn c'))"

text \<open>The cursor over the flagged entries.  Without \<open>will_erase\<close> it erases the spent ones and cleans the others.\<close>

definition cursor_entries :: "'s CCoinsViewCache \<Rightarrow> (COutPoint \<times> CCoinsCacheEntry) list" where
  "cursor_entries c = map (\<lambda>p. (p, the (cacheCoins c p))) (m_flagged c)"

definition NextAndMaybeErase :: "bool \<Rightarrow> COutPoint \<times> CCoinsCacheEntry \<Rightarrow> 's CCoinsViewCache \<Rightarrow> 's CCoinsViewCache" where
  "NextAndMaybeErase will_erase pe c =
     (case pe of (p, e) \<Rightarrow>
        let c = c\<lparr>m_dirty_count := TrySub (m_dirty_count c) (IsDirty e)\<rparr> in
        if will_erase then c
        else if IsSpent (coin e) then erase p c
        else c\<lparr>cacheCoins := (cacheCoins c)(p := Some (e\<lparr>IsDirty := False, IsFresh := False\<rparr>)), m_flagged := remove1 p (m_flagged c)\<rparr>)"

definition Flush :: "((COutPoint \<times> CCoinsCacheEntry) list \<Rightarrow> uint256 \<Rightarrow> ('s, unit) vm) \<Rightarrow> ('s CCoinsViewCache, unit) vm" where
  "Flush write c =
     bindV (on_base (write (cursor_entries c) (hashBlock c)))
       (\<lambda>_ c'. Inr ((), (fold (NextAndMaybeErase True) (cursor_entries c) c')\<lparr>cacheCoins := (\<lambda>_. None), m_flagged := []\<rparr>)) c"

definition Sync :: "((COutPoint \<times> CCoinsCacheEntry) list \<Rightarrow> uint256 \<Rightarrow> ('s, unit) vm) \<Rightarrow> ('s CCoinsViewCache, unit) vm" where
  "Sync write c =
     bindV (on_base (write (cursor_entries c) (hashBlock c)))
       (\<lambda>_ c'. let c' = fold (NextAndMaybeErase False) (cursor_entries c) c'
               in if m_flagged c' \<noteq> [] then Inl Logic_Error else Inr ((), c')) c"

definition Reset :: "'s CCoinsViewCache \<Rightarrow> 's CCoinsViewCache" where
  "Reset c = c\<lparr>cacheCoins := (\<lambda>_. None), m_flagged := [], m_dirty_count := 0, hashBlock := uint256_zero\<rparr>"

definition Uncache :: "COutPoint \<Rightarrow> 's CCoinsViewCache \<Rightarrow> 's CCoinsViewCache" where
  "Uncache p c = (case cacheCoins c p of Some e \<Rightarrow> if \<not> IsDirty e then erase p c else c | None \<Rightarrow> c)"

section \<open>The database\<close>

text \<open>The key-value store below the caches is a map; its writes are atomic.\<close>

record CCoinsViewDB =
  db_coins :: "COutPoint \<Rightarrow> Coin option"
  db_best :: uint256

definition DB_GetCoin :: "COutPoint \<Rightarrow> (CCoinsViewDB, Coin option) vm" where
  "DB_GetCoin outpoint d =
     (case db_coins d outpoint of None \<Rightarrow> Inr (None, d) | Some x \<Rightarrow> if IsSpent x then Inl Assertion else Inr (Some x, d))"

definition DB_GetBestBlock :: "(CCoinsViewDB, uint256) vm" where
  "DB_GetBestBlock d = Inr (db_best d, d)"

definition DB_BatchWrite :: "(COutPoint \<times> CCoinsCacheEntry) list \<Rightarrow> uint256 \<Rightarrow> (CCoinsViewDB, unit) vm" where
  "DB_BatchWrite cursor h d =
     (if uint256_IsNull h then Inl Assertion
      else Inr ((), d\<lparr>db_coins := fold (\<lambda>(p, e) m. if IsDirty e then m(p := (if IsSpent (coin e) then None else Some (coin e))) else m) cursor (db_coins d),
                      db_best := h\<rparr>))"


section \<open>The contract of a view\<close>

text \<open>The map after the entries of a cursor have been written, and the cursors that may be written over a map: distinct
  keys, dirty entries only, no entry marked \<open>FRESH\<close> that the map has, and no spent entry marked so.\<close>

definition overlay :: "(COutPoint \<times> CCoinsCacheEntry) list \<Rightarrow> (COutPoint \<Rightarrow> Coin option) \<Rightarrow> COutPoint \<Rightarrow> Coin option" where
  "overlay cursor m = fold (\<lambda>(p, e) m. m(p := unspent_coin (Some e))) cursor m"

definition cursor_ok :: "(COutPoint \<times> CCoinsCacheEntry) list \<Rightarrow> (COutPoint \<Rightarrow> Coin option) \<Rightarrow> bool" where
  "cursor_ok cursor m \<longleftrightarrow> distinct (map fst cursor)
     \<and> (\<forall>(p, e) \<in> set cursor. IsDirty e \<and> (IsFresh e \<longrightarrow> m p = None \<and> \<not> IsSpent (coin e)))"

lemma overlay_Cons: "overlay ((p, e) # cursor) m = overlay cursor (m(p := unspent_coin (Some e)))"
  by (simp add: overlay_def)

lemma cursor_ok_upd: "p \<notin> fst ` set cursor \<Longrightarrow> cursor_ok cursor (m(p := x)) = cursor_ok cursor m"
proof -
  assume p: "p \<notin> fst ` set cursor"
  have "(m(p := x)) (fst pe) = m (fst pe)" if "pe \<in> set cursor" for pe using p that by auto
  then show ?thesis unfolding cursor_ok_def case_prod_beta by (metis (no_types, lifting))
qed

locale coins_view =
  fixes ok :: "'s \<Rightarrow> bool" and coins :: "'s \<Rightarrow> COutPoint \<Rightarrow> Coin option"
    and get :: "COutPoint \<Rightarrow> ('s, Coin option) vm" and best :: "('s, uint256) vm"
    and write_batch :: "(COutPoint \<times> CCoinsCacheEntry) list \<Rightarrow> uint256 \<Rightarrow> ('s, unit) vm"
  assumes view_unspent: "ok w \<Longrightarrow> coins w p = Some x \<Longrightarrow> \<not> IsSpent x"
    and view_get: "ok w \<Longrightarrow> \<exists>w'. get p w = Inr (coins w p, w') \<and> ok w' \<and> coins w' = coins w"
    and view_best: "ok w \<Longrightarrow> \<exists>h w'. best w = Inr (h, w') \<and> ok w' \<and> coins w' = coins w"
    and view_write: "ok w \<Longrightarrow> cursor_ok cursor (coins w) \<Longrightarrow> \<not> uint256_IsNull h
      \<Longrightarrow> \<exists>w'. write_batch cursor h w = Inr ((), w') \<and> ok w' \<and> coins w' = overlay cursor (coins w)"

text \<open>What a cache over such a view holds, and the states of a cache: the combinations of flags that \<^verbatim>\<open>coins.h\<close> lists as valid, clean
  entries equal to the view below, \<open>FRESH\<close> ones absent there, and the list and the count of the dirty entries.\<close>

definition coins_over :: "('s \<Rightarrow> COutPoint \<Rightarrow> Coin option) \<Rightarrow> 's CCoinsViewCache \<Rightarrow> COutPoint \<Rightarrow> Coin option" where
  "coins_over coins c p = (case cacheCoins c p of Some e \<Rightarrow> unspent_coin (Some e) | None \<Rightarrow> coins (base c) p)"

definition entry_ok :: "Coin option \<Rightarrow> CCoinsCacheEntry \<Rightarrow> bool" where
  "entry_ok below e \<longleftrightarrow> (IsSpent (coin e) \<longrightarrow> IsDirty e \<and> \<not> IsFresh e) \<and> (IsFresh e \<longrightarrow> IsDirty e \<and> below = None)
     \<and> (\<not> IsDirty e \<longrightarrow> below = Some (coin e))"

definition linked :: "'s CCoinsViewCache \<Rightarrow> bool" where
  "linked c \<longleftrightarrow> distinct (m_flagged c) \<and> set (m_flagged c) = {p. flagged (cacheCoins c p)} \<and> m_dirty_count c = length (m_flagged c)"

definition cache_ok :: "('s \<Rightarrow> bool) \<Rightarrow> ('s \<Rightarrow> COutPoint \<Rightarrow> Coin option) \<Rightarrow> 's CCoinsViewCache \<Rightarrow> bool" where
  "cache_ok ok coins c \<longleftrightarrow> ok (base c) \<and> linked c \<and> (\<forall>p e. cacheCoins c p = Some e \<longrightarrow> entry_ok (coins (base c) p) e)"

lemma cache_ok_init: "ok w \<Longrightarrow> cache_ok ok coins (CCoinsViewCache_init w)" "coins_over coins (CCoinsViewCache_init w) = coins w"
  by (auto simp: cache_ok_def linked_def flagged_def CCoinsViewCache_init_def coins_over_def)

lemma AddFlags_fields [simp]:
  "base (AddFlags p e c) = base c" "cacheCoins (AddFlags p e c) = (cacheCoins c)(p := Some e)" "hashBlock (AddFlags p e c) = hashBlock c"
  "base (erase p c) = base c" "cacheCoins (erase p c) = (cacheCoins c)(p := None)" "hashBlock (erase p c) = hashBlock c"
  by (simp_all add: AddFlags_def erase_def)

lemma flagged_iff: "entry_ok below e \<Longrightarrow> flagged (Some e) \<longleftrightarrow> IsDirty e"
  by (auto simp: flagged_def entry_ok_def)

text \<open>Writing a dirty entry or erasing one keeps the list, when the count is updated by the source's arithmetic.\<close>

lemma linked_AddFlags:
  assumes "linked c" "IsDirty e" "n = length (m_flagged c) - of_bool (flagged (cacheCoins c p)) + 1"
  shows "linked ((AddFlags p e c)\<lparr>m_dirty_count := n\<rparr>)"
proof -
  have "flagged (cacheCoins c p) \<Longrightarrow> 0 < length (m_flagged c)" using assms(1) by (auto simp: linked_def)
  then show ?thesis using assms by (auto simp: linked_def AddFlags_def flagged_def split: option.splits if_splits)
qed

lemma linked_erase:
  assumes "linked c" "n = length (m_flagged c) - of_bool (flagged (cacheCoins c p))"
  shows "linked ((erase p c)\<lparr>m_dirty_count := n\<rparr>)"
proof -
  have "distinct (remove1 p (m_flagged c))" "set (remove1 p (m_flagged c)) = set (m_flagged c) - {p}"
    using assms(1) by (auto simp: linked_def)
  then show ?thesis using assms by (auto simp: linked_def erase_def flagged_def length_remove1 split: option.splits)
qed

lemma TrySub_eq: "TrySub n b = n - of_bool b"
  by (simp add: TrySub_def)

lemma linked_count: "linked c \<Longrightarrow> m_dirty_count c = length (m_flagged c)"
  by (simp add: linked_def)

context coins_view
begin

lemma coins_over_unspent: "cache_ok ok coins c \<Longrightarrow> coins_over coins c p = Some x \<Longrightarrow> \<not> IsSpent x"
  using view_unspent by (auto simp: coins_over_def unspent_coin_def cache_ok_def split: option.splits if_splits)

lemma FetchCoin_ok:
  assumes "cache_ok ok coins c"
  obtains c' where "FetchCoin get p c = Inr (cacheCoins c' p, c')" "cache_ok ok coins c'" "coins_over coins c' = coins_over coins c"
    "cacheCoins c' p = None \<Longrightarrow> coins (base c') p = None"
proof (cases "cacheCoins c p")
  case (Some e)
  then show ?thesis using assms that [of c] by (simp add: FetchCoin_def)
next
  case None
  obtain b where b: "get p (base c) = Inr (coins (base c) p, b)" "ok b" "coins b = coins (base c)"
    using assms view_get [of "base c" p] by (auto simp: cache_ok_def)
  show ?thesis
  proof (cases "coins (base c) p")
    case N: None
    let ?c = "c\<lparr>base := b\<rparr>"
    have "cache_ok ok coins ?c" using assms b by (simp add: cache_ok_def linked_def)
    moreover have "coins_over coins ?c = coins_over coins c" using b by (auto simp: coins_over_def fun_eq_iff split: option.splits)
    ultimately show ?thesis using N None b that [of ?c] by (simp add: FetchCoin_def on_base_def bindV_def)
  next
    case (Some x)
    let ?c = "c\<lparr>base := b, cacheCoins := (cacheCoins c)(p := Some \<lparr>coin = x, IsDirty = False, IsFresh = False\<rparr>)\<rparr>"
    have x: "\<not> IsSpent x" using Some assms view_unspent by (auto simp: cache_ok_def)
    have "cache_ok ok coins ?c" using assms b x Some None
      by (auto simp: cache_ok_def linked_def entry_ok_def flagged_def)
    moreover have "coins_over coins ?c = coins_over coins c" using b x Some None
      by (auto simp: coins_over_def unspent_coin_def fun_eq_iff split: option.splits)
    ultimately show ?thesis using Some None b x that [of ?c]
      by (simp add: FetchCoin_def on_base_def bindV_def Let_def)
  qed
qed


lemma readers_ok:
  assumes "cache_ok ok coins c"
  shows "\<exists>c'. GetCoin get p c = Inr (coins_over coins c p, c') \<and> cache_ok ok coins c' \<and> coins_over coins c' = coins_over coins c"
    "\<exists>c'. HaveCoin get p c = Inr (coins_over coins c p \<noteq> None, c') \<and> cache_ok ok coins c' \<and> coins_over coins c' = coins_over coins c"
    "\<exists>x c'. AccessCoin get p c = Inr (x, c') \<and> cache_ok ok coins c' \<and> coins_over coins c' = coins_over coins c
       \<and> (case coins_over coins c p of Some y \<Rightarrow> x = y | None \<Rightarrow> IsSpent x)"
proof -
  obtain c' where c': "FetchCoin get p c = Inr (cacheCoins c' p, c')" "cache_ok ok coins c'" "coins_over coins c' = coins_over coins c"
    "cacheCoins c' p = None \<Longrightarrow> coins (base c') p = None"
    using FetchCoin_ok [OF assms] by metis
  have "coins_over coins c' p = unspent_coin (cacheCoins c' p)"
    using c'(4) by (auto simp: coins_over_def unspent_coin_def split: option.splits)
  then have "coins_over coins c p = unspent_coin (cacheCoins c' p)" by (simp only: c'(3))
  then show "\<exists>c'. GetCoin get p c = Inr (coins_over coins c p, c') \<and> cache_ok ok coins c' \<and> coins_over coins c' = coins_over coins c"
    "\<exists>c'. HaveCoin get p c = Inr (coins_over coins c p \<noteq> None, c') \<and> cache_ok ok coins c' \<and> coins_over coins c' = coins_over coins c"
    "\<exists>x c'. AccessCoin get p c = Inr (x, c') \<and> cache_ok ok coins c' \<and> coins_over coins c' = coins_over coins c
       \<and> (case coins_over coins c p of Some y \<Rightarrow> x = y | None \<Rightarrow> IsSpent x)"
    using c'(1-3) by (auto simp: GetCoin_def HaveCoin_def AccessCoin_def returnV_def unspent_coin_def split: option.splits)
qed

text \<open>A write of one dirty entry, as \<^verbatim>\<open>AddCoin\<close>, \<^verbatim>\<open>SpendCoin\<close> and \<^verbatim>\<open>BatchWrite\<close> make it.\<close>

lemma write_entry:
  assumes "cache_ok ok coins c" "IsDirty e" "IsFresh e \<longrightarrow> coins (base c) p = None \<and> \<not> IsSpent (coin e)"
    "n = m_dirty_count c - of_bool (flagged (cacheCoins c p)) + 1"
  shows "cache_ok ok coins ((AddFlags p e c)\<lparr>m_dirty_count := n\<rparr>)"
    "coins_over coins ((AddFlags p e c)\<lparr>m_dirty_count := n\<rparr>) = (coins_over coins c)(p := unspent_coin (Some e))"
proof -
  have "linked ((AddFlags p e c)\<lparr>m_dirty_count := n\<rparr>)"
    using assms by (intro linked_AddFlags) (auto simp: cache_ok_def linked_count)
  then show "cache_ok ok coins ((AddFlags p e c)\<lparr>m_dirty_count := n\<rparr>)" using assms by (auto simp: cache_ok_def entry_ok_def)
  show "coins_over coins ((AddFlags p e c)\<lparr>m_dirty_count := n\<rparr>) = (coins_over coins c)(p := unspent_coin (Some e))"
    by (auto simp: coins_over_def fun_eq_iff split: option.splits)
qed

lemma erase_entry:
  assumes "cache_ok ok coins c" "coins (base c) p = None"
    "n = m_dirty_count c - of_bool (flagged (cacheCoins c p))"
  shows "cache_ok ok coins ((erase p c)\<lparr>m_dirty_count := n\<rparr>)"
    "coins_over coins ((erase p c)\<lparr>m_dirty_count := n\<rparr>) = (coins_over coins c)(p := None)"
proof -
  have "linked ((erase p c)\<lparr>m_dirty_count := n\<rparr>)"
    using assms by (intro linked_erase) (auto simp: cache_ok_def linked_count)
  then show "cache_ok ok coins ((erase p c)\<lparr>m_dirty_count := n\<rparr>)" using assms by (auto simp: cache_ok_def)
  show "coins_over coins ((erase p c)\<lparr>m_dirty_count := n\<rparr>) = (coins_over coins c)(p := None)"
    using assms(2) by (auto simp: coins_over_def fun_eq_iff split: option.splits)
qed

lemma entry_ok_of: "cache_ok ok coins c \<Longrightarrow> cacheCoins c p = Some e \<Longrightarrow> entry_ok (coins (base c) p) e"
  by (simp add: cache_ok_def)

lemma AddCoin_ok:
  assumes "cache_ok ok coins c" "\<not> IsSpent x" "possible_overwrite \<or> coins_over coins c p = None"
  shows "\<exists>c'. AddCoin p x possible_overwrite c = Inr ((), c') \<and> cache_ok ok coins c'
    \<and> coins_over coins c' = (if IsUnspendable (scriptPubKey (coin_out x)) then coins_over coins c else (coins_over coins c)(p := Some x))"
proof (cases "IsUnspendable (scriptPubKey (coin_out x))")
  case True
  then show ?thesis using assms by (simp add: AddCoin_def)
next
  case unsp: False
  define e where "e = (case cacheCoins c p of None \<Rightarrow> \<lparr>coin = coinEmpty, IsDirty = False, IsFresh = False\<rparr> | Some e \<Rightarrow> e)"
  define e' where "e' = \<lparr>coin = x, IsDirty = True, IsFresh = IsFresh e \<or> \<not> possible_overwrite \<and> \<not> IsDirty e\<rparr>"
  define n where "n = (if cacheCoins c p = None then m_dirty_count c else TrySub (m_dirty_count c) (IsDirty e)) + 1"
  have spent: "possible_overwrite \<or> IsSpent (coin e)"
    using assms(3) by (auto simp: e_def coins_over_def unspent_coin_def split: option.splits if_splits)
  have fresh: "IsFresh e' \<longrightarrow> coins (base c) p = None \<and> \<not> IsSpent (coin e')"
    using assms entry_ok_of [OF assms(1), of p] spent
    by (auto simp: e'_def e_def entry_ok_def coins_over_def split: option.splits)
  have "n = m_dirty_count c - of_bool (flagged (cacheCoins c p)) + 1"
    using entry_ok_of [OF assms(1), of p] by (cases "cacheCoins c p") (auto simp: n_def e_def TrySub_eq entry_ok_def flagged_def)
  note w = write_entry [OF assms(1) _ fresh this]
  have "AddCoin p x possible_overwrite c = Inr ((), (AddFlags p e' c)\<lparr>m_dirty_count := n\<rparr>)"
    using assms(2) unsp spent unfolding AddCoin_def Let_def e_def [symmetric] e'_def n_def by simp
  then show ?thesis using w assms(2) unsp by (simp add: e'_def unspent_coin_def)
qed

lemma SpendCoin_ok:
  assumes "cache_ok ok coins c"
  shows "\<exists>r c'. SpendCoin get p c = Inr (r, c') \<and> cache_ok ok coins c' \<and> coins_over coins c' = (coins_over coins c)(p := None)
    \<and> (case r of None \<Rightarrow> coins_over coins c p = None | Some x \<Rightarrow> coins_over coins c p = (if IsSpent x then None else Some x))"
proof -
  obtain c1 where c1: "FetchCoin get p c = Inr (cacheCoins c1 p, c1)" "cache_ok ok coins c1" "coins_over coins c1 = coins_over coins c"
    "cacheCoins c1 p = None \<Longrightarrow> coins (base c1) p = None"
    using FetchCoin_ok [OF assms] by metis
  show ?thesis
  proof (cases "cacheCoins c1 p")
    case None
    then have "coins_over coins c p = None" using c1 by (metis coins_over_def option.case(1))
    then show ?thesis using c1 None by (auto simp: SpendCoin_def fun_upd_idem)
  next
    case (Some e)
    have eo: "entry_ok (coins (base c1) p) e" using entry_ok_of [OF c1(2) Some] .
    have f: "flagged (cacheCoins c1 p) = IsDirty e" using flagged_iff [OF eo] Some by simp
    have "coins_over coins c1 p = (if IsSpent (coin e) then None else Some (coin e))"
      using Some by (simp add: coins_over_def unspent_coin_def)
    then have v: "coins_over coins c p = (if IsSpent (coin e) then None else Some (coin e))" by (simp only: c1(3))
    show ?thesis
    proof (cases "IsFresh e")
      case True
      then have "coins (base c1) p = None" using eo by (simp add: entry_ok_def)
      from erase_entry [OF c1(2) this refl] show ?thesis using c1(1,3) Some True v f by (simp add: SpendCoin_def TrySub_eq)
    next
      case False
      have "IsDirty (e\<lparr>coin := coinEmpty, IsDirty := True\<rparr>)" "IsFresh (e\<lparr>coin := coinEmpty, IsDirty := True\<rparr>) \<longrightarrow> coins (base c1) p = None \<and> \<not> IsSpent (coin (e\<lparr>coin := coinEmpty, IsDirty := True\<rparr>))"
        using False by simp_all
      from write_entry [OF c1(2) this refl] show ?thesis using c1(1,3) Some False v f
        by (simp add: SpendCoin_def TrySub_eq unspent_coin_def Let_def)
    qed
  qed
qed


lemma batch_entry_ok:
  assumes "cache_ok ok coins c" "IsDirty it" "IsFresh it \<longrightarrow> coins_over coins c p = None \<and> \<not> IsSpent (coin it)"
  shows "\<exists>c'. batch_entry p it c = Inr c' \<and> cache_ok ok coins c' \<and> coins_over coins c' = (coins_over coins c)(p := unspent_coin (Some it))"
proof (cases "cacheCoins c p")
  case None
  then have "IsFresh it \<longrightarrow> coins (base c) p = None \<and> \<not> IsSpent (coin it)" using assms(3) by (simp add: coins_over_def)
  then show ?thesis using write_entry [OF assms(1), of "\<lparr>coin = coin it, IsDirty = True, IsFresh = IsFresh it\<rparr>" p "m_dirty_count c + 1"] None assms(2)
    by (auto simp: batch_entry_def flagged_def unspent_coin_def)
next
  case (Some us)
  have eo: "entry_ok (coins (base c) p) us" using entry_ok_of [OF assms(1) Some] .
  have f: "flagged (cacheCoins c p) = IsDirty us" using flagged_iff [OF eo] Some by simp
  have v: "coins_over coins c p = unspent_coin (Some us)" using Some by (simp add: coins_over_def)
  have nofresh: "\<not> (IsFresh it \<and> \<not> IsSpent (coin us))" using v assms(3) by (auto simp: unspent_coin_def split: if_splits)
  show ?thesis
  proof (cases "IsFresh us \<and> IsSpent (coin it)")
    case True
    then have "coins (base c) p = None" using eo by (simp add: entry_ok_def)
    from erase_entry [OF assms(1) this refl] show ?thesis using Some True f assms(2) nofresh
      by (simp add: batch_entry_def TrySub_eq unspent_coin_def)
  next
    case False
    have pos: "IsDirty us \<Longrightarrow> 0 < m_dirty_count c" using assms(1) f by (auto simp: cache_ok_def linked_def)
    have "IsFresh us \<longrightarrow> coins (base c) p = None \<and> \<not> IsSpent (coin it)" using False eo by (simp add: entry_ok_def)
    then show ?thesis
      using write_entry [OF assms(1), of "us\<lparr>coin := coin it, IsDirty := True\<rparr>" p "if IsDirty us then m_dirty_count c else m_dirty_count c + 1"]
        Some False f assms(2) nofresh pos
      by (auto simp: batch_entry_def unspent_coin_def)
  qed
qed

lemma batch_loop_ok:
  "cache_ok ok coins c \<Longrightarrow> cursor_ok cursor (coins_over coins c)
    \<Longrightarrow> \<exists>c'. batch_loop cursor c = Inr c' \<and> cache_ok ok coins c' \<and> coins_over coins c' = overlay cursor (coins_over coins c)"
proof (induction cursor arbitrary: c)
  case Nil
  then show ?case by (simp add: overlay_def)
next
  case (Cons pe cursor)
  obtain p it where pe: "pe = (p, it)" by (cases pe)
  obtain c1 where c1: "batch_entry p it c = Inr c1" "cache_ok ok coins c1" "coins_over coins c1 = (coins_over coins c)(p := unspent_coin (Some it))"
    using batch_entry_ok [OF Cons.prems(1), of it p] Cons.prems(2) by (auto simp: cursor_ok_def pe)
  have "cursor_ok cursor (coins_over coins c1)"
    using Cons.prems(2) cursor_ok_upd [of p cursor "coins_over coins c"] unfolding c1(3) by (auto simp: cursor_ok_def pe)
  from Cons.IH [OF c1(2) this] show ?case using c1(1) by (simp add: pe overlay_Cons flip: c1(3))
qed

lemma SetBestBlock_ok: "cache_ok ok coins (SetBestBlock h c) = cache_ok ok coins c" "coins_over coins (SetBestBlock h c) = coins_over coins c"
  by (simp_all add: SetBestBlock_def cache_ok_def linked_def coins_over_def fun_eq_iff cong: option.case_cong)

lemma BatchWrite_ok:
  assumes "cache_ok ok coins c" "cursor_ok cursor (coins_over coins c)"
  shows "\<exists>c'. BatchWrite cursor h c = Inr ((), c') \<and> cache_ok ok coins c' \<and> coins_over coins c' = overlay cursor (coins_over coins c)"
  using batch_loop_ok [OF assms] by (auto simp: BatchWrite_def SetBestBlock_ok)

lemma base_change:
  assumes "cache_ok ok coins c" "ok b" "coins b = coins (base c)"
  shows "cache_ok ok coins (c\<lparr>base := b\<rparr>)" "coins_over coins (c\<lparr>base := b\<rparr>) = coins_over coins c"
  using assms by (auto simp: cache_ok_def linked_def coins_over_def fun_eq_iff split: option.splits)

lemma GetBestBlock_ok:
  assumes "cache_ok ok coins c"
  shows "\<exists>h c'. GetBestBlock best c = Inr (h, c') \<and> cache_ok ok coins c' \<and> coins_over coins c' = coins_over coins c"
proof (cases "uint256_IsNull (hashBlock c)")
  case True
  obtain h b where b: "best (base c) = Inr (h, b)" "ok b" "coins b = coins (base c)"
    using view_best [of "base c"] assms by (auto simp: cache_ok_def)
  have "GetBestBlock best c = Inr (h, SetBestBlock h (c\<lparr>base := b\<rparr>))"
    using True b by (simp add: GetBestBlock_def on_base_def bindV_def SetBestBlock_def)
  then show ?thesis using base_change [OF assms b(2,3)] by (auto simp: SetBestBlock_ok)
next
  case False
  then show ?thesis using assms by (simp add: GetBestBlock_def)
qed

lemma Uncache_ok:
  assumes "cache_ok ok coins c"
  shows "cache_ok ok coins (Uncache p c)" "coins_over coins (Uncache p c) = coins_over coins c"
proof -
  have "cache_ok ok coins (Uncache p c) \<and> coins_over coins (Uncache p c) = coins_over coins c"
  proof (cases "\<exists>e. cacheCoins c p = Some e \<and> \<not> IsDirty e")
    case True
    then obtain e where e: "cacheCoins c p = Some e" "\<not> IsDirty e" by blast
    have eo: "entry_ok (coins (base c) p) e" using entry_ok_of [OF assms e(1)] .
    have "\<not> flagged (cacheCoins c p)" using eo e by (auto simp: flagged_def entry_ok_def)
    then have "p \<notin> set (m_flagged c)" using assms by (auto simp: cache_ok_def linked_def)
    then have l: "linked (erase p c)" using assms
      by (auto simp: cache_ok_def linked_def erase_def remove1_idem flagged_def split: option.splits)
    have "coins_over coins (erase p c) = coins_over coins c"
      using eo e by (auto simp: coins_over_def fun_eq_iff entry_ok_def unspent_coin_def split: option.splits)
    then show ?thesis using l e assms by (simp add: Uncache_def cache_ok_def)
  next
    case False
    then show ?thesis using assms by (auto simp: Uncache_def split: option.splits)
  qed
  then show "cache_ok ok coins (Uncache p c)" "coins_over coins (Uncache p c) = coins_over coins c" by auto
qed

end

section \<open>Writing a cache to the view below\<close>

lemma overlay_apply: "distinct ps \<Longrightarrow> overlay (map (\<lambda>p. (p, E p)) ps) m q = (if q \<in> set ps then unspent_coin (Some (E q)) else m q)"
  unfolding overlay_def by (induction ps arbitrary: m) auto

lemma erase_fold:
  assumes "\<forall>p\<in>set ps. IsDirty (E p)" "m_dirty_count c = length ps + n"
  shows "fold (NextAndMaybeErase True) (map (\<lambda>p. (p, E p)) ps) c = c\<lparr>m_dirty_count := n\<rparr>"
  using assms by (induction ps arbitrary: c) (auto simp: NextAndMaybeErase_def TrySub_eq Let_def)

lemma sync_fold:
  assumes "distinct ps" "m_flagged c = ps" "m_dirty_count c = length ps" "\<forall>p\<in>set ps. IsDirty (E p)"
  shows "fold (NextAndMaybeErase False) (map (\<lambda>p. (p, E p)) ps) c =
    c\<lparr>m_flagged := [], m_dirty_count := 0, cacheCoins := (\<lambda>q. if q \<in> set ps then
        (if IsSpent (coin (E q)) then None else Some (E q\<lparr>IsDirty := False, IsFresh := False\<rparr>)) else cacheCoins c q)\<rparr>"
  using assms
proof (induction ps arbitrary: c)
  case Nil
  then show ?case by (cases c) simp
next
  case (Cons p ps)
  let ?c = "NextAndMaybeErase False (p, E p) c"
  have c: "m_flagged ?c = ps" "m_dirty_count ?c = length ps" "base ?c = base c" "hashBlock ?c = hashBlock c"
    "cacheCoins ?c = (cacheCoins c)(p := (if IsSpent (coin (E p)) then None else Some (E p\<lparr>IsDirty := False, IsFresh := False\<rparr>)))"
    using Cons.prems by (auto simp: NextAndMaybeErase_def TrySub_eq Let_def erase_def)
  have "fold (NextAndMaybeErase False) (map (\<lambda>p. (p, E p)) ps) ?c = ?c\<lparr>m_flagged := [], m_dirty_count := 0, cacheCoins := (\<lambda>q. if q \<in> set ps then
        (if IsSpent (coin (E q)) then None else Some (E q\<lparr>IsDirty := False, IsFresh := False\<rparr>)) else cacheCoins ?c q)\<rparr>"
    using Cons c by (intro Cons.IH) auto
  also have "\<dots> = c\<lparr>m_flagged := [], m_dirty_count := 0, cacheCoins := (\<lambda>q. if q \<in> set (p # ps) then
        (if IsSpent (coin (E q)) then None else Some (E q\<lparr>IsDirty := False, IsFresh := False\<rparr>)) else cacheCoins c q)\<rparr>"
    using c by (cases c; cases ?c) (auto simp: fun_eq_iff)
  finally show ?case by simp
qed


context coins_view
begin

lemma cursor_entries_ok:
  assumes "cache_ok ok coins c"
  shows "cursor_ok (cursor_entries c) (coins (base c))" "overlay (cursor_entries c) (coins (base c)) = coins_over coins c"
    "\<forall>p\<in>set (m_flagged c). IsDirty (the (cacheCoins c p))"
proof -
  have l: "distinct (m_flagged c)" "set (m_flagged c) = {p. flagged (cacheCoins c p)}" using assms by (auto simp: cache_ok_def linked_def)
  have e: "entry_ok (coins (base c) p) (the (cacheCoins c p))" "IsDirty (the (cacheCoins c p))" if "p \<in> set (m_flagged c)" for p
    using that l(2) entry_ok_of [OF assms, of p] by (auto simp: flagged_def entry_ok_def split: option.splits)
  show "cursor_ok (cursor_entries c) (coins (base c))" using l(1) e by (auto simp: cursor_ok_def cursor_entries_def entry_ok_def comp_def)
  show "\<forall>p\<in>set (m_flagged c). IsDirty (the (cacheCoins c p))" using e by blast
  show "overlay (cursor_entries c) (coins (base c)) = coins_over coins c"
  proof
    fix q
    show "overlay (cursor_entries c) (coins (base c)) q = coins_over coins c q"
      using entry_ok_of [OF assms, of q] l(2)
      by (auto simp: cursor_entries_def overlay_apply [OF l(1)] coins_over_def flagged_def entry_ok_def unspent_coin_def split: option.splits)
  qed
qed

lemma write_down:
  assumes "cache_ok ok coins c" "\<not> uint256_IsNull (hashBlock c)"
  obtains b where "on_base (write_batch (cursor_entries c) (hashBlock c)) c = Inr ((), c\<lparr>base := b\<rparr>)" "ok b" "coins b = coins_over coins c"
  using view_write [of "base c" "cursor_entries c" "hashBlock c"] assms cursor_entries_ok [OF assms(1)]
  by (auto simp: on_base_def cache_ok_def)

lemma Flush_ok:
  assumes "cache_ok ok coins c" "\<not> uint256_IsNull (hashBlock c)"
  shows "\<exists>c'. Flush write_batch c = Inr ((), c') \<and> cache_ok ok coins c' \<and> coins_over coins c' = coins_over coins c"
proof -
  obtain b where b: "on_base (write_batch (cursor_entries c) (hashBlock c)) c = Inr ((), c\<lparr>base := b\<rparr>)" "ok b" "coins b = coins_over coins c"
    using write_down [OF assms] .
  let ?c = "c\<lparr>base := b, cacheCoins := (\<lambda>_. None), m_flagged := [], m_dirty_count := 0\<rparr>"
  have "fold (NextAndMaybeErase True) (cursor_entries c) (c\<lparr>base := b\<rparr>) = c\<lparr>base := b, m_dirty_count := 0\<rparr>"
    using erase_fold [of "m_flagged c" "\<lambda>p. the (cacheCoins c p)" "c\<lparr>base := b\<rparr>" 0] cursor_entries_ok(3) [OF assms(1)] assms(1)
    by (auto simp: cursor_entries_def cache_ok_def linked_def)
  then have "Flush write_batch c = Inr ((), ?c)" using b(1) by (simp add: Flush_def)
  moreover have "cache_ok ok coins ?c" using b(2) by (simp add: cache_ok_def linked_def flagged_def)
  moreover have "coins_over coins ?c = coins_over coins c" using b(3) by (auto simp: coins_over_def fun_eq_iff)
  ultimately show ?thesis by blast
qed

lemma Sync_ok:
  assumes "cache_ok ok coins c" "\<not> uint256_IsNull (hashBlock c)"
  shows "\<exists>c'. Sync write_batch c = Inr ((), c') \<and> cache_ok ok coins c' \<and> coins_over coins c' = coins_over coins c"
proof -
  obtain b where b: "on_base (write_batch (cursor_entries c) (hashBlock c)) c = Inr ((), c\<lparr>base := b\<rparr>)" "ok b" "coins b = coins_over coins c"
    using write_down [OF assms] .
  define E where "E = (\<lambda>q. if q \<in> set (m_flagged c) then
        (if IsSpent (coin (the (cacheCoins c q))) then None else Some (the (cacheCoins c q)\<lparr>IsDirty := False, IsFresh := False\<rparr>)) else cacheCoins c q)"
  let ?c = "c\<lparr>base := b, m_flagged := [], m_dirty_count := 0, cacheCoins := E\<rparr>"
  have l: "set (m_flagged c) = {p. flagged (cacheCoins c p)}" using assms(1) by (simp add: cache_ok_def linked_def)
  have "fold (NextAndMaybeErase False) (cursor_entries c) (c\<lparr>base := b\<rparr>) = ?c"
    using sync_fold [of "m_flagged c" "c\<lparr>base := b\<rparr>" "\<lambda>p. the (cacheCoins c p)"] cursor_entries_ok(3) [OF assms(1)] assms(1)
    by (simp add: E_def cursor_entries_def cache_ok_def linked_def cong: if_cong)
  then have sy: "Sync write_batch c = Inr ((), ?c)" using b(1) by (simp add: Sync_def Let_def)
  have e: "E q = Some e \<Longrightarrow> \<not> IsDirty e \<and> \<not> IsFresh e \<and> \<not> IsSpent (coin e) \<and> coins_over coins c q = Some (coin e)"
    "E q = None \<Longrightarrow> cacheCoins c q \<noteq> None \<Longrightarrow> coins_over coins c q = None" for q e
    using entry_ok_of [OF assms(1), of q] l
    by (auto simp: E_def coins_over_def unspent_coin_def entry_ok_def flagged_def split: if_splits option.splits)
  have "\<not> flagged (E q)" "E q = Some x \<Longrightarrow> entry_ok (coins b q) x" for q x
    using e(1) [of q] b(3) by (auto simp: flagged_def entry_ok_def split: option.splits)
  then have "cache_ok ok coins ?c" using b(2) by (simp add: cache_ok_def linked_def)
  moreover have "coins_over coins ?c q = coins_over coins c q" for q
    using e [of q] b(3) by (auto simp: coins_over_def unspent_coin_def split: option.splits)
  ultimately show ?thesis using sy by (auto simp: fun_eq_iff)
qed

text \<open>A cache over a view is a view.\<close>

lemma cache_view: "coins_view (cache_ok ok coins) (coins_over coins) (GetCoin get) (GetBestBlock best) BatchWrite"
  using coins_over_unspent readers_ok(1) GetBestBlock_ok BatchWrite_ok by unfold_locales blast+

end

definition db_ok :: "CCoinsViewDB \<Rightarrow> bool" where
  "db_ok d \<longleftrightarrow> (\<forall>p x. db_coins d p = Some x \<longrightarrow> \<not> IsSpent x)"

lemma db_write: "cursor_ok cursor m \<Longrightarrow>
    fold (\<lambda>(p, e) m. if IsDirty e then m(p := (if IsSpent (coin e) then None else Some (coin e))) else m) cursor m = overlay cursor m"
  unfolding overlay_def by (rule fold_cong) (auto simp: cursor_ok_def unspent_coin_def fun_eq_iff)

lemma overlay_unspent: "\<forall>p x. m p = Some x \<longrightarrow> \<not> IsSpent x \<Longrightarrow> overlay cursor m p = Some x \<Longrightarrow> \<not> IsSpent x"
proof (induction cursor arbitrary: m)
  case Nil
  then show ?case by (simp add: overlay_def)
next
  case (Cons pe cursor)
  obtain q e where pe: "pe = (q, e)" by (cases pe)
  have "\<forall>p x. (m(q := unspent_coin (Some e))) p = Some x \<longrightarrow> \<not> IsSpent x"
    using Cons.prems(1) by (simp add: unspent_coin_def)
  from Cons.IH [of "m(q := unspent_coin (Some e))", OF this] show ?case using Cons.prems(2) unfolding pe overlay_Cons by blast
qed

interpretation db: coins_view db_ok db_coins DB_GetCoin DB_GetBestBlock DB_BatchWrite
proof
  fix d :: CCoinsViewDB and p x cursor h
  show "db_ok d \<Longrightarrow> db_coins d p = Some x \<Longrightarrow> \<not> IsSpent x" by (simp add: db_ok_def)
  show "db_ok d \<Longrightarrow> \<exists>w'. DB_GetCoin p d = Inr (db_coins d p, w') \<and> db_ok w' \<and> db_coins w' = db_coins d"
    by (auto simp: DB_GetCoin_def db_ok_def split: option.splits)
  show "db_ok d \<Longrightarrow> \<exists>h w'. DB_GetBestBlock d = Inr (h, w') \<and> db_ok w' \<and> db_coins w' = db_coins d"
    by (simp add: DB_GetBestBlock_def)
  assume "db_ok d" "cursor_ok cursor (db_coins d)" "\<not> uint256_IsNull h"
  moreover from this have "db_ok (d\<lparr>db_coins := overlay cursor (db_coins d), db_best := h\<rparr>)"
    by (auto simp: db_ok_def dest: overlay_unspent [rotated])
  ultimately show "\<exists>w'. DB_BatchWrite cursor h d = Inr ((), w') \<and> db_ok w' \<and> db_coins w' = overlay cursor (db_coins d)"
    by (auto simp: DB_BatchWrite_def db_write)
qed

interpretation tip: coins_view "cache_ok db_ok db_coins" "coins_over db_coins" "GetCoin DB_GetCoin" "GetBestBlock DB_GetBestBlock" BatchWrite
  by (rule db.cache_view)

interpretation block_view: coins_view "cache_ok (cache_ok db_ok db_coins) (coins_over db_coins)" "coins_over (coins_over db_coins)"
    "GetCoin (GetCoin DB_GetCoin)" "GetBestBlock (GetBestBlock DB_GetBestBlock)" BatchWrite
  by (rule tip.cache_view)


section \<open>Sequences of operations\<close>

text \<open>What the node does to a view over the cache of the tip over the database, and the same on one map.\<close>

type_synonym block_coins = "CCoinsViewDB CCoinsViewCache CCoinsViewCache"

datatype coins_op = Op_Get COutPoint | Op_Have COutPoint | Op_Add COutPoint Coin bool | Op_Spend COutPoint | Op_Uncache COutPoint
  | Op_Sync uint256 | Op_Flush uint256 | Op_Flush_Tip uint256

datatype coins_out = Out_Coin "Coin option" | Out_Bool bool | Out_Unit

fun view_op :: "coins_op \<Rightarrow> (block_coins, coins_out) vm" where
  "view_op (Op_Get p) = bindV (GetCoin (GetCoin DB_GetCoin) p) (\<lambda>r. returnV (Out_Coin r))"
| "view_op (Op_Have p) = bindV (HaveCoin (GetCoin DB_GetCoin) p) (\<lambda>r. returnV (Out_Bool r))"
| "view_op (Op_Add p x possible_overwrite) = bindV (AddCoin p x possible_overwrite) (\<lambda>_. returnV Out_Unit)"
| "view_op (Op_Spend p) = bindV (SpendCoin (GetCoin DB_GetCoin) p)
     (\<lambda>r. returnV (Out_Coin (case r of Some x \<Rightarrow> if IsSpent x then None else Some x | None \<Rightarrow> None)))"
| "view_op (Op_Uncache p) = (\<lambda>c. Inr (Out_Unit, Uncache p c))"
| "view_op (Op_Sync h) = (\<lambda>c. bindV (Sync BatchWrite) (\<lambda>_. returnV Out_Unit) (SetBestBlock h c))"
| "view_op (Op_Flush h) = (\<lambda>c. bindV (Flush BatchWrite) (\<lambda>_. returnV Out_Unit) (SetBestBlock h c))"
| "view_op (Op_Flush_Tip h) = bindV (on_base (\<lambda>b. Flush DB_BatchWrite (SetBestBlock h b))) (\<lambda>_. returnV Out_Unit)"

fun view_run :: "coins_op list \<Rightarrow> (block_coins, coins_out list) vm" where
  "view_run [] = returnV []"
| "view_run (a # as) = bindV (view_op a) (\<lambda>out. bindV (view_run as) (\<lambda>outs. returnV (out # outs)))"

fun map_op :: "coins_op \<Rightarrow> (COutPoint \<Rightarrow> Coin option) \<Rightarrow> coins_out \<times> (COutPoint \<Rightarrow> Coin option)" where
  "map_op (Op_Get p) m = (Out_Coin (m p), m)"
| "map_op (Op_Have p) m = (Out_Bool (m p \<noteq> None), m)"
| "map_op (Op_Add p x _) m = (Out_Unit, if IsUnspendable (scriptPubKey (coin_out x)) then m else m(p := Some x))"
| "map_op (Op_Spend p) m = (Out_Coin (m p), m(p := None))"
| "map_op _ m = (Out_Unit, m)"

fun map_run :: "coins_op list \<Rightarrow> (COutPoint \<Rightarrow> Coin option) \<Rightarrow> coins_out list \<times> (COutPoint \<Rightarrow> Coin option)" where
  "map_run [] m = ([], m)"
| "map_run (a # as) m = (case map_op a m of (out, m') \<Rightarrow> case map_run as m' of (outs, m'') \<Rightarrow> (out # outs, m''))"

text \<open>What the comments of \<^verbatim>\<open>coins.h\<close> ask of a caller: only unspent coins are added, without the overwrite flag only where no coin is,
  and a view is written under the hash of a block.\<close>

fun op_legal :: "coins_op \<Rightarrow> (COutPoint \<Rightarrow> Coin option) \<Rightarrow> bool" where
  "op_legal (Op_Add p x possible_overwrite) m = (\<not> IsSpent x \<and> (possible_overwrite \<or> m p = None))"
| "op_legal (Op_Sync h) m = (\<not> uint256_IsNull h)"
| "op_legal (Op_Flush h) m = (\<not> uint256_IsNull h)"
| "op_legal (Op_Flush_Tip h) m = (\<not> uint256_IsNull h)"
| "op_legal _ m = True"

fun ops_legal :: "coins_op list \<Rightarrow> (COutPoint \<Rightarrow> Coin option) \<Rightarrow> bool" where
  "ops_legal [] m = True"
| "ops_legal (a # as) m = (op_legal a m \<and> ops_legal as (snd (map_op a m)))"

abbreviation block_coins_ok :: "block_coins \<Rightarrow> bool" where
  "block_coins_ok \<equiv> cache_ok (cache_ok db_ok db_coins) (coins_over db_coins)"

abbreviation block_coins_of :: "block_coins \<Rightarrow> COutPoint \<Rightarrow> Coin option" where
  "block_coins_of \<equiv> coins_over (coins_over db_coins)"

lemma hashBlock_SetBestBlock [simp]: "hashBlock (SetBestBlock h c) = h"
  by (simp add: SetBestBlock_def)

lemma Flush_Tip_ok:
  assumes "block_coins_ok c" "\<not> uint256_IsNull h"
  shows "\<exists>c'. on_base (\<lambda>b. Flush DB_BatchWrite (SetBestBlock h b)) c = Inr ((), c') \<and> block_coins_ok c' \<and> block_coins_of c' = block_coins_of c"
proof -
  have "cache_ok db_ok db_coins (SetBestBlock h (base c))" using assms(1) by (simp add: cache_ok_def [of "cache_ok _ _"] db.SetBestBlock_ok)
  from db.Flush_ok [OF this] assms(2) obtain b where "Flush DB_BatchWrite (SetBestBlock h (base c)) = Inr ((), b)" "cache_ok db_ok db_coins b"
    "coins_over db_coins b = coins_over db_coins (base c)"
    by (auto simp: db.SetBestBlock_ok)
  then show ?thesis using tip.base_change [OF assms(1), of b] by (auto simp: on_base_def)
qed

lemma view_op_ok:
  assumes "block_coins_ok c" "op_legal a (block_coins_of c)"
  shows "\<exists>c'. view_op a c = Inr (fst (map_op a (block_coins_of c)), c') \<and> block_coins_ok c' \<and> block_coins_of c' = snd (map_op a (block_coins_of c))"
proof (cases a)
  case (Op_Get p)
  then show ?thesis using tip.readers_ok(1) [OF assms(1), of p] by (auto simp: returnV_def)
next
  case (Op_Have p)
  then show ?thesis using tip.readers_ok(2) [OF assms(1), of p] by (auto simp: returnV_def)
next
  case (Op_Add p x b)
  then show ?thesis using tip.AddCoin_ok [OF assms(1), of x b p] assms(2) by (auto simp: returnV_def)
next
  case (Op_Spend p)
  then show ?thesis using tip.SpendCoin_ok [OF assms(1), of p] by (auto simp: returnV_def split: option.splits)
next
  case (Op_Uncache p)
  then show ?thesis using tip.Uncache_ok [OF assms(1), of p] by simp
next
  case (Op_Sync h)
  then show ?thesis using tip.Sync_ok [of "SetBestBlock h c"] assms by (auto simp: returnV_def tip.SetBestBlock_ok)
next
  case (Op_Flush h)
  then show ?thesis using tip.Flush_ok [of "SetBestBlock h c"] assms by (auto simp: returnV_def tip.SetBestBlock_ok)
next
  case (Op_Flush_Tip h)
  then show ?thesis using Flush_Tip_ok [OF assms(1), of h] assms(2) by (auto simp: returnV_def)
qed

lemma view_run_ok:
  "block_coins_ok c \<Longrightarrow> ops_legal as (block_coins_of c)
    \<Longrightarrow> \<exists>c'. view_run as c = Inr (fst (map_run as (block_coins_of c)), c') \<and> block_coins_ok c' \<and> block_coins_of c' = snd (map_run as (block_coins_of c))"
proof (induction as arbitrary: c)
  case Nil
  then show ?case by (simp add: returnV_def)
next
  case (Cons a as)
  obtain c1 where c1: "view_op a c = Inr (fst (map_op a (block_coins_of c)), c1)" "block_coins_ok c1"
    "block_coins_of c1 = snd (map_op a (block_coins_of c))"
    using view_op_ok [OF Cons.prems(1), of a] Cons.prems(2) by auto
  obtain c2 where "view_run as c1 = Inr (fst (map_run as (block_coins_of c1)), c2)" "block_coins_ok c2"
    "block_coins_of c2 = snd (map_run as (block_coins_of c1))"
    using Cons.IH [OF c1(2)] Cons.prems(2) c1(3) by auto
  then show ?case using c1 by (auto simp: returnV_def case_prod_beta)
qed

lemma PeekCoin_coins_over: "(\<And>p b. peek p b = coins b p) \<Longrightarrow> PeekCoin peek p c = coins_over coins c p"
  by (auto simp: PeekCoin_def coins_over_def split: option.splits)

text \<open>C39. The coin caches are transparent.  Whatever sequence of reads, additions, spends, evictions, writes to the cache of the tip and
  writes of that cache to the database is made through a view, if the callers keep the rules of \<^verbatim>\<open>coins.h\<close> no exception is
  thrown, every result is the one that a single map from outpoints to coins gives, and so is what the view shows afterwards.\<close>

theorem coins_cache_refines_map:
  assumes "\<forall>p x. db_coins d p = Some x \<longrightarrow> \<not> IsSpent x" "ops_legal as (db_coins d)"
  shows "\<exists>outs c. view_run as (CCoinsViewCache_init (CCoinsViewCache_init d)) = Inr (outs, c)
    \<and> map_run as (db_coins d) = (outs, \<lambda>p. PeekCoin (PeekCoin (\<lambda>p d. db_coins d p)) p c)"
proof -
  let ?c = "CCoinsViewCache_init (CCoinsViewCache_init d)"
  have "block_coins_ok ?c" "block_coins_of ?c = db_coins d"
    using assms(1) by (simp_all add: cache_ok_init db_ok_def)
  from view_run_ok [OF this(1), of as] this(2) assms(2) obtain c where
    "view_run as ?c = Inr (fst (map_run as (db_coins d)), c)" "block_coins_of c = snd (map_run as (db_coins d))" by auto
  moreover have "PeekCoin (PeekCoin (\<lambda>p d. db_coins d p)) p c = block_coins_of c p" for p
    by (intro PeekCoin_coins_over) simp
  ultimately show ?thesis by (auto simp: prod_eq_iff fun_eq_iff)
qed


lemma nonnull_ones: "\<not> uint256_IsNull (replicate 32 1)"
  by (simp add: uint256_IsNull_def list_all_iff)

theorem coins_cache_refines_map_witness:
  "\<exists>outs c. view_run [Op_Add \<lparr>op_hash = replicate 32 1, op_n = 0\<rparr> (mkCoin \<lparr>nValue = 5, scriptPubKey = [0x51]\<rparr> 7 False) False,
        Op_Flush (replicate 32 1), Op_Spend \<lparr>op_hash = replicate 32 1, op_n = 0\<rparr>, Op_Flush_Tip (replicate 32 1), Op_Have \<lparr>op_hash = replicate 32 1, op_n = 0\<rparr>]
      (CCoinsViewCache_init (CCoinsViewCache_init \<lparr>db_coins = (\<lambda>_. None), db_best = uint256_zero\<rparr>)) = Inr (outs, c)
    \<and> outs = [Out_Unit, Out_Unit, Out_Coin (Some (mkCoin \<lparr>nValue = 5, scriptPubKey = [0x51]\<rparr> 7 False)), Out_Unit, Out_Bool False]"
  using coins_cache_refines_map [of "\<lparr>db_coins = (\<lambda>_. None), db_best = uint256_zero\<rparr>"
      "[Op_Add \<lparr>op_hash = replicate 32 1, op_n = 0\<rparr> (mkCoin \<lparr>nValue = 5, scriptPubKey = [0x51]\<rparr> 7 False) False,
        Op_Flush (replicate 32 1), Op_Spend \<lparr>op_hash = replicate 32 1, op_n = 0\<rparr>, Op_Flush_Tip (replicate 32 1), Op_Have \<lparr>op_hash = replicate 32 1, op_n = 0\<rparr>]"]
  by (auto simp: mkCoin_def IsSpent_def CTxOut_IsNull_def nonnull_ones IsUnspendable_def MAX_SCRIPT_SIZE_def simp del: view_run.simps)

end
