(* ===== verification/Tx_Rules.thy ===== *)
theory Tx_Rules
  imports Coins Script_Verify Levy Block_Chain
begin

unbundle bit_operations_syntax

text \<open>
  The rules for one transaction: \<^verbatim>\<open>consensus/tx_check.cpp\<close> (context-free), and \<^verbatim>\<open>consensus/tx_verify.cpp\<close> (lock times, signature
  operations, inputs and fee, settlement levy).  Functions that look at coins are operations on the cache they are given.  The transactions that the context-free check accepts are characterised.
\<close>

section \<open>Results\<close>

datatype TxValidationResult = TX_RESULT_UNSET | TX_CONSENSUS | TX_INPUTS_NOT_STANDARD | TX_NOT_STANDARD | TX_MISSING_INPUTS | TX_PREMATURE_SPEND
  | TX_WITNESS_MUTATED | TX_WITNESS_STRIPPED | TX_CONFLICT | TX_MEMPOOL_POLICY | TX_NO_MEMPOOL | TX_RECONSIDERABLE | TX_UNKNOWN

type_synonym tx_reject = "TxValidationResult \<times> string"

definition bindR :: "'e + 'a \<Rightarrow> ('a \<Rightarrow> 'e + 'b) \<Rightarrow> 'e + 'b" where
  "bindR m f = (case m of Inl e \<Rightarrow> Inl e | Inr x \<Rightarrow> f x)"

lemma bindR_Inr: "bindR m f = Inr y \<longleftrightarrow> (\<exists>x. m = Inr x \<and> f x = Inr y)"
  by (auto simp: bindR_def split: sum.splits)

lemma bindR_simps [simp]: "bindR (Inl e) f = Inl e" "bindR (Inr x) f = f x"
  by (simp_all add: bindR_def)

section \<open>Context-free checks\<close>

fun check_values :: "CAmount \<Rightarrow> CTxOut list \<Rightarrow> tx_reject + unit" where
  "check_values nValueOut [] = Inr ()"
| "check_values nValueOut (txout # outs) =
     (if nValue txout < 0 then Inl (TX_CONSENSUS, ''bad-txns-vout-negative'')
      else if nValue txout > MAX_MONEY then Inl (TX_CONSENSUS, ''bad-txns-vout-toolarge'')
      else if \<not> MoneyRange (nValueOut + nValue txout) then Inl (TX_CONSENSUS, ''bad-txns-txouttotal-toolarge'')
      else check_values (nValueOut + nValue txout) outs)"

definition allowed :: "bool \<Rightarrow> TxoutType \<Rightarrow> bool" where
  "allowed permit_v2_outputs whichType \<longleftrightarrow>
     whichType = WITNESS_V3_PQ \<or> whichType = NULL_DATA \<or> permit_v2_outputs \<and> whichType = WITNESS_V2_PQ"

text \<open>The accumulators are \<open>spendable_outputs\<close>, \<open>below_floor\<close> and \<open>zero_value\<close>.\<close>

fun check_outputs :: "bool \<Rightarrow> CAmount \<Rightarrow> CTxOut list \<Rightarrow> nat \<times> bool \<times> bool \<Rightarrow> tx_reject + nat \<times> bool \<times> bool" where
  "check_outputs permit_v2_outputs min_output_value [] acc = Inr acc"
| "check_outputs permit_v2_outputs min_output_value (txout # outs) (spendable_outputs, below_floor, zero_value) =
     (let whichType = fst (Solver (scriptPubKey txout)) in
      if \<not> allowed permit_v2_outputs whichType then Inl (TX_CONSENSUS, ''bad-txout-not-pq'')
      else check_outputs permit_v2_outputs min_output_value outs
             (if whichType = NULL_DATA then (spendable_outputs, below_floor, zero_value)
              else (spendable_outputs + 1, below_floor \<or> nValue txout < min_output_value, zero_value \<or> nValue txout < 1)))"

fun check_duplicates :: "COutPoint set \<Rightarrow> CTxIn list \<Rightarrow> tx_reject + unit" where
  "check_duplicates vInOutPoints [] = Inr ()"
| "check_duplicates vInOutPoints (txin # ins) =
     (if prevout txin \<in> vInOutPoints then Inl (TX_CONSENSUS, ''bad-txns-inputs-duplicate'')
      else check_duplicates (insert (prevout txin) vInOutPoints) ins)"

definition CheckTransaction :: "CTransaction \<Rightarrow> bool \<Rightarrow> CAmount \<Rightarrow> tx_reject + unit" where
  "CheckTransaction tx permit_v2_outputs min_output_value =
     (if vin tx = [] then Inl (TX_CONSENSUS, ''bad-txns-vin-empty'')
      else if vout tx = [] then Inl (TX_CONSENSUS, ''bad-txns-vout-empty'')
      else if int (length (SerializeTransaction False tx)) * WITNESS_SCALE_FACTOR > MAX_BLOCK_WEIGHT then Inl (TX_CONSENSUS, ''bad-txns-oversize'')
      else bindR (check_values 0 (vout tx)) (\<lambda>_.
        bindR (check_outputs permit_v2_outputs min_output_value (vout tx) (0, False, False)) (\<lambda>(spendable_outputs, below_floor, zero_value).
          if min_output_value > 0 \<and> below_floor \<and> \<not> (IsCoinBase tx \<and> spendable_outputs = 1 \<and> \<not> zero_value)
          then Inl (TX_CONSENSUS, ''bad-txout-below-min'')
          else bindR (check_duplicates {} (vin tx)) (\<lambda>_.
            if IsCoinBase tx
            then if length (scriptSig (vin tx ! 0)) < 2 \<or> length (scriptSig (vin tx ! 0)) > 100 then Inl (TX_CONSENSUS, ''bad-cb-length'') else Inr ()
            else if list_ex (\<lambda>txin. COutPoint_IsNull (prevout txin)) (vin tx) then Inl (TX_CONSENSUS, ''bad-txns-prevout-null'')
            else Inr ()))))"

section \<open>Lock times\<close>

definition IsFinalTx :: "CTransaction \<Rightarrow> int \<Rightarrow> int \<Rightarrow> bool" where
  "IsFinalTx tx nBlockHeight nBlockTime =
     (if nLockTime tx = 0 then True
      else if uint (nLockTime tx) < (if uint (nLockTime tx) < uint LOCKTIME_THRESHOLD then nBlockHeight else nBlockTime) then True
      else list_all (\<lambda>txin. nSequence txin = SEQUENCE_FINAL) (vin tx))"

text \<open>The block is given by its hash in the index; a missing ancestor is a failed assertion.  The result carries the new \<open>prevHeights\<close>.\<close>

fun sequence_loop :: "BlockMap \<Rightarrow> uint256 \<Rightarrow> CTxIn list \<Rightarrow> int list \<Rightarrow> int \<times> int \<Rightarrow> coins_fail + (int \<times> int) \<times> int list" where
  "sequence_loop t block (txin # ins) (nCoinHeight # heights) (nMinHeight, nMinTime) =
     (if nSequence txin AND SEQUENCE_LOCKTIME_DISABLE_FLAG \<noteq> 0
      then bindR (sequence_loop t block ins heights (nMinHeight, nMinTime)) (\<lambda>(r, hs). Inr (r, 0 # hs))
      else let v = uint (nSequence txin AND SEQUENCE_LOCKTIME_MASK) in
        if nSequence txin AND SEQUENCE_LOCKTIME_TYPE_FLAG \<noteq> 0
        then case GetAncestor t block (max (nCoinHeight - 1) 0) of
               None \<Rightarrow> Inl Assertion
             | Some q \<Rightarrow> let nCoinTime = GetMedianTimePast t q in
                 bindR (sequence_loop t block ins heights (nMinHeight, max nMinTime (nCoinTime + v * 2 ^ SEQUENCE_LOCKTIME_GRANULARITY - 1)))
                   (\<lambda>(r, hs). Inr (r, nCoinHeight # hs))
        else bindR (sequence_loop t block ins heights (max nMinHeight (nCoinHeight + v - 1), nMinTime)) (\<lambda>(r, hs). Inr (r, nCoinHeight # hs)))"
| "sequence_loop t block _ heights acc = Inr (acc, heights)"

definition CalculateSequenceLocks :: "CTransaction \<Rightarrow> u32 \<Rightarrow> int list \<Rightarrow> BlockMap \<Rightarrow> uint256 \<Rightarrow> coins_fail + (int \<times> int) \<times> int list" where
  "CalculateSequenceLocks tx flags prevHeights t block =
     (if length prevHeights \<noteq> length (vin tx) then Inl Assertion
      else if \<not> (version tx \<ge> 2 \<and> flags AND LOCKTIME_VERIFY_SEQUENCE \<noteq> 0) then Inr ((- 1, - 1), prevHeights)
      else sequence_loop t block (vin tx) prevHeights (- 1, - 1))"

definition EvaluateSequenceLocks :: "BlockMap \<Rightarrow> uint256 \<Rightarrow> int \<times> int \<Rightarrow> coins_fail + bool" where
  "EvaluateSequenceLocks t block lockPair =
     (case t block of
        None \<Rightarrow> Inl Assertion
      | Some b \<Rightarrow> case pprev b of
          None \<Rightarrow> Inl Assertion
        | Some q \<Rightarrow> Inr (\<not> (fst lockPair \<ge> nHeight b \<or> snd lockPair \<ge> GetMedianTimePast t q)))"

definition SequenceLocks :: "CTransaction \<Rightarrow> u32 \<Rightarrow> int list \<Rightarrow> BlockMap \<Rightarrow> uint256 \<Rightarrow> coins_fail + bool" where
  "SequenceLocks tx flags prevHeights t block =
     bindR (CalculateSequenceLocks tx flags prevHeights t block) (\<lambda>(lockPair, _). EvaluateSequenceLocks t block lockPair)"

section \<open>Signature operations\<close>

text \<open>The counts are of type \<^verbatim>\<open>unsigned int\<close>.\<close>

definition GetLegacySigOpCount :: "CTransaction \<Rightarrow> int" where
  "GetLegacySigOpCount tx =
     (foldl (\<lambda>n txout. n + GetSigOpCount (scriptPubKey txout) False)
        (foldl (\<lambda>n txin. n + GetSigOpCount (scriptSig txin) False) 0 (vin tx)) (vout tx)) mod 2 ^ 32"

text \<open>The coin of an input, which must be unspent.\<close>

definition access_unspent :: "(COutPoint \<Rightarrow> ('s, Coin option) vm) \<Rightarrow> COutPoint \<Rightarrow> ('s CCoinsViewCache, Coin) vm" where
  "access_unspent get p = bindV (AccessCoin get p) (\<lambda>x v. if IsSpent x then Inl Assertion else Inr (x, v))"

fun p2sh_sigops :: "(COutPoint \<Rightarrow> ('s, Coin option) vm) \<Rightarrow> CTxIn list \<Rightarrow> int \<Rightarrow> ('s CCoinsViewCache, int) vm" where
  "p2sh_sigops get [] nSigOps = returnV nSigOps"
| "p2sh_sigops get (txin # ins) nSigOps =
     bindV (access_unspent get (prevout txin))
       (\<lambda>x. p2sh_sigops get ins
          (if IsPayToScriptHash (scriptPubKey (coin_out x)) then nSigOps + GetSigOpCount_p2sh (scriptPubKey (coin_out x)) (scriptSig txin) else nSigOps))"

definition GetP2SHSigOpCount :: "(COutPoint \<Rightarrow> ('s, Coin option) vm) \<Rightarrow> CTransaction \<Rightarrow> ('s CCoinsViewCache, int) vm" where
  "GetP2SHSigOpCount get tx =
     (if IsCoinBase tx then returnV 0 else bindV (p2sh_sigops get (vin tx) 0) (\<lambda>n. returnV (n mod 2 ^ 32)))"

fun witness_sigops :: "(COutPoint \<Rightarrow> ('s, Coin option) vm) \<Rightarrow> script_verify_flags \<Rightarrow> CTxIn list \<Rightarrow> int \<Rightarrow> ('s CCoinsViewCache, int) vm" where
  "witness_sigops get flags [] nSigOps = returnV nSigOps"
| "witness_sigops get flags (txin # ins) nSigOps =
     bindV (access_unspent get (prevout txin))
       (\<lambda>x. case CountWitnessSigOps (scriptSig txin) (scriptPubKey (coin_out x)) (scriptWitness txin) flags of
          Inl _ \<Rightarrow> (\<lambda>_. Inl Assertion)
        | Inr n \<Rightarrow> witness_sigops get flags ins (nSigOps + n))"

definition GetTransactionSigOpCost :: "(COutPoint \<Rightarrow> ('s, Coin option) vm) \<Rightarrow> CTransaction \<Rightarrow> script_verify_flags \<Rightarrow> ('s CCoinsViewCache, int) vm" where
  "GetTransactionSigOpCost get tx flags =
     (let nSigOps = GetLegacySigOpCount tx * WITNESS_SCALE_FACTOR mod 2 ^ 32 in
      if IsCoinBase tx then returnV nSigOps
      else bindV (if SCRIPT_VERIFY_P2SH \<in> flags then GetP2SHSigOpCount get tx else returnV 0)
        (\<lambda>n. witness_sigops get flags (vin tx) (nSigOps + n * WITNESS_SCALE_FACTOR mod 2 ^ 32)))"

section \<open>Inputs and fee\<close>

fun have_inputs_loop :: "(COutPoint \<Rightarrow> ('s, Coin option) vm) \<Rightarrow> CTxIn list \<Rightarrow> ('s CCoinsViewCache, bool) vm" where
  "have_inputs_loop get [] = returnV True"
| "have_inputs_loop get (txin # ins) = bindV (HaveCoin get (prevout txin)) (\<lambda>b. if \<not> b then returnV False else have_inputs_loop get ins)"

definition HaveInputs :: "(COutPoint \<Rightarrow> ('s, Coin option) vm) \<Rightarrow> CTransaction \<Rightarrow> ('s CCoinsViewCache, bool) vm" where
  "HaveInputs get tx = (if \<not> IsCoinBase tx then have_inputs_loop get (vin tx) else returnV True)"

fun value_in_loop :: "(COutPoint \<Rightarrow> ('s, Coin option) vm) \<Rightarrow> int \<Rightarrow> int \<Rightarrow> CTxIn list \<Rightarrow> CAmount \<Rightarrow> ('s CCoinsViewCache, tx_reject + CAmount) vm" where
  "value_in_loop get nSpendHeight coinbase_maturity [] nValueIn = returnV (Inr nValueIn)"
| "value_in_loop get nSpendHeight coinbase_maturity (txin # ins) nValueIn =
     bindV (access_unspent get (prevout txin)) (\<lambda>x.
       if fCoinBase x \<and> nSpendHeight - coin_nHeight x < coinbase_maturity
       then returnV (Inl (TX_PREMATURE_SPEND, ''bad-txns-premature-spend-of-coinbase''))
       else if \<not> MoneyRange (nValue (coin_out x)) \<or> \<not> MoneyRange (nValueIn + nValue (coin_out x))
       then returnV (Inl (TX_CONSENSUS, ''bad-txns-inputvalues-outofrange''))
       else value_in_loop get nSpendHeight coinbase_maturity ins (nValueIn + nValue (coin_out x)))"

text \<open>\<^verbatim>\<open>GetValueOut\<close> may throw; the result is the reason of a rejection or the fee.\<close>

definition CheckTxInputs :: "(COutPoint \<Rightarrow> ('s, Coin option) vm) \<Rightarrow> CTransaction \<Rightarrow> int \<Rightarrow> int \<Rightarrow> ('s CCoinsViewCache, tx_reject + CAmount) vm" where
  "CheckTxInputs get tx nSpendHeight coinbase_maturity =
     bindV (HaveInputs get tx) (\<lambda>b.
       if \<not> b then returnV (Inl (TX_MISSING_INPUTS, ''bad-txns-inputs-missingorspent''))
       else bindV (value_in_loop get nSpendHeight coinbase_maturity (vin tx) 0) (\<lambda>r.
         case r of
           Inl e \<Rightarrow> returnV (Inl e)
         | Inr nValueIn \<Rightarrow>
             case GetValueOut tx of
               None \<Rightarrow> (\<lambda>_. Inl Runtime_Error)
             | Some value_out \<Rightarrow>
                 if nValueIn < value_out then returnV (Inl (TX_CONSENSUS, ''bad-txns-in-belowout''))
                 else if \<not> MoneyRange (nValueIn - value_out) then returnV (Inl (TX_CONSENSUS, ''bad-txns-fee-outofrange''))
                 else returnV (Inr (nValueIn - value_out))))"

definition CheckSettlementLevy :: "CTransaction \<Rightarrow> CAmount \<Rightarrow> SettlementLevyRule \<Rightarrow> coins_fail + (tx_reject + unit)" where
  "CheckSettlementLevy tx txfee rule =
     (if IsCoinBase tx then Inr (Inr ())
      else case GetValueOut tx of
        None \<Rightarrow> Inl Runtime_Error
      | Some v \<Rightarrow> Inr (if txfee < SettlementLevy v rule then Inl (TX_CONSENSUS, ''bad-txns-levy'') else Inr ()))"

section \<open>What the checks accept\<close>

lemma check_values_iff:
  assumes "0 \<le> n" "n \<le> MAX_MONEY"
  shows "check_values n outs = Inr () \<longleftrightarrow> (\<forall>out\<in>set outs. 0 \<le> nValue out) \<and> n + (\<Sum>out\<leftarrow>outs. nValue out) \<le> MAX_MONEY"
  using assms
proof (induction outs arbitrary: n)
  case (Cons out outs)
  have nonneg: "0 \<le> (\<Sum>out\<leftarrow>outs. nValue out)" if "\<forall>out\<in>set outs. 0 \<le> nValue out"
    using that by (intro sum_list_nonneg) auto
  show ?case
  proof (cases "0 \<le> nValue out \<and> n + nValue out \<le> MAX_MONEY")
    case True
    then show ?thesis using Cons.IH [of "n + nValue out"] Cons.prems by (auto simp: MoneyRange_def add.assoc)
  next
    case False
    then have "check_values n (out # outs) \<noteq> Inr ()" using Cons.prems by (auto simp: MoneyRange_def)
    moreover have "\<not> ((\<forall>out\<in>set (out # outs). 0 \<le> nValue out) \<and> n + (\<Sum>out\<leftarrow>out # outs. nValue out) \<le> MAX_MONEY)"
      using False nonneg by auto
    ultimately show ?thesis by blast
  qed
qed simp

text \<open>The outputs that are not \<^verbatim>\<open>NULL_DATA\<close>.\<close>

definition spendable_outs :: "CTxOut list \<Rightarrow> CTxOut list" where
  "spendable_outs outs = filter (\<lambda>out. fst (Solver (scriptPubKey out)) \<noteq> NULL_DATA) outs"

lemma check_outputs_eq:
  "check_outputs pv2 mv outs (k, b, z) =
     (if \<forall>out\<in>set outs. allowed pv2 (fst (Solver (scriptPubKey out)))
      then Inr (k + length (spendable_outs outs), b \<or> (\<exists>out\<in>set (spendable_outs outs). nValue out < mv), z \<or> (\<exists>out\<in>set (spendable_outs outs). nValue out < 1))
      else Inl (TX_CONSENSUS, ''bad-txout-not-pq''))"
  by (induction outs arbitrary: k b z) (auto simp: spendable_outs_def Let_def)

lemma check_duplicates_iff: "check_duplicates S ins = Inr () \<longleftrightarrow> distinct (map prevout ins) \<and> S \<inter> prevout ` set ins = {}"
  by (induction ins arbitrary: S) auto

lemma CheckTransaction_outputs:
  assumes "CheckTransaction tx pv2 mv = Inr ()"
  shows "vin tx \<noteq> []" "distinct (map prevout (vin tx))" "\<forall>out\<in>set (vout tx). 0 \<le> nValue out"
    "int (length (SerializeTransaction False tx)) * WITNESS_SCALE_FACTOR \<le> MAX_BLOCK_WEIGHT"
  using assms by (auto simp: CheckTransaction_def bindR_Inr check_values_iff check_duplicates_iff MAX_MONEY_def COIN_def split: if_splits prod.splits)

lemma check_values_consensus: "check_values n outs = Inl e \<Longrightarrow> fst e = TX_CONSENSUS"
  by (induction outs arbitrary: n) (auto split: if_splits)

lemma check_duplicates_consensus: "check_duplicates S ins = Inl e \<Longrightarrow> fst e = TX_CONSENSUS"
  by (induction ins arbitrary: S) (auto split: if_splits)

text \<open>Every rejection is of the kind that \<^verbatim>\<open>CheckBlock\<close> asserts.\<close>

lemma CheckTransaction_consensus: "CheckTransaction tx pv2 mv = Inl e \<Longrightarrow> fst e = TX_CONSENSUS"
  unfolding CheckTransaction_def check_outputs_eq
  by (auto simp: bindR_def dest: check_values_consensus check_duplicates_consensus split: if_splits sum.splits)

lemma CheckTransaction_Inr:
  "CheckTransaction tx permit_v2 min_value = Inr () \<longleftrightarrow>
     \<not> vin tx = [] \<and> \<not> vout tx = [] \<and> \<not> int (length (SerializeTransaction False tx)) * WITNESS_SCALE_FACTOR > MAX_BLOCK_WEIGHT
     \<and> check_values 0 (vout tx) = Inr () \<and> (\<forall>out\<in>set (vout tx). allowed permit_v2 (fst (Solver (scriptPubKey out))))
     \<and> \<not> (min_value > 0 \<and> (\<exists>out\<in>set (spendable_outs (vout tx)). nValue out < min_value)
          \<and> \<not> (IsCoinBase tx \<and> length (spendable_outs (vout tx)) = 1 \<and> \<not> (\<exists>out\<in>set (spendable_outs (vout tx)). nValue out < 1)))
     \<and> check_duplicates {} (vin tx) = Inr ()
     \<and> (if IsCoinBase tx then \<not> (length (scriptSig (vin tx ! 0)) < 2 \<or> length (scriptSig (vin tx ! 0)) > 100)
        else \<not> list_ex (\<lambda>txin. COutPoint_IsNull (prevout txin)) (vin tx))"
proof -
  have guards: "(if b then False else c) \<longleftrightarrow> \<not> b \<and> c" "bindR (if b then Inr x else Inl e) f = Inr y \<longleftrightarrow> b \<and> f x = Inr y"
    "(if b then m else m') = Inr y \<longleftrightarrow> (if b then m = Inr y else m' = Inr y)" "bindR r (\<lambda>_. m) = Inr y \<longleftrightarrow> r = Inr () \<and> m = Inr y"
    for b c and e :: tx_reject and x :: 'a and f :: "'a \<Rightarrow> tx_reject + unit" and m m' y and r :: "tx_reject + unit"
    by (auto simp: bindR_def split: sum.splits)
  show ?thesis unfolding CheckTransaction_def check_outputs_eq by (simp only: guards prod.case add_0 simp_thms sum.distinct)
qed

text \<open>C40. The transactions that the context-free check accepts are exactly these: there are inputs and outputs, the size is within the
  limit, the output values are non-negative and their sum is at most \<^verbatim>\<open>MAX_MONEY\<close>, every output is post-quantum or \<^verbatim>\<open>NULL_DATA\<close>, no
  output is spent twice, and every output that is not \<^verbatim>\<open>NULL_DATA\<close> reaches the minimal value, or it is the only such output of a coinbase
  and worth something.  The script of a coinbase has 2 to 100 bytes; other transactions have no null input.\<close>

theorem CheckTransaction_iff:
  "CheckTransaction tx permit_v2 min_value = Inr () \<longleftrightarrow>
     vin tx \<noteq> [] \<and> vout tx \<noteq> [] \<and> int (length (SerializeTransaction False tx)) * WITNESS_SCALE_FACTOR \<le> MAX_BLOCK_WEIGHT
     \<and> (\<forall>out\<in>set (vout tx). 0 \<le> nValue out) \<and> (\<Sum>out\<leftarrow>vout tx. nValue out) \<le> MAX_MONEY
     \<and> (\<forall>out\<in>set (vout tx). fst (Solver (scriptPubKey out)) \<in> {WITNESS_V3_PQ, NULL_DATA} \<union> (if permit_v2 then {WITNESS_V2_PQ} else {}))
     \<and> (min_value \<le> 0 \<or> (\<forall>out\<in>set (spendable_outs (vout tx)). min_value \<le> nValue out)
        \<or> IsCoinBase tx \<and> (\<exists>out. spendable_outs (vout tx) = [out] \<and> 1 \<le> nValue out))
     \<and> distinct (map prevout (vin tx))
     \<and> (if IsCoinBase tx then 2 \<le> length (scriptSig (vin tx ! 0)) \<and> length (scriptSig (vin tx ! 0)) \<le> 100
        else \<forall>txin\<in>set (vin tx). \<not> COutPoint_IsNull (prevout txin))"
proof -
  have single: "length xs = 1 \<and> \<not> (\<exists>out\<in>set xs. nValue out < 1) \<longleftrightarrow> (\<exists>out. xs = [out] \<and> 1 \<le> nValue out)" for xs
    by (auto simp: length_Suc_conv)
  have floor: "\<not> (min_value > 0 \<and> (\<exists>out\<in>set xs. nValue out < min_value) \<and> \<not> (cb \<and> length xs = 1 \<and> \<not> (\<exists>out\<in>set xs. nValue out < 1)))
    \<longleftrightarrow> min_value \<le> 0 \<or> (\<forall>out\<in>set xs. min_value \<le> nValue out) \<or> cb \<and> (\<exists>out. xs = [out] \<and> 1 \<le> nValue out)" for xs cb
    unfolding single [symmetric] by (auto simp: not_less)
  have money: "0 \<le> MAX_MONEY" by (simp add: MAX_MONEY_def COIN_def)
  have types: "allowed permit_v2 t \<longleftrightarrow> t \<in> {WITNESS_V3_PQ, NULL_DATA} \<union> (if permit_v2 then {WITNESS_V2_PQ} else {})" for t
    by (auto simp: allowed_def)
  show ?thesis
    unfolding CheckTransaction_Inr floor types check_values_iff [OF order_refl money] check_duplicates_iff list_ex_iff not_less de_Morgan_disj
    by (simp only: add_0 Int_empty_left simp_thms bex_simps ball_simps conj_assoc not_less)
qed

text \<open>A coinbase whose only output is worth less than the minimal value.\<close>

definition example_coinbase :: CTransaction where
  "example_coinbase = \<lparr>vin = [\<lparr>prevout = \<lparr>op_hash = replicate 32 0, op_n = 0xffffffff\<rparr>, scriptSig = [1, 1], nSequence = 0, scriptWitness = []\<rparr>],
     vout = [\<lparr>nValue = 7, scriptPubKey = [0x53, 32] @ replicate 32 9\<rparr>], version = 2, nLockTime = 0\<rparr>"

lemma length_vout_le: "length (vout tx) \<le> length (SerializeTransaction False tx)"
proof -
  have "length outs \<le> length (concat (map ser_txout outs))" for outs
    by (induction outs) (auto simp: ser_txout_def ser_int64_def ser_writedata64_def)
  from this [of "vout tx"] show ?thesis by (simp add: SerializeTransaction_def ser_vector_def)
qed

lemma example_coinbase_facts:
  "fst (Solver (scriptPubKey (vout example_coinbase ! 0))) = WITNESS_V3_PQ" "length (SerializeTransaction False example_coinbase) = 96"
  "IsCoinBase example_coinbase" "\<not> IsUnspendable (scriptPubKey (vout example_coinbase ! 0))" "GetLegacySigOpCount example_coinbase = 0"
proof -
  show "fst (Solver (scriptPubKey (vout example_coinbase ! 0))) = WITNESS_V3_PQ"
    by (simp add: example_coinbase_def Solver_def IsPayToScriptHash_def IsWitnessProgram_def DecodeOP_N_def)
  show "length (SerializeTransaction False example_coinbase) = 96"
    by (simp add: example_coinbase_def SerializeTransaction_def ser_vector_def ser_txin_def ser_txout_def ser_outpoint_def ser_bytes_def
        ser_uint256_def ser_int64_def ser_writedata64_def ser_writedata32_def WriteCompactSize_def ser_writedata8_def)
  show "IsCoinBase example_coinbase"
    by (simp add: example_coinbase_def IsCoinBase_def COutPoint_IsNull_def NULL_INDEX_def uint256_IsNull_def list_all_iff)
  show "\<not> IsUnspendable (scriptPubKey (vout example_coinbase ! 0))"
    by (simp add: example_coinbase_def IsUnspendable_def MAX_SCRIPT_SIZE_def)
  show "GetLegacySigOpCount example_coinbase = 0"
    by (simp add: example_coinbase_def GetLegacySigOpCount_def GetSigOpCount_def sigop_loop.simps GetScriptOp_def Let_def)
qed

theorem CheckTransaction_iff_witness: "CheckTransaction example_coinbase False 1000 = Inr ()"
  unfolding CheckTransaction_iff using example_coinbase_facts(1-3)
  by (simp add: spendable_outs_def WITNESS_SCALE_FACTOR_def MAX_BLOCK_WEIGHT_def MAX_MONEY_def COIN_def example_coinbase_def)

end
