(* ===== verification/Connect_Block.thy ===== *)
theory Connect_Block
  imports Tx_Rules Pow Merkle Emission
begin

text \<open>
  The part of \<^verbatim>\<open>validation.cpp\<close> that checks blocks and applies them to the coins: \<^verbatim>\<open>CheckBlock\<close>, \<^verbatim>\<open>ConnectBlock\<close>, \<^verbatim>\<open>UpdateCoins\<close> and
  their inverse \<^verbatim>\<open>DisconnectBlock\<close>.  The flags on a block that remember checks already passed are left out, and so are debug
  messages, logging and statistics.  Scripts are checked as on a node without worker threads, which stops at the first failure.
\<close>

section \<open>Checks without context\<close>

datatype BlockValidationResult = BLOCK_RESULT_UNSET | BLOCK_CONSENSUS | BLOCK_CACHED_INVALID | BLOCK_INVALID_HEADER | BLOCK_MUTATED
  | BLOCK_MISSING_PREV | BLOCK_INVALID_PREV | BLOCK_TIME_FUTURE | BLOCK_HEADER_LOW_WORK

type_synonym block_reject = "BlockValidationResult \<times> string"

text \<open>The state of a validation that did not succeed, by its mode.\<close>

datatype block_state = M_INVALID block_reject | M_ERROR block_reject

definition CheckBlockHeader :: "bool \<Rightarrow> CBlockHeader \<Rightarrow> Params \<Rightarrow> bool \<Rightarrow> CacheState \<Rightarrow> (block_reject + unit) \<times> CacheState" where
  "CheckBlockHeader fuzz hdr p fCheckPOW st =
     (if \<not> fCheckPOW then (Inr (), st)
      else case CheckProofOfWork fuzz hdr (nBits hdr) p st of
        (b, st') \<Rightarrow> (if \<not> b then Inl (BLOCK_INVALID_HEADER, ''high-hash'') else Inr (), st'))"

definition CheckMerkleRoot :: "CBlock \<Rightarrow> block_reject + unit" where
  "CheckMerkleRoot block =
     (case BlockMerkleRoot block True of (merkle_root, mutated) \<Rightarrow>
        if hashMerkleRoot (header block) \<noteq> merkle_root then Inl (BLOCK_MUTATED, ''bad-txnmrklroot'')
        else if mutated then Inl (BLOCK_MUTATED, ''bad-txns-duplicate'')
        else Inr ())"

text \<open>The source asserts that a rejected transaction breaks a consensus rule.\<close>

fun check_transactions :: "bool \<Rightarrow> CAmount \<Rightarrow> CTransaction list \<Rightarrow> coins_fail + (block_reject + unit)" where
  "check_transactions permit_v2_outputs min_output_value [] = Inr (Inr ())"
| "check_transactions permit_v2_outputs min_output_value (tx # txs) =
     (case CheckTransaction tx permit_v2_outputs min_output_value of
        Inl (res, reason) \<Rightarrow> if res \<noteq> TX_CONSENSUS then Inl Assertion else Inr (Inl (BLOCK_CONSENSUS, reason))
      | Inr _ \<Rightarrow> check_transactions permit_v2_outputs min_output_value txs)"

definition check_block_txs :: "CBlock \<Rightarrow> Params \<Rightarrow> coins_fail + (block_reject + unit)" where
  "check_block_txs block p =
     (if vtx block = [] \<or> int (length (vtx block)) * WITNESS_SCALE_FACTOR > MAX_BLOCK_WEIGHT
         \<or> int (length (SerializeBlock False block)) * WITNESS_SCALE_FACTOR > MAX_BLOCK_WEIGHT
      then Inr (Inl (BLOCK_CONSENSUS, ''bad-blk-length''))
      else if \<not> IsCoinBase (vtx block ! 0) then Inr (Inl (BLOCK_CONSENSUS, ''bad-cb-missing''))
      else if list_ex IsCoinBase (tl (vtx block)) then Inr (Inl (BLOCK_CONSENSUS, ''bad-cb-multiple''))
      else let is_genesis = (BlockHash (header block) = hashGenesisBlock p) in
        bindR (check_transactions (permitV2Outputs p \<or> is_genesis) (if is_genesis then 0 else minOutputValueSat p) (vtx block)) (\<lambda>r.
          Inr (bindR r (\<lambda>_.
            if (foldl (\<lambda>n tx. n + GetLegacySigOpCount tx) 0 (vtx block) mod 2 ^ 32 * WITNESS_SCALE_FACTOR) mod 2 ^ 32 > MAX_BLOCK_SIGOPS_COST
            then Inl (BLOCK_CONSENSUS, ''bad-blk-sigops'')
            else Inr ()))))"

definition CheckBlock ::
  "bool \<Rightarrow> CBlock \<Rightarrow> Params \<Rightarrow> bool \<Rightarrow> bool \<Rightarrow> CacheState \<Rightarrow> (coins_fail + (block_reject + unit)) \<times> CacheState"
where
  "CheckBlock fuzz block p fCheckPOW fCheckMerkleRoot st =
     (case CheckBlockHeader fuzz (header block) p fCheckPOW st of
        (Inl e, st') \<Rightarrow> (Inr (Inl e), st')
      | (Inr _, st') \<Rightarrow>
          (case if fCheckMerkleRoot then CheckMerkleRoot block else Inr () of
             Inl e \<Rightarrow> Inr (Inl e)
           | Inr _ \<Rightarrow> check_block_txs block p, st'))"

section \<open>Updating the coins\<close>

type_synonym CTxUndo = "Coin list"
type_synonym CBlockUndo = "CTxUndo list"

fun spend_inputs :: "(COutPoint \<Rightarrow> ('s, Coin option) vm) \<Rightarrow> CTxIn list \<Rightarrow> ('s CCoinsViewCache, CTxUndo) vm" where
  "spend_inputs get [] = returnV []"
| "spend_inputs get (txin # ins) =
     bindV (SpendCoin get (prevout txin))
       (\<lambda>r. case r of None \<Rightarrow> (\<lambda>_. Inl Assertion) | Some x \<Rightarrow> bindV (spend_inputs get ins) (\<lambda>xs. returnV (x # xs)))"

fun add_coins_loop ::
  "(COutPoint \<Rightarrow> ('s, Coin option) vm) \<Rightarrow> bool \<Rightarrow> uint256 \<Rightarrow> int \<Rightarrow> bool \<Rightarrow> nat \<Rightarrow> CTxOut list \<Rightarrow> ('s CCoinsViewCache, unit) vm"
where
  "add_coins_loop get check_for_overwrite txid h fCoinbase i [] = returnV ()"
| "add_coins_loop get check_for_overwrite txid h fCoinbase i (txout # outs) =
     bindV (if check_for_overwrite then HaveCoin get \<lparr>op_hash = txid, op_n = of_nat i\<rparr> else returnV fCoinbase)
       (\<lambda>overwrite. bindV (AddCoin \<lparr>op_hash = txid, op_n = of_nat i\<rparr> (mkCoin txout h fCoinbase) overwrite)
          (\<lambda>_. add_coins_loop get check_for_overwrite txid h fCoinbase (i + 1) outs))"

definition AddCoins :: "(COutPoint \<Rightarrow> ('s, Coin option) vm) \<Rightarrow> CTransaction \<Rightarrow> int \<Rightarrow> bool \<Rightarrow> ('s CCoinsViewCache, unit) vm" where
  "AddCoins get tx h check_for_overwrite = add_coins_loop get check_for_overwrite (GetHash tx) h (IsCoinBase tx) 0 (vout tx)"

definition UpdateCoins :: "(COutPoint \<Rightarrow> ('s, Coin option) vm) \<Rightarrow> CTransaction \<Rightarrow> int \<Rightarrow> ('s CCoinsViewCache, CTxUndo) vm" where
  "UpdateCoins get tx h =
     bindV (if \<not> IsCoinBase tx then spend_inputs get (vin tx) else returnV [])
       (\<lambda>txundo. bindV (AddCoins get tx h False) (\<lambda>_. returnV txundo))"

section \<open>Scripts\<close>

definition GetBlockScriptFlags :: "Params \<Rightarrow> (uint256 \<Rightarrow> script_verify_flags option) \<Rightarrow> uint256 \<Rightarrow> int \<Rightarrow> script_verify_flags" where
  "GetBlockScriptFlags p script_flag_exceptions hash h =
     (case script_flag_exceptions hash of
        None \<Rightarrow> {SCRIPT_VERIFY_P2SH, SCRIPT_VERIFY_WITNESS, SCRIPT_VERIFY_TAPROOT, SCRIPT_VERIFY_XCOIN_V3}
      | Some flags \<Rightarrow> flags)
     \<union> (if h \<ge> DeploymentHeight p DEPLOYMENT_DERSIG then {SCRIPT_VERIFY_DERSIG} else {})
     \<union> (if h \<ge> DeploymentHeight p DEPLOYMENT_CLTV then {SCRIPT_VERIFY_CHECKLOCKTIMEVERIFY} else {})
     \<union> (if h \<ge> DeploymentHeight p DEPLOYMENT_CSV then {SCRIPT_VERIFY_CHECKSEQUENCEVERIFY} else {})
     \<union> (if h \<ge> DeploymentHeight p DEPLOYMENT_SEGWIT then {SCRIPT_VERIFY_NULLDUMMY} else {})"

definition ScriptErrorString :: "ScriptError \<Rightarrow> string" where
  "ScriptErrorString serror = (case serror of
     SCRIPT_ERR_OK \<Rightarrow> ''No error''
   | SCRIPT_ERR_EVAL_FALSE \<Rightarrow> ''Script evaluated without error but finished with a false/empty top stack element''
   | SCRIPT_ERR_VERIFY \<Rightarrow> ''Script failed an OP_VERIFY operation''
   | SCRIPT_ERR_EQUALVERIFY \<Rightarrow> ''Script failed an OP_EQUALVERIFY operation''
   | SCRIPT_ERR_CHECKMULTISIGVERIFY \<Rightarrow> ''Script failed an OP_CHECKMULTISIGVERIFY operation''
   | SCRIPT_ERR_CHECKSIGVERIFY \<Rightarrow> ''Script failed an OP_CHECKSIGVERIFY operation''
   | SCRIPT_ERR_NUMEQUALVERIFY \<Rightarrow> ''Script failed an OP_NUMEQUALVERIFY operation''
   | SCRIPT_ERR_SCRIPT_SIZE \<Rightarrow> ''Script is too big''
   | SCRIPT_ERR_PUSH_SIZE \<Rightarrow> ''Push value size limit exceeded''
   | SCRIPT_ERR_OP_COUNT \<Rightarrow> ''Operation limit exceeded''
   | SCRIPT_ERR_STACK_SIZE \<Rightarrow> ''Stack size limit exceeded''
   | SCRIPT_ERR_SIG_COUNT \<Rightarrow> ''Signature count negative or greater than pubkey count''
   | SCRIPT_ERR_PUBKEY_COUNT \<Rightarrow> ''Pubkey count negative or limit exceeded''
   | SCRIPT_ERR_BAD_OPCODE \<Rightarrow> ''Opcode missing or not understood''
   | SCRIPT_ERR_DISABLED_OPCODE \<Rightarrow> ''Attempted to use a disabled opcode''
   | SCRIPT_ERR_INVALID_STACK_OPERATION \<Rightarrow> ''Operation not valid with the current stack size''
   | SCRIPT_ERR_INVALID_ALTSTACK_OPERATION \<Rightarrow> ''Operation not valid with the current altstack size''
   | SCRIPT_ERR_OP_RETURN \<Rightarrow> ''OP_RETURN was encountered''
   | SCRIPT_ERR_UNBALANCED_CONDITIONAL \<Rightarrow> ''Invalid OP_IF construction''
   | SCRIPT_ERR_NEGATIVE_LOCKTIME \<Rightarrow> ''Negative locktime''
   | SCRIPT_ERR_UNSATISFIED_LOCKTIME \<Rightarrow> ''Locktime requirement not satisfied''
   | SCRIPT_ERR_SIG_HASHTYPE \<Rightarrow> ''Signature hash type missing or not understood''
   | SCRIPT_ERR_SIG_DER \<Rightarrow> ''Non-canonical DER signature''
   | SCRIPT_ERR_MINIMALDATA \<Rightarrow> ''Data push larger than necessary''
   | SCRIPT_ERR_SIG_PUSHONLY \<Rightarrow> ''Only push operators allowed in signatures''
   | SCRIPT_ERR_SIG_HIGH_S \<Rightarrow> ''Non-canonical signature: S value is unnecessarily high''
   | SCRIPT_ERR_SIG_NULLDUMMY \<Rightarrow> ''Dummy CHECKMULTISIG argument must be zero''
   | SCRIPT_ERR_MINIMALIF \<Rightarrow> ''OP_IF/NOTIF argument must be minimal''
   | SCRIPT_ERR_SIG_NULLFAIL \<Rightarrow> ''Signature must be zero for failed CHECK(MULTI)SIG operation''
   | SCRIPT_ERR_DISCOURAGE_UPGRADABLE_NOPS \<Rightarrow> ''NOPx reserved for soft-fork upgrades''
   | SCRIPT_ERR_DISCOURAGE_UPGRADABLE_WITNESS_PROGRAM \<Rightarrow> ''Witness version reserved for soft-fork upgrades''
   | SCRIPT_ERR_DISCOURAGE_UPGRADABLE_TAPROOT_VERSION \<Rightarrow> ''Taproot version reserved for soft-fork upgrades''
   | SCRIPT_ERR_DISCOURAGE_OP_SUCCESS \<Rightarrow> ''OP_SUCCESSx reserved for soft-fork upgrades''
   | SCRIPT_ERR_DISCOURAGE_UPGRADABLE_PUBKEYTYPE \<Rightarrow> ''Public key version reserved for soft-fork upgrades''
   | SCRIPT_ERR_PUBKEYTYPE \<Rightarrow> ''Public key is neither compressed or uncompressed''
   | SCRIPT_ERR_CLEANSTACK \<Rightarrow> ''Stack size must be exactly one after execution''
   | SCRIPT_ERR_WITNESS_PROGRAM_WRONG_LENGTH \<Rightarrow> ''Witness program has incorrect length''
   | SCRIPT_ERR_WITNESS_PROGRAM_WITNESS_EMPTY \<Rightarrow> ''Witness program was passed an empty witness''
   | SCRIPT_ERR_WITNESS_PROGRAM_MISMATCH \<Rightarrow> ''Witness program hash mismatch''
   | SCRIPT_ERR_WITNESS_MALLEATED \<Rightarrow> ''Witness requires empty scriptSig''
   | SCRIPT_ERR_WITNESS_MALLEATED_P2SH \<Rightarrow> ''Witness requires only-redeemscript scriptSig''
   | SCRIPT_ERR_WITNESS_UNEXPECTED \<Rightarrow> ''Witness provided for non-witness script''
   | SCRIPT_ERR_WITNESS_PUBKEYTYPE \<Rightarrow> ''Using non-compressed keys in segwit''
   | SCRIPT_ERR_SCHNORR_SIG_SIZE \<Rightarrow> ''Invalid Schnorr signature size''
   | SCRIPT_ERR_SCHNORR_SIG_HASHTYPE \<Rightarrow> ''Invalid Schnorr signature hash type''
   | SCRIPT_ERR_SCHNORR_SIG \<Rightarrow> ''Invalid Schnorr signature''
   | SCRIPT_ERR_TAPROOT_WRONG_CONTROL_SIZE \<Rightarrow> ''Invalid Taproot control block size''
   | SCRIPT_ERR_TAPSCRIPT_VALIDATION_WEIGHT \<Rightarrow> ''Too much signature validation relative to witness weight''
   | SCRIPT_ERR_TAPSCRIPT_CHECKMULTISIG \<Rightarrow> ''OP_CHECKMULTISIG(VERIFY) is not available in tapscript''
   | SCRIPT_ERR_TAPSCRIPT_MINIMALIF \<Rightarrow> ''OP_IF/NOTIF argument must be minimal in tapscript''
   | SCRIPT_ERR_TAPSCRIPT_EMPTY_PUBKEY \<Rightarrow> ''Empty public key in tapscript''
   | SCRIPT_ERR_OP_CODESEPARATOR \<Rightarrow> ''Using OP_CODESEPARATOR in non-witness script''
   | SCRIPT_ERR_SIG_FINDANDDELETE \<Rightarrow> ''Signature is found in scriptCode''
   | SCRIPT_ERR_SCRIPTNUM \<Rightarrow> ''Script number overflowed or is non-minimally encoded''
   | SCRIPT_ERR_XCOIN_V3_CONTROL \<Rightarrow> ''Invalid witness v3 control block (size, parity bit or no-key slot)''
   | SCRIPT_ERR_XCOIN_V3_SIG_SIZE \<Rightarrow> ''Invalid witness v3 signature size (ML-DSA 3,309 or SLH-DSA 7,856 bytes plus an optional hash-type byte)''
   | SCRIPT_ERR_XCOIN_V3_SIG_HASHTYPE \<Rightarrow> ''Invalid witness v3 signature hash type''
   | SCRIPT_ERR_XCOIN_V3_SIG \<Rightarrow> ''Invalid witness v3 ML-DSA or SLH-DSA signature''
   | SCRIPT_ERR_XCOIN_V3_PUBKEY \<Rightarrow> ''Witness v3 public key does not match the leaf's key hash, has the wrong size, or is not empty next to an empty signature''
   | SCRIPT_ERR_XCOIN_V3_HASH_WEIGHT \<Rightarrow> ''Witness v3 leaf hashes more bytes than its validation-weight budget (witness size + 50, shared with the signature checks)''
   | SCRIPT_ERR_DISCOURAGE_UPGRADABLE_XCOIN_LEAF_VERSION \<Rightarrow> ''Witness v3 leaf version reserved for soft-fork upgrades''
   | SCRIPT_ERR_TEMPLATE_MISMATCH \<Rightarrow> ''OP_CHECKTEMPLATEVERIFY template hash mismatch''
   | SCRIPT_ERR_UNKNOWN_ERROR \<Rightarrow> ''unknown error'')"

definition MANDATORY_SCRIPT_VERIFY_FLAGS :: script_verify_flags where
  "MANDATORY_SCRIPT_VERIFY_FLAGS = {SCRIPT_VERIFY_P2SH, SCRIPT_VERIFY_DERSIG, SCRIPT_VERIFY_NULLDUMMY, SCRIPT_VERIFY_CHECKLOCKTIMEVERIFY,
     SCRIPT_VERIFY_CHECKSEQUENCEVERIFY, SCRIPT_VERIFY_WITNESS, SCRIPT_VERIFY_TAPROOT, SCRIPT_VERIFY_XCOIN_V3}"

definition STANDARD_SCRIPT_VERIFY_FLAGS :: script_verify_flags where
  "STANDARD_SCRIPT_VERIFY_FLAGS = MANDATORY_SCRIPT_VERIFY_FLAGS \<union> {SCRIPT_VERIFY_STRICTENC, SCRIPT_VERIFY_MINIMALDATA,
     SCRIPT_VERIFY_DISCOURAGE_UPGRADABLE_NOPS, SCRIPT_VERIFY_CLEANSTACK, SCRIPT_VERIFY_MINIMALIF, SCRIPT_VERIFY_NULLFAIL, SCRIPT_VERIFY_LOW_S,
     SCRIPT_VERIFY_DISCOURAGE_UPGRADABLE_WITNESS_PROGRAM, SCRIPT_VERIFY_WITNESS_PUBKEYTYPE, SCRIPT_VERIFY_CONST_SCRIPTCODE,
     SCRIPT_VERIFY_DISCOURAGE_UPGRADABLE_TAPROOT_VERSION, SCRIPT_VERIFY_DISCOURAGE_OP_SUCCESS, SCRIPT_VERIFY_DISCOURAGE_UPGRADABLE_PUBKEYTYPE}"

definition STANDARD_NOT_MANDATORY_VERIFY_FLAGS :: script_verify_flags where
  "STANDARD_NOT_MANDATORY_VERIFY_FLAGS = STANDARD_SCRIPT_VERIFY_FLAGS - MANDATORY_SCRIPT_VERIFY_FLAGS"

fun spent_outputs :: "(COutPoint \<Rightarrow> ('s, Coin option) vm) \<Rightarrow> CTxIn list \<Rightarrow> ('s CCoinsViewCache, CTxOut list) vm" where
  "spent_outputs get [] = returnV []"
| "spent_outputs get (txin # ins) = bindV (access_unspent get (prevout txin)) (\<lambda>x. bindV (spent_outputs get ins) (\<lambda>xs. returnV (coin_out x # xs)))"

text \<open>The signature checker of an input is a function of the transaction, the position and the spent outputs.  \<open>cached\<close> tells
  whether the script execution cache holds the transaction with these flags; what the call itself changes in that cache is not tracked.\<close>

type_synonym checker_factory = "CTransaction \<Rightarrow> nat \<Rightarrow> CTxOut list \<Rightarrow> BaseSignatureChecker"

fun verify_inputs :: "checker_factory \<Rightarrow> CTransaction \<Rightarrow> script_verify_flags \<Rightarrow> CTxOut list \<Rightarrow> nat \<Rightarrow> (CTxIn \<times> CTxOut) list \<Rightarrow> coins_fail + (tx_reject + unit)" where
  "verify_inputs checker tx flags outs i [] = Inr (Inr ())"
| "verify_inputs checker tx flags outs i ((txin, out) # rest) =
     (case VerifyScript (scriptSig txin) (scriptPubKey out) (scriptWitness txin) flags (checker tx i outs) of
        Inl Assert_Fail \<Rightarrow> Inl Assertion
      | Inl (Script_Err e) \<Rightarrow>
          Inr (Inl (if flags \<inter> STANDARD_NOT_MANDATORY_VERIFY_FLAGS \<noteq> {}
                    then (TX_NOT_STANDARD, ''mempool-script-verify-flag-failed ('' @ ScriptErrorString e @ '')'')
                    else (TX_CONSENSUS, ''block-script-verify-flag-failed ('' @ ScriptErrorString e @ '')'')))
      | Inr _ \<Rightarrow> verify_inputs checker tx flags outs (i + 1) rest)"

definition CheckInputScripts ::
  "(COutPoint \<Rightarrow> ('s, Coin option) vm) \<Rightarrow> checker_factory \<Rightarrow> bool \<Rightarrow> CTransaction \<Rightarrow> script_verify_flags \<Rightarrow> ('s CCoinsViewCache, tx_reject + unit) vm"
where
  "CheckInputScripts get checker cached tx flags =
     (if IsCoinBase tx \<or> cached then returnV (Inr ())
      else bindV (spent_outputs get (vin tx)) (\<lambda>outs v.
        case verify_inputs checker tx flags outs 0 (zip (vin tx) outs) of Inl e \<Rightarrow> Inl e | Inr r \<Rightarrow> Inr (r, v)))"

section \<open>Connecting a block\<close>

text \<open>What \<^verbatim>\<open>ConnectBlock\<close> is given beside the block and the view: the parameters, the block index, the exceptions to the script flags, the
  checkers, the script execution cache, the assumed-valid block, the best header, the minimal chain work and whether the undo data can
  be written (otherwise the message of the error).\<close>

record connect_env =
  ce_params :: Params
  ce_index :: BlockMap
  ce_exceptions :: "uint256 \<Rightarrow> script_verify_flags option"
  ce_checker :: checker_factory
  ce_cached :: "uint256 \<Rightarrow> script_verify_flags \<Rightarrow> bool"
  AssumedValidBlock :: uint256
  m_best_header :: uint256
  MinimumChainWork :: limbs
  WriteBlockUndo :: "CBlockUndo \<Rightarrow> string option"

definition TWO_WEEKS_IN_SECONDS :: int where
  [const_defs]: "TWO_WEEKS_IN_SECONDS = 60 * 60 * 24 * 7 * 2"

text \<open>Why the scripts of a block are checked; \<open>None\<close> when they are not.  A failure is a best header that is not in the index or
  a division by zero.\<close>

definition script_check_reason :: "connect_env \<Rightarrow> uint256 \<Rightarrow> CBlockIndex \<Rightarrow> coins_fail + string option" where
  "script_check_reason env hash pindex =
     (if uint256_IsNull (AssumedValidBlock env) then Inr (Some ''assumevalid=0 (always verify)'')
      else case ce_index env (AssumedValidBlock env) of
        None \<Rightarrow> Inr (Some ''assumevalid hash not in headers'')
      | Some it \<Rightarrow>
          if GetAncestor (ce_index env) (AssumedValidBlock env) (nHeight pindex) \<noteq> Some hash
          then Inr (Some (if nHeight pindex > nHeight it then ''block height above assumevalid height'' else ''block not in assumevalid chain''))
          else case ce_index env (m_best_header env) of
            None \<Rightarrow> Inl Assertion
          | Some bh \<Rightarrow>
              if GetAncestor (ce_index env) (m_best_header env) (nHeight pindex) \<noteq> Some hash then Inr (Some ''block not in best header chain'')
              else if uint_gt (MinimumChainWork env) (nChainWork bh) then Inr (Some ''best header chainwork below minimumchainwork'')
              else case GetBlockProofEquivalentTime bh pindex bh (ce_params env) of
                None \<Rightarrow> Inl Runtime_Error
              | Some t \<Rightarrow> Inr (if t \<le> TWO_WEEKS_IN_SECONDS then Some ''block too recent relative to best header'' else None))"

text \<open>The check against overwriting outputs looks at every output of the block.\<close>

fun bip30_outputs :: "(COutPoint \<Rightarrow> ('s, Coin option) vm) \<Rightarrow> uint256 \<Rightarrow> nat \<Rightarrow> CTxOut list \<Rightarrow> bool \<Rightarrow> ('s CCoinsViewCache, bool) vm" where
  "bip30_outputs get txid o' [] bad = returnV bad"
| "bip30_outputs get txid o' (_ # outs) bad =
     bindV (HaveCoin get \<lparr>op_hash = txid, op_n = of_nat o'\<rparr>) (\<lambda>b. bip30_outputs get txid (o' + 1) outs (bad \<or> b))"

fun bip30_txs :: "(COutPoint \<Rightarrow> ('s, Coin option) vm) \<Rightarrow> CTransaction list \<Rightarrow> bool \<Rightarrow> ('s CCoinsViewCache, bool) vm" where
  "bip30_txs get [] bad = returnV bad"
| "bip30_txs get (tx # txs) bad = bindV (bip30_outputs get (GetHash tx) 0 (vout tx) bad) (bip30_txs get txs)"

definition BIP34_IMPLIES_BIP30_LIMIT :: int where
  [const_defs]: "BIP34_IMPLIES_BIP30_LIMIT = 1983702"

definition IsBIP30Repeat :: "int \<Rightarrow> uint256 \<Rightarrow> bool" where
  "IsBIP30Repeat h hash \<longleftrightarrow>
     h = 91842 \<and> hash = rev [0x00, 0x00, 0x00, 0x00, 0x00, 0x0a, 0x4d, 0x0a, 0x39, 0x81, 0x61, 0xff, 0xc1, 0x63, 0xc5, 0x03,
       0x76, 0x3b, 0x1f, 0x43, 0x60, 0x63, 0x93, 0x93, 0xe0, 0xe4, 0xc8, 0xe3, 0x00, 0xe0, 0xca, 0xec]
     \<or> h = 91880 \<and> hash = rev [0x00, 0x00, 0x00, 0x00, 0x00, 0x07, 0x43, 0xf1, 0x90, 0xa1, 0x8c, 0x55, 0x77, 0xa3, 0xc2, 0xd2,
       0xa1, 0xf6, 0x10, 0xae, 0x96, 0x01, 0xac, 0x04, 0x6a, 0x38, 0x08, 0x4c, 0xcb, 0x7c, 0xd7, 0x21]"

definition enforce_bip30 :: "connect_env \<Rightarrow> uint256 \<Rightarrow> CBlockIndex \<Rightarrow> uint256 \<Rightarrow> bool" where
  "enforce_bip30 env hash pindex prev \<longleftrightarrow>
     (\<not> IsBIP30Repeat (nHeight pindex) hash
       \<and> (case GetAncestor (ce_index env) prev (BIP34Height (ce_params env)) of None \<Rightarrow> True | Some q \<Rightarrow> q \<noteq> BIP34Hash (ce_params env)))
     \<or> nHeight pindex \<ge> BIP34_IMPLIES_BIP30_LIMIT"

fun prev_heights :: "(COutPoint \<Rightarrow> ('s, Coin option) vm) \<Rightarrow> CTxIn list \<Rightarrow> ('s CCoinsViewCache, int list) vm" where
  "prev_heights get [] = returnV []"
| "prev_heights get (txin # ins) = bindV (AccessCoin get (prevout txin)) (\<lambda>x. bindV (prev_heights get ins) (\<lambda>hs. returnV (coin_nHeight x # hs)))"

definition consensus_reject :: "tx_reject \<Rightarrow> block_reject" where
  "consensus_reject e = (BLOCK_CONSENSUS, snd e)"

text \<open>The checks on the inputs of a transaction that is no coinbase; the result is the sum of the fees so far.\<close>

definition connect_inputs ::
  "(COutPoint \<Rightarrow> ('s, Coin option) vm) \<Rightarrow> connect_env \<Rightarrow> uint256 \<Rightarrow> int \<Rightarrow> CTransaction \<Rightarrow> CAmount \<Rightarrow> ('s CCoinsViewCache, block_reject + CAmount) vm"
where
  "connect_inputs get env hash h tx nFees =
     bindV (CheckTxInputs get tx h (coinbaseMaturity (ce_params env))) (\<lambda>r.
       case r of
         Inl e \<Rightarrow> returnV (Inl (consensus_reject e))
       | Inr txfee \<Rightarrow>
           case CheckSettlementLevy tx txfee (SettlementLevyAt (ce_params env) h) of
             Inl e \<Rightarrow> (\<lambda>_. Inl e)
           | Inr (Inl e) \<Rightarrow> returnV (Inl (consensus_reject e))
           | Inr (Inr _) \<Rightarrow>
               if \<not> MoneyRange (nFees + txfee) then returnV (Inl (BLOCK_CONSENSUS, ''bad-txns-accumulated-fee-outofrange''))
               else bindV (prev_heights get (vin tx)) (\<lambda>prevheights v.
                 case SequenceLocks tx (if h \<ge> DeploymentHeight (ce_params env) DEPLOYMENT_CSV then LOCKTIME_VERIFY_SEQUENCE else 0)
                        prevheights (ce_index env) hash of
                   Inl e \<Rightarrow> Inl e
                 | Inr b \<Rightarrow> Inr (if \<not> b then Inl (BLOCK_CONSENSUS, ''bad-txns-nonfinal'') else Inr (nFees + txfee), v)))"

definition connect_tx ::
  "(COutPoint \<Rightarrow> ('s, Coin option) vm) \<Rightarrow> connect_env \<Rightarrow> bool \<Rightarrow> uint256 \<Rightarrow> int \<Rightarrow> CTransaction \<Rightarrow> CAmount \<times> int
     \<Rightarrow> ('s CCoinsViewCache, block_reject + (CAmount \<times> int) \<times> CTxUndo) vm"
where
  "connect_tx get env fScriptChecks hash h tx acc =
     (case acc of (nFees, nSigOpsCost) \<Rightarrow>
      let flags = GetBlockScriptFlags (ce_params env) (ce_exceptions env) hash h in
      bindV (if IsCoinBase tx then returnV (Inr nFees) else connect_inputs get env hash h tx nFees) (\<lambda>r.
        case r of
          Inl e \<Rightarrow> returnV (Inl e)
        | Inr nFees \<Rightarrow> bindV (GetTransactionSigOpCost get tx flags) (\<lambda>n.
            if nSigOpsCost + n > MAX_BLOCK_SIGOPS_COST then returnV (Inl (BLOCK_CONSENSUS, ''bad-blk-sigops''))
            else bindV (if \<not> IsCoinBase tx \<and> fScriptChecks
                        then CheckInputScripts get (ce_checker env) (ce_cached env (GetWitnessHash tx) flags) tx flags
                        else returnV (Inr ())) (\<lambda>r.
              case r of
                Inl e \<Rightarrow> returnV (Inl (consensus_reject e))
              | Inr _ \<Rightarrow> bindV (UpdateCoins get tx h) (\<lambda>txundo. returnV (Inr ((nFees, nSigOpsCost + n), txundo)))))))"

fun connect_txs ::
  "(COutPoint \<Rightarrow> ('s, Coin option) vm) \<Rightarrow> connect_env \<Rightarrow> bool \<Rightarrow> uint256 \<Rightarrow> int \<Rightarrow> CTransaction list \<Rightarrow> CAmount \<times> int
     \<Rightarrow> ('s CCoinsViewCache, block_reject + (CAmount \<times> int) \<times> CBlockUndo) vm"
where
  "connect_txs get env fScriptChecks hash h [] acc = returnV (Inr (acc, []))"
| "connect_txs get env fScriptChecks hash h (tx # txs) acc =
     bindV (connect_tx get env fScriptChecks hash h tx acc) (\<lambda>r.
       case r of
         Inl e \<Rightarrow> returnV (Inl e)
       | Inr (acc, txundo) \<Rightarrow> bindV (connect_txs get env fScriptChecks hash h txs acc) (\<lambda>r.
           returnV (case r of Inl e \<Rightarrow> Inl e | Inr (acc, undos) \<Rightarrow> Inr (acc, txundo # undos))))"

text \<open>From the check against overwriting on; the undo data of the coinbase is dropped.  The value of the coinbase is computed also when
  a check before has failed.\<close>

definition connect_body ::
  "(COutPoint \<Rightarrow> ('s, Coin option) vm) \<Rightarrow> connect_env \<Rightarrow> bool \<Rightarrow> CBlock \<Rightarrow> uint256 \<Rightarrow> CBlockIndex \<Rightarrow> uint256
     \<Rightarrow> ('s CCoinsViewCache, block_reject + CBlockUndo) vm"
where
  "connect_body get env fScriptChecks block hash pindex prev =
     bindV (if enforce_bip30 env hash pindex prev then bip30_txs get (vtx block) False else returnV False) (\<lambda>bad.
     bindV (if bad then returnV (Inl (BLOCK_CONSENSUS, ''bad-txns-BIP30''))
            else connect_txs get env fScriptChecks hash (nHeight pindex) (vtx block) (0, 0)) (\<lambda>r.
       case GetValueOut (vtx block ! 0) of
         None \<Rightarrow> (\<lambda>_. Inl Runtime_Error)
       | Some value_out \<Rightarrow>
           returnV (case r of
             Inl e \<Rightarrow> Inl e
           | Inr ((nFees, _), undos) \<Rightarrow>
               if value_out > nFees + GetBlockSubsidy (nHeight pindex) (ce_params env) then Inl (BLOCK_CONSENSUS, ''bad-cb-amount'')
               else Inr (tl undos))))"

text \<open>The end of the function: a valid block that is not just checked is recorded.\<close>

definition connect_finish ::
  "connect_env \<Rightarrow> bool \<Rightarrow> uint256 \<Rightarrow> block_reject + CBlockUndo \<Rightarrow> ('s CCoinsViewCache, block_state + CBlockUndo) vm"
where
  "connect_finish env fJustCheck hash r v =
     (case r of
        Inl e \<Rightarrow> Inr (Inl (M_INVALID e), v)
      | Inr blockundo \<Rightarrow>
          if fJustCheck then Inr (Inr blockundo, v)
          else case WriteBlockUndo env blockundo of
            Some msg \<Rightarrow> Inr (Inl (M_ERROR (BLOCK_RESULT_UNSET, msg)), v)
          | None \<Rightarrow> Inr (Inr blockundo, SetBestBlock hash v))"

definition connect_checked ::
  "(COutPoint \<Rightarrow> ('s, Coin option) vm) \<Rightarrow> ('s, uint256) vm \<Rightarrow> connect_env \<Rightarrow> CBlock \<Rightarrow> uint256 \<Rightarrow> CBlockIndex \<Rightarrow> bool
     \<Rightarrow> ('s CCoinsViewCache, block_state + CBlockUndo) vm"
where
  "connect_checked get best env block hash pindex fJustCheck =
     bindV (GetBestBlock best) (\<lambda>bestHash.
       if (case pprev pindex of None \<Rightarrow> uint256_zero | Some q \<Rightarrow> q) \<noteq> bestHash then (\<lambda>_. Inl Assertion)
       else if hash = hashGenesisBlock (ce_params env) then (\<lambda>v. Inr (Inr [], if fJustCheck then v else SetBestBlock hash v))
       else case script_check_reason env hash pindex of
         Inl e \<Rightarrow> (\<lambda>_. Inl e)
       | Inr reason \<Rightarrow>
           case pprev pindex of
             None \<Rightarrow> (\<lambda>_. Inl Assertion)
           | Some prev \<Rightarrow> bindV (connect_body get env (reason \<noteq> None) block hash pindex prev) (connect_finish env fJustCheck hash))"

definition ConnectBlock ::
  "(COutPoint \<Rightarrow> ('s, Coin option) vm) \<Rightarrow> ('s, uint256) vm \<Rightarrow> connect_env \<Rightarrow> bool \<Rightarrow> CBlock \<Rightarrow> uint256 \<Rightarrow> bool \<Rightarrow> CacheState
     \<Rightarrow> 's CCoinsViewCache \<Rightarrow> (coins_fail + (block_state + CBlockUndo) \<times> 's CCoinsViewCache) \<times> CacheState"
where
  "ConnectBlock get best env fuzz block hash fJustCheck st v =
     (case ce_index env hash of
        None \<Rightarrow> (Inl Assertion, st)
      | Some pindex \<Rightarrow>
          if hash \<noteq> BlockHash (header block) then (Inl Assertion, st)
          else case CheckBlock fuzz block (ce_params env) (\<not> fJustCheck) (\<not> fJustCheck) st of
            (Inl e, st') \<Rightarrow> (Inl e, st')
          | (Inr (Inl e), st') \<Rightarrow> (Inr (Inl (if fst e = BLOCK_MUTATED then M_ERROR e else M_INVALID e), v), st')
          | (Inr (Inr _), st') \<Rightarrow> (connect_checked get best env block hash pindex fJustCheck v, st'))"

section \<open>Disconnecting a block\<close>

datatype DisconnectResult = DISCONNECT_OK | DISCONNECT_UNCLEAN | DISCONNECT_FAILED

definition MIN_TRANSACTION_OUTPUT_WEIGHT :: nat where
  [const_defs]: "MIN_TRANSACTION_OUTPUT_WEIGHT = nat WITNESS_SCALE_FACTOR * length (ser_txout CTxOut_null)"

definition MAX_OUTPUTS_PER_BLOCK :: nat where
  [const_defs]: "MAX_OUTPUTS_PER_BLOCK = nat MAX_BLOCK_WEIGHT div MIN_TRANSACTION_OUTPUT_WEIGHT"

function access_by_txid :: "(COutPoint \<Rightarrow> ('s, Coin option) vm) \<Rightarrow> uint256 \<Rightarrow> nat \<Rightarrow> ('s CCoinsViewCache, Coin) vm" where
  "access_by_txid get txid n v =
     (if n < MAX_OUTPUTS_PER_BLOCK
      then bindV (AccessCoin get \<lparr>op_hash = txid, op_n = of_nat n\<rparr>) (\<lambda>alternate v. if \<not> IsSpent alternate then Inr (alternate, v) else access_by_txid get txid (n + 1) v) v
      else Inr (coinEmpty, v))"
  by pat_completeness auto
termination
  by (relation "measure (\<lambda>(get, txid, n, v). MAX_OUTPUTS_PER_BLOCK - n)") auto

declare access_by_txid.simps [simp del]

definition AccessByTxid :: "(COutPoint \<Rightarrow> ('s, Coin option) vm) \<Rightarrow> uint256 \<Rightarrow> ('s CCoinsViewCache, Coin) vm" where
  "AccessByTxid get txid = access_by_txid get txid 0"

definition ApplyTxInUndo :: "(COutPoint \<Rightarrow> ('s, Coin option) vm) \<Rightarrow> Coin \<Rightarrow> COutPoint \<Rightarrow> ('s CCoinsViewCache, DisconnectResult) vm" where
  "ApplyTxInUndo get undo out =
     bindV (HaveCoin get out) (\<lambda>have_coin.
       let fClean = \<not> have_coin in
       bindV (if coin_nHeight undo = 0
              then bindV (AccessByTxid get (op_hash out)) (\<lambda>alternate.
                returnV (if IsSpent alternate then None else Some (undo\<lparr>coin_nHeight := coin_nHeight alternate, fCoinBase := fCoinBase alternate\<rparr>)))
              else returnV (Some undo)) (\<lambda>u.
         case u of
           None \<Rightarrow> returnV DISCONNECT_FAILED
         | Some undo \<Rightarrow> bindV (AddCoin out undo (\<not> fClean)) (\<lambda>_. returnV (if fClean then DISCONNECT_OK else DISCONNECT_UNCLEAN))))"

fun undo_outputs ::
  "(COutPoint \<Rightarrow> ('s, Coin option) vm) \<Rightarrow> uint256 \<Rightarrow> int \<Rightarrow> bool \<Rightarrow> bool \<Rightarrow> nat \<Rightarrow> CTxOut list \<Rightarrow> bool \<Rightarrow> ('s CCoinsViewCache, bool) vm"
where
  "undo_outputs get txid h is_coinbase is_bip30_exception i [] fClean = returnV fClean"
| "undo_outputs get txid h is_coinbase is_bip30_exception i (txout # outs) fClean =
     (if IsUnspendable (scriptPubKey txout) then undo_outputs get txid h is_coinbase is_bip30_exception (i + 1) outs fClean
      else bindV (SpendCoin get \<lparr>op_hash = txid, op_n = of_nat i\<rparr>) (\<lambda>r.
        let good = (case r of None \<Rightarrow> False | Some x \<Rightarrow> coin_out x = txout \<and> coin_nHeight x = h \<and> fCoinBase x = is_coinbase)
        in undo_outputs get txid h is_coinbase is_bip30_exception (i + 1) outs (fClean \<and> (good \<or> is_bip30_exception))))"

text \<open>The inputs from the last to the first; \<open>None\<close> is \<^verbatim>\<open>DISCONNECT_FAILED\<close>.\<close>

fun undo_inputs :: "(COutPoint \<Rightarrow> ('s, Coin option) vm) \<Rightarrow> (CTxIn \<times> Coin) list \<Rightarrow> bool \<Rightarrow> ('s CCoinsViewCache, bool option) vm" where
  "undo_inputs get [] fClean = returnV (Some fClean)"
| "undo_inputs get ((txin, undo) # rest) fClean =
     bindV (ApplyTxInUndo get undo (prevout txin)) (\<lambda>res.
       if res = DISCONNECT_FAILED then returnV None else undo_inputs get rest (fClean \<and> res \<noteq> DISCONNECT_UNCLEAN))"

definition disconnect_tx ::
  "(COutPoint \<Rightarrow> ('s, Coin option) vm) \<Rightarrow> int \<Rightarrow> bool \<Rightarrow> CTransaction \<times> CTxUndo option \<Rightarrow> bool \<Rightarrow> ('s CCoinsViewCache, bool option) vm"
where
  "disconnect_tx get h fEnforceBIP30 txu fClean =
     (case txu of (tx, u) \<Rightarrow>
        bindV (undo_outputs get (GetHash tx) h (IsCoinBase tx) (IsCoinBase tx \<and> \<not> fEnforceBIP30) 0 (vout tx) fClean) (\<lambda>fClean.
          case u of
            None \<Rightarrow> returnV (Some fClean)
          | Some txundo \<Rightarrow>
              if length txundo \<noteq> length (vin tx) then returnV None
              else undo_inputs get (rev (zip (vin tx) txundo)) fClean))"

fun disconnect_txs ::
  "(COutPoint \<Rightarrow> ('s, Coin option) vm) \<Rightarrow> int \<Rightarrow> bool \<Rightarrow> (CTransaction \<times> CTxUndo option) list \<Rightarrow> bool \<Rightarrow> ('s CCoinsViewCache, bool option) vm"
where
  "disconnect_txs get h fEnforceBIP30 [] fClean = returnV (Some fClean)"
| "disconnect_txs get h fEnforceBIP30 (txu # rest) fClean =
     bindV (disconnect_tx get h fEnforceBIP30 txu fClean) (\<lambda>r. case r of None \<Rightarrow> returnV None | Some fClean \<Rightarrow> disconnect_txs get h fEnforceBIP30 rest fClean)"

definition IsBIP30Unspendable :: "uint256 \<Rightarrow> int \<Rightarrow> bool" where
  "IsBIP30Unspendable hash h \<longleftrightarrow>
     h = 91722 \<and> hash = rev [0x00, 0x00, 0x00, 0x00, 0x00, 0x02, 0x71, 0xa2, 0xdc, 0x26, 0xe7, 0x66, 0x7f, 0x84, 0x19, 0xf2,
       0xe1, 0x54, 0x16, 0xdc, 0x69, 0x55, 0xe5, 0xa6, 0xc6, 0xcd, 0xf3, 0xf2, 0x57, 0x4d, 0xd0, 0x8e]
     \<or> h = 91812 \<and> hash = rev [0x00, 0x00, 0x00, 0x00, 0x00, 0x0a, 0xf0, 0xae, 0xd4, 0x79, 0x2b, 0x1a, 0xce, 0xe3, 0xd9, 0x66,
       0xaf, 0x36, 0xcf, 0x5d, 0xef, 0x14, 0x93, 0x5d, 0xb8, 0xde, 0x83, 0xd6, 0xf9, 0x30, 0x6f, 0x2f]"

text \<open>The undo data is what was read from disk, if that succeeded.  A block without a predecessor is never disconnected; the source
  would follow a null pointer there.\<close>

definition DisconnectBlock ::
  "(COutPoint \<Rightarrow> ('s, Coin option) vm) \<Rightarrow> CBlock \<Rightarrow> CBlockUndo option \<Rightarrow> uint256 \<Rightarrow> CBlockIndex \<Rightarrow> ('s CCoinsViewCache, DisconnectResult) vm"
where
  "DisconnectBlock get block blockUndo hash pindex =
     (case blockUndo of
        None \<Rightarrow> returnV DISCONNECT_FAILED
      | Some vtxundo \<Rightarrow>
          if length vtxundo + 1 \<noteq> length (vtx block) then returnV DISCONNECT_FAILED
          else bindV (disconnect_txs get (nHeight pindex) (\<not> IsBIP30Unspendable hash (nHeight pindex)) (rev (zip (vtx block) (None # map Some vtxundo))) True)
            (\<lambda>r v. case r of
               None \<Rightarrow> Inr (DISCONNECT_FAILED, v)
             | Some fClean \<Rightarrow>
                 case pprev pindex of
                   None \<Rightarrow> Inl Assertion
                 | Some q \<Rightarrow> Inr (if fClean then DISCONNECT_OK else DISCONNECT_UNCLEAN, SetBestBlock q v)))"

end
