(* ===== verification/Connect_Ledger.thy ===== *)
theory Connect_Ledger
  imports Connect_Block
begin

text \<open>
  What connecting and disconnecting a block does to the coins, as a relation between maps (the ledger), and that the code of
  \<open>Connect_Block\<close>, which works through caches, implements it.
\<close>

section \<open>A logic for operations on a cache\<close>

type_synonym ledger = "COutPoint \<Rightarrow> Coin option"

text \<open>Whenever the operation returns from a state with the invariant, the invariant holds again and the result and the two ledgers are
  related.\<close>

definition runs :: "('v \<Rightarrow> bool) \<Rightarrow> ('v \<Rightarrow> ledger) \<Rightarrow> ('v, 'a) vm \<Rightarrow> (ledger \<Rightarrow> 'a \<Rightarrow> ledger \<Rightarrow> bool) \<Rightarrow> bool" where
  "runs I A m Q \<longleftrightarrow> (\<forall>c r c'. I c \<longrightarrow> m c = Inr (r, c') \<longrightarrow> I c' \<and> Q (A c) r (A c'))"

abbreviation reads :: "('v \<Rightarrow> bool) \<Rightarrow> ('v \<Rightarrow> ledger) \<Rightarrow> ('v, 'a) vm \<Rightarrow> bool" where
  "reads I A m \<equiv> runs I A m (\<lambda>a r b. b = a)"

named_theorems reads_intros \<open>operations that leave the ledger as it is\<close>

lemma runsD: "runs I A m Q \<Longrightarrow> I c \<Longrightarrow> m c = Inr (r, c') \<Longrightarrow> I c' \<and> Q (A c) r (A c')"
  by (simp add: runs_def)

lemma runs_mono: "runs I A m Q \<Longrightarrow> (\<And>a r b. Q a r b \<Longrightarrow> Q' a r b) \<Longrightarrow> runs I A m Q'"
  unfolding runs_def by blast

lemma runs_bind:
  assumes "runs I A m Q1" "\<And>x. runs I A (f x) (Q2 x)" "\<And>a x a' r b. Q1 a x a' \<Longrightarrow> Q2 x a' r b \<Longrightarrow> Q a r b"
  shows "runs I A (bindV m f) Q"
  unfolding runs_def bindV_Inr using assms(3) runsD [OF assms(1)] runsD [OF assms(2)] by meson

lemma runs_return: "(\<And>a. Q a x a) \<Longrightarrow> runs I A (returnV x) Q"
  by (simp add: runs_def returnV_def)

lemma bindV_return: "bindV (returnV x) f = f x"
  by (simp add: bindV_def returnV_def fun_eq_iff)

lemma runs_fail [reads_intros]: "runs I A (\<lambda>_. Inl e) Q"
  by (simp add: runs_def)

lemma runs_pure: "(\<And>a x. f = Inr x \<Longrightarrow> Q a (g x) a) \<Longrightarrow> runs I A (\<lambda>v. case f of Inl e \<Rightarrow> Inl e | Inr x \<Rightarrow> Inr (g x, v)) Q"
  by (auto simp: runs_def split: sum.splits)

lemma runs_sum: "(\<And>e. r = Inl e \<Longrightarrow> runs I A (f e) Q) \<Longrightarrow> (\<And>x. r = Inr x \<Longrightarrow> runs I A (g x) Q) \<Longrightarrow> runs I A (case r of Inl e \<Rightarrow> f e | Inr x \<Rightarrow> g x) Q"
  by (cases r) auto

lemma runs_if: "(b \<Longrightarrow> runs I A f Q) \<Longrightarrow> (\<not> b \<Longrightarrow> runs I A g Q) \<Longrightarrow> runs I A (if b then f else g) Q"
  by simp

lemma runs_after_read: "reads I A m \<Longrightarrow> (\<And>x. runs I A (f x) Q) \<Longrightarrow> runs I A (bindV m f) Q"
  by (erule runs_bind) auto

lemmas runs_intros = runs_sum runs_if runs_after_read

lemma reads_return [reads_intros]: "reads I A (returnV x)"
  by (rule runs_return) simp

lemma reads_bind [reads_intros]: "reads I A m \<Longrightarrow> (\<And>x. reads I A (f x)) \<Longrightarrow> reads I A (bindV m f)"
  by (erule runs_bind) auto

section \<open>Caches whose outputs are settled\<close>

text \<open>A cache is settled for an outpoint when it has an entry for it or the view below has no coin there.  Then adding a coin without
  permission to overwrite fails exactly when there is one.\<close>

definition settled :: "('s \<Rightarrow> ledger) \<Rightarrow> COutPoint set \<Rightarrow> 's CCoinsViewCache \<Rightarrow> bool" where
  "settled coins P c \<longleftrightarrow> (\<forall>p\<in>P. coins (base c) p = None \<or> cacheCoins c p \<noteq> None)"

abbreviation settled_ok :: "('s \<Rightarrow> bool) \<Rightarrow> ('s \<Rightarrow> ledger) \<Rightarrow> COutPoint set \<Rightarrow> 's CCoinsViewCache \<Rightarrow> bool" where
  "settled_ok ok coins P c \<equiv> cache_ok ok coins c \<and> settled coins P c"

section \<open>The ledger\<close>

text \<open>Adding the outputs of a transaction from position \<open>i\<close> on, and whether each of them finds its place free.\<close>

fun add_outputs :: "uint256 \<Rightarrow> int \<Rightarrow> bool \<Rightarrow> nat \<Rightarrow> CTxOut list \<Rightarrow> ledger \<Rightarrow> ledger" where
  "add_outputs txid h cb i [] m = m"
| "add_outputs txid h cb i (out # outs) m =
     add_outputs txid h cb (i + 1) outs (if IsUnspendable (scriptPubKey out) then m else m(\<lparr>op_hash = txid, op_n = of_nat i\<rparr> := Some (mkCoin out h cb)))"

fun outputs_free :: "uint256 \<Rightarrow> int \<Rightarrow> bool \<Rightarrow> nat \<Rightarrow> CTxOut list \<Rightarrow> ledger \<Rightarrow> bool" where
  "outputs_free txid h cb i [] m = True"
| "outputs_free txid h cb i (out # outs) m =
     (if IsUnspendable (scriptPubKey out) then outputs_free txid h cb (i + 1) outs m
      else m \<lparr>op_hash = txid, op_n = of_nat i\<rparr> = None
        \<and> outputs_free txid h cb (i + 1) outs (m(\<lparr>op_hash = txid, op_n = of_nat i\<rparr> := Some (mkCoin out h cb))))"

text \<open>The outpoints a transaction spends and creates, and the value of coins and outputs.\<close>

definition spends :: "CTransaction \<Rightarrow> COutPoint set" where
  "spends tx = prevout ` set (vin tx)"

definition outpoints :: "CTransaction \<Rightarrow> COutPoint set" where
  "outpoints tx = {\<lparr>op_hash = GetHash tx, op_n = of_nat i\<rparr> |i. i < length (vout tx)}"

lemma outpoints_image: "outpoints tx = (\<lambda>k. \<lparr>op_hash = GetHash tx, op_n = of_nat k\<rparr>) ` {0..<0 + length (vout tx)}"
  by (auto simp: outpoints_def)

definition value_of :: "Coin list \<Rightarrow> CAmount" where
  "value_of xs = (\<Sum>x\<leftarrow>xs. nValue (coin_out x))"

lemma value_of_simps [simp]: "value_of [] = 0" "value_of (x # xs) = nValue (coin_out x) + value_of xs"
  by (simp_all add: value_of_def)

text \<open>A transaction of a block at height \<open>h\<close> takes one ledger to another, with a fee and the coins it spends.\<close>

definition tx_applied :: "int \<Rightarrow> CTransaction \<Rightarrow> ledger \<Rightarrow> CAmount \<Rightarrow> CTxUndo \<Rightarrow> ledger \<Rightarrow> bool" where
  "tx_applied h tx m fee undo m' \<longleftrightarrow>
     (if IsCoinBase tx then fee = 0 \<and> undo = [] \<and> m' = add_outputs (GetHash tx) h True 0 (vout tx) m
      else map (\<lambda>txin. m (prevout txin)) (vin tx) = map Some undo
        \<and> (\<exists>v. GetValueOut tx = Some v \<and> v \<le> value_of undo \<and> fee = value_of undo - v)
        \<and> outputs_free (GetHash tx) h False 0 (vout tx) (m |` (- spends tx))
        \<and> m' = add_outputs (GetHash tx) h False 0 (vout tx) (m |` (- spends tx)))"

fun txs_applied :: "int \<Rightarrow> CTransaction list \<Rightarrow> ledger \<Rightarrow> CAmount \<Rightarrow> CBlockUndo \<Rightarrow> ledger \<Rightarrow> bool" where
  "txs_applied h [] m fees undos m' \<longleftrightarrow> fees = 0 \<and> undos = [] \<and> m' = m"
| "txs_applied h (tx # txs) m fees undos m' \<longleftrightarrow>
     (\<exists>fee undo undos' m1. undos = undo # undos' \<and> tx_applied h tx m fee undo m1 \<and> txs_applied h txs m1 (fees - fee) undos' m')"

text \<open>A block at height \<open>h\<close>: one coinbase at the front, all outpoints free, and the coinbase pays at most the fees and the subsidy.\<close>

definition tx_sane :: "CTransaction \<Rightarrow> bool" where
  "tx_sane tx \<longleftrightarrow> distinct (map prevout (vin tx)) \<and> (\<forall>out\<in>set (vout tx). 0 \<le> nValue out) \<and> length (vout tx) < 2 ^ 32"

definition block_applied :: "Params \<Rightarrow> int \<Rightarrow> CBlock \<Rightarrow> ledger \<Rightarrow> CBlockUndo \<Rightarrow> ledger \<Rightarrow> bool" where
  "block_applied p h block m undo m' \<longleftrightarrow>
     (\<exists>cb txs fees v. vtx block = cb # txs \<and> IsCoinBase cb \<and> (\<forall>tx\<in>set txs. \<not> IsCoinBase tx) \<and> (\<forall>tx\<in>set (cb # txs). tx_sane tx)
        \<and> (\<forall>tx\<in>set (cb # txs). \<forall>q\<in>outpoints tx. m q = None)
        \<and> txs_applied h (cb # txs) m fees ([] # undo) m' \<and> GetValueOut cb = Some v \<and> v \<le> fees + GetBlockSubsidy h p)"

text \<open>What the context-free check of a block ensures.\<close>

lemma check_transactions_Inr: "check_transactions pv2 mv txs = Inr (Inr ()) \<longleftrightarrow> (\<forall>tx\<in>set txs. CheckTransaction tx pv2 mv = Inr ())"
  by (induction txs) (auto split: sum.splits if_splits)

lemma CheckTransaction_sane:
  assumes "CheckTransaction tx pv2 mv = Inr ()"
  shows "tx_sane tx"
proof -
  have "int (length (vout tx)) \<le> int (length (SerializeTransaction False tx))" using length_vout_le [of tx] by simp
  moreover have "int (length (SerializeTransaction False tx)) * WITNESS_SCALE_FACTOR \<le> MAX_BLOCK_WEIGHT"
    by (rule CheckTransaction_outputs(4) [OF assms])
  ultimately show ?thesis using CheckTransaction_outputs(2,3) [OF assms]
    by (simp add: tx_sane_def WITNESS_SCALE_FACTOR_def MAX_BLOCK_WEIGHT_def)
qed

lemma CheckBlock_sane:
  assumes "CheckBlock fuzz block p pow root st = (Inr (Inr ()), st')"
  obtains cb txs where "vtx block = cb # txs" "IsCoinBase cb" "\<forall>tx\<in>set txs. \<not> IsCoinBase tx" "\<forall>tx\<in>set (cb # txs). tx_sane tx"
proof -
  have c: "check_block_txs block p = Inr (Inr ())"
    using assms by (auto simp: CheckBlock_def split: prod.splits sum.splits if_splits)
  then obtain cb txs where v: "vtx block = cb # txs" by (cases "vtx block") (auto simp: check_block_txs_def)
  have "IsCoinBase cb" "\<forall>tx\<in>set txs. \<not> IsCoinBase tx"
    using c v by (auto simp: check_block_txs_def list_ex_iff split: if_splits)
  moreover obtain pv2 mv where "check_transactions pv2 mv (vtx block) = Inr (Inr ())"
    using c by (auto simp: check_block_txs_def Let_def bindR_Inr split: if_splits)
  ultimately show ?thesis using v that CheckTransaction_sane unfolding check_transactions_Inr by metis
qed

text \<open>The assertion on rejected transactions holds.\<close>

lemma check_transactions_no_assertion: "check_transactions pv2 mv txs \<noteq> Inl e"
  by (induction txs) (auto split: sum.splits dest: CheckTransaction_consensus)

lemma CheckBlock_no_assertion: "fst (CheckBlock fuzz block p pow root st) \<noteq> Inl e"
  using check_transactions_no_assertion by (auto simp: CheckBlock_def check_block_txs_def Let_def bindR_def split: prod.splits sum.splits if_splits)

context coins_view
begin

lemma FetchCoin_settled:
  assumes "settled_ok ok coins P c" "FetchCoin get p c = Inr (r, c')"
  shows "settled coins (insert p P) c'"
proof (cases "cacheCoins c p")
  case (Some e)
  then show ?thesis using assms by (auto simp: FetchCoin_def settled_def)
next
  case None
  obtain b where "get p (base c) = Inr (coins (base c) p, b)" "coins b = coins (base c)"
    using assms(1) view_get [of "base c" p] by (auto simp: cache_ok_def)
  then show ?thesis using assms None
    by (auto simp: FetchCoin_def settled_def on_base_def bindV_def Let_def split: option.splits if_splits)
qed

lemma reader_settled:
  assumes "settled_ok ok coins P c" "HaveCoin get p c = Inr (b, c') \<or> AccessCoin get p c = Inr (x, c')"
  shows "settled coins (insert p P) c'"
  using assms FetchCoin_settled [OF assms(1), of p]
  by (auto simp: HaveCoin_def AccessCoin_def bindV_Inr returnV_def)

lemma settled_mono: "settled coins P c \<Longrightarrow> Q \<subseteq> P \<Longrightarrow> settled coins Q c"
  by (auto simp: settled_def)

lemma HaveCoin_runs: "runs (settled_ok ok coins P) (coins_over coins) (HaveCoin get p) (\<lambda>a r b. b = a \<and> r = (a p \<noteq> None))"
  unfolding runs_def
proof (intro allI impI)
  fix c r c'
  assume a: "settled_ok ok coins P c" "HaveCoin get p c = Inr (r, c')"
  with readers_ok(2) [of c p] reader_settled [OF a(1), of p] show
    "settled_ok ok coins P c' \<and> coins_over coins c' = coins_over coins c \<and> r = (coins_over coins c p \<noteq> None)"
    by (auto intro: settled_mono)
qed

lemma AccessCoin_runs:
  "runs (settled_ok ok coins P) (coins_over coins) (AccessCoin get p) (\<lambda>a r b. b = a \<and> (case a p of Some y \<Rightarrow> r = y | None \<Rightarrow> IsSpent r))"
  unfolding runs_def
proof (intro allI impI)
  fix c r c'
  assume a: "settled_ok ok coins P c" "AccessCoin get p c = Inr (r, c')"
  with readers_ok(3) [of c p] reader_settled [OF a(1), of p] show
    "settled_ok ok coins P c' \<and> coins_over coins c' = coins_over coins c
       \<and> (case coins_over coins c p of Some y \<Rightarrow> r = y | None \<Rightarrow> IsSpent r)"
    by (auto intro: settled_mono)
qed

lemma readers_read [reads_intros]:
  "reads (settled_ok ok coins P) (coins_over coins) (HaveCoin get p)" "reads (settled_ok ok coins P) (coins_over coins) (AccessCoin get p)"
  by (rule runs_mono [OF HaveCoin_runs], simp) (rule runs_mono [OF AccessCoin_runs], simp)

lemma access_unspent_runs: "runs (settled_ok ok coins P) (coins_over coins) (access_unspent get p) (\<lambda>a r b. b = a \<and> a p = Some r)"
  unfolding access_unspent_def
  by (rule runs_bind [OF AccessCoin_runs, where ?Q2.0 = "\<lambda>x a r b. b = a \<and> r = x \<and> \<not> IsSpent x"])
    (auto simp: runs_def split: option.splits if_splits)

lemma access_unspent_reads [reads_intros]: "reads (settled_ok ok coins P) (coins_over coins) (access_unspent get p)"
  by (rule runs_mono [OF access_unspent_runs]) simp

lemma SpendCoin_settled:
  assumes "settled_ok ok coins P c" "SpendCoin get p c = Inr (r, c')"
  shows "settled coins P c'"
proof -
  obtain c1 where c1: "FetchCoin get p c = Inr (cacheCoins c1 p, c1)" "cache_ok ok coins c1"
    using FetchCoin_ok [of c p] assms(1) by metis
  have st: "settled coins (insert p P) c1" by (rule FetchCoin_settled [OF assms(1) c1(1)])
  show ?thesis
  proof (cases "cacheCoins c1 p")
    case None
    then show ?thesis using assms(2) c1 st by (auto simp: SpendCoin_def intro: settled_mono)
  next
    case (Some e)
    have "IsFresh e \<Longrightarrow> coins (base c1) p = None" using entry_ok_of [OF c1(2) Some] by (simp add: Coins.entry_ok_def)
    then show ?thesis using assms(2) c1(1) Some st
      by (auto simp: SpendCoin_def settled_def Let_def split: if_splits)
  qed
qed

lemma SpendCoin_runs:
  "runs (settled_ok ok coins P) (coins_over coins) (SpendCoin get p)
     (\<lambda>a r b. b = a(p := None) \<and> (case r of None \<Rightarrow> a p = None | Some x \<Rightarrow> a p = (if IsSpent x then None else Some x)))"
  unfolding runs_def
proof (intro allI impI)
  fix c r c'
  assume a: "settled_ok ok coins P c" "SpendCoin get p c = Inr (r, c')"
  have "settled coins P c'" by (rule SpendCoin_settled [OF a])
  with SpendCoin_ok [of c p] a show "settled_ok ok coins P c' \<and> coins_over coins c' = (coins_over coins c)(p := None)
    \<and> (case r of None \<Rightarrow> coins_over coins c p = None | Some x \<Rightarrow> coins_over coins c p = (if IsSpent x then None else Some x))"
    by auto
qed

lemma AddCoin_runs:
  assumes "p \<in> P"
  shows "runs (settled_ok ok coins P) (coins_over coins) (AddCoin p x overwrite)
    (\<lambda>a r b. \<not> IsSpent x \<and> (if IsUnspendable (scriptPubKey (coin_out x)) then b = a else (overwrite \<or> a p = None) \<and> b = a(p := Some x)))"
  unfolding runs_def
proof (intro allI impI)
  fix c r c'
  assume a: "settled_ok ok coins P c" "AddCoin p x overwrite c = Inr (r, c')"
  have x: "\<not> IsSpent x" using a(2) by (auto simp: AddCoin_def split: if_splits)
  have st: "settled coins P c'" using a
    by (auto simp: AddCoin_def settled_def Let_def split: if_splits)
  have free: "overwrite \<or> IsUnspendable (scriptPubKey (coin_out x)) \<or> coins_over coins c p = None"
    using a assms by (auto simp: AddCoin_def settled_def coins_over_def unspent_coin_def Let_def split: if_splits option.splits)
  show "settled_ok ok coins P c' \<and> \<not> IsSpent x \<and> (if IsUnspendable (scriptPubKey (coin_out x)) then coins_over coins c' = coins_over coins c
    else (overwrite \<or> coins_over coins c p = None) \<and> coins_over coins c' = (coins_over coins c)(p := Some x))"
  proof (cases "IsUnspendable (scriptPubKey (coin_out x))")
    case True
    then show ?thesis using a x by (simp add: AddCoin_def)
  next
    case False
    then show ?thesis using AddCoin_ok [of c x overwrite p] a x st free by auto
  qed
qed

text \<open>Functions that only read.\<close>

lemma p2sh_sigops_reads [reads_intros]: "reads (settled_ok ok coins P) (coins_over coins) (p2sh_sigops get ins n)"
  by (induction ins arbitrary: n) (auto intro!: reads_intros)

lemma witness_sigops_reads [reads_intros]: "reads (settled_ok ok coins P) (coins_over coins) (witness_sigops get flags ins n)"
  by (induction ins arbitrary: n) (auto intro!: reads_intros split: sum.split)

lemma GetTransactionSigOpCost_reads [reads_intros]: "reads (settled_ok ok coins P) (coins_over coins) (GetTransactionSigOpCost get tx flags)"
  by (auto simp: GetTransactionSigOpCost_def GetP2SHSigOpCount_def Let_def intro!: reads_intros)

lemma prev_heights_reads [reads_intros]: "reads (settled_ok ok coins P) (coins_over coins) (prev_heights get ins)"
  by (induction ins) (auto intro!: reads_intros)

lemma spent_outputs_reads [reads_intros]: "reads (settled_ok ok coins P) (coins_over coins) (spent_outputs get ins)"
  by (induction ins) (auto intro!: reads_intros)

lemma CheckInputScripts_reads [reads_intros]: "reads (settled_ok ok coins P) (coins_over coins) (CheckInputScripts get checker cached tx flags)"
  unfolding CheckInputScripts_def by (auto intro!: reads_intros runs_pure)

lemma have_inputs_loop_reads [reads_intros]: "reads (settled_ok ok coins P) (coins_over coins) (have_inputs_loop get ins)"
  by (induction ins) (auto intro!: reads_intros)

text \<open>The inputs of a transaction: the coins are there and their values add up.\<close>

lemma value_in_loop_runs:
  "runs (settled_ok ok coins P) (coins_over coins) (value_in_loop get h mat ins n)
     (\<lambda>a r b. b = a \<and> (\<forall>v. r = Inr v \<longrightarrow> (\<exists>xs. map (\<lambda>txin. a (prevout txin)) ins = map Some xs \<and> v = n + value_of xs)))"
proof (induction ins arbitrary: n)
  case Nil
  show ?case by (auto intro!: runs_return)
next
  case (Cons txin ins)
  let ?Q = "\<lambda>x a r b. b = a \<and> (\<forall>v. r = Inr v \<longrightarrow> (\<exists>xs. map (\<lambda>txin. a (prevout txin)) ins = map Some xs \<and> v = n + nValue (coin_out x) + value_of xs))"
  show ?case unfolding value_in_loop.simps
  proof (rule runs_bind [OF access_unspent_runs, where ?Q2.0 = ?Q])
    show "runs (settled_ok ok coins P) (coins_over coins)
       (if fCoinBase x \<and> h - coin_nHeight x < mat then returnV (Inl (TX_PREMATURE_SPEND, ''bad-txns-premature-spend-of-coinbase''))
        else if \<not> MoneyRange (nValue (coin_out x)) \<or> \<not> MoneyRange (n + nValue (coin_out x)) then returnV (Inl (TX_CONSENSUS, ''bad-txns-inputvalues-outofrange''))
        else value_in_loop get h mat ins (n + nValue (coin_out x))) (?Q x)" for x
      using Cons.IH [of "n + nValue (coin_out x)"] by (auto intro!: runs_return)
  next
    fix a b x a' r
    assume "a' = a \<and> a (prevout txin) = Some x" "?Q x a' r b"
    moreover have "\<exists>xs'. Some x # map Some xs = map Some xs' \<and> n + nValue (coin_out x) + value_of xs = n + value_of xs'" for xs
      by (rule exI [of _ "x # xs"]) simp
    ultimately show "b = a \<and> (\<forall>v. r = Inr v \<longrightarrow> (\<exists>xs. map (\<lambda>txin. a (prevout txin)) (txin # ins) = map Some xs \<and> v = n + value_of xs))"
      by auto
  qed
qed

lemma CheckTxInputs_runs:
  "runs (settled_ok ok coins P) (coins_over coins) (CheckTxInputs get tx h mat)
     (\<lambda>a r b. b = a \<and> (\<forall>fee. r = Inr fee \<longrightarrow> (\<exists>xs v. map (\<lambda>txin. a (prevout txin)) (vin tx) = map Some xs
        \<and> GetValueOut tx = Some v \<and> v \<le> value_of xs \<and> fee = value_of xs - v)))"
proof -
  let ?I = "settled_ok ok coins P" and ?A = "coins_over coins"
  let ?Q = "\<lambda>a r b. b = a \<and> (\<forall>fee. r = Inr fee \<longrightarrow> (\<exists>xs v. map (\<lambda>txin. a (prevout txin)) (vin tx) = map Some xs
        \<and> GetValueOut tx = Some v \<and> v \<le> value_of xs \<and> fee = value_of xs - v))"
  let ?R = "\<lambda>q a r b. b = a \<and> (\<forall>fee. r = Inr fee \<longrightarrow> (\<exists>n v. q = Inr n \<and> GetValueOut tx = Some v \<and> v \<le> n \<and> fee = n - v))"
  have have_in: "reads ?I ?A (HaveInputs get tx)" by (auto simp: HaveInputs_def intro!: reads_intros)
  have rest: "runs ?I ?A (case q of Inl e \<Rightarrow> returnV (Inl e) | Inr nValueIn \<Rightarrow>
             case GetValueOut tx of None \<Rightarrow> (\<lambda>_. Inl Runtime_Error) | Some value_out \<Rightarrow>
                 if nValueIn < value_out then returnV (Inl (TX_CONSENSUS, ''bad-txns-in-belowout''))
                 else if \<not> MoneyRange (nValueIn - value_out) then returnV (Inl (TX_CONSENSUS, ''bad-txns-fee-outofrange''))
                 else returnV (Inr (nValueIn - value_out))) (?R q)" for q
    by (cases q; cases "GetValueOut tx") (auto intro!: runs_return runs_fail)
  have "runs ?I ?A (bindV (value_in_loop get h mat (vin tx) 0) (\<lambda>q. case q of Inl e \<Rightarrow> returnV (Inl e) | Inr nValueIn \<Rightarrow>
             case GetValueOut tx of None \<Rightarrow> (\<lambda>_. Inl Runtime_Error) | Some value_out \<Rightarrow>
                 if nValueIn < value_out then returnV (Inl (TX_CONSENSUS, ''bad-txns-in-belowout''))
                 else if \<not> MoneyRange (nValueIn - value_out) then returnV (Inl (TX_CONSENSUS, ''bad-txns-fee-outofrange''))
                 else returnV (Inr (nValueIn - value_out)))) ?Q"
    by (rule runs_bind [OF value_in_loop_runs rest]) fastforce
  then show ?thesis unfolding CheckTxInputs_def
    by (intro runs_bind [OF have_in, where ?Q2.0 = "\<lambda>_. ?Q"]) (auto intro!: runs_return)
qed

text \<open>Spending the inputs and adding the outputs.\<close>

lemma spend_inputs_runs:
  "runs (settled_ok ok coins P) (coins_over coins) (spend_inputs get ins)
     (\<lambda>a us b. b = a |` (- prevout ` set ins)
        \<and> (\<forall>xs. distinct (map prevout ins) \<longrightarrow> map (\<lambda>txin. a (prevout txin)) ins = map Some xs \<longrightarrow> us = xs))"
proof (induction ins)
  case Nil
  show ?case by (auto intro!: runs_return)
next
  case (Cons txin ins)
  let ?Q = "\<lambda>q a us b. \<exists>x ys. q = Some x \<and> us = x # ys \<and> b = a |` (- prevout ` set ins)
     \<and> (\<forall>xs. distinct (map prevout ins) \<longrightarrow> map (\<lambda>txin. a (prevout txin)) ins = map Some xs \<longrightarrow> ys = xs)"
  show ?case unfolding spend_inputs.simps
  proof (rule runs_bind [OF SpendCoin_runs, where ?Q2.0 = ?Q])
    show "runs (settled_ok ok coins P) (coins_over coins)
       (case q of None \<Rightarrow> \<lambda>_. Inl Assertion | Some x \<Rightarrow> bindV (spend_inputs get ins) (\<lambda>xs. returnV (x # xs))) (?Q q)" for q
      by (cases q) (auto intro!: runs_fail runs_return runs_bind [OF Cons.IH, where ?Q2.0 = "\<lambda>ys a r b. b = a \<and> r = the q # ys"])
  next
    fix a b q a' us
    assume q: "a' = a(prevout txin := None) \<and> (case q of None \<Rightarrow> a (prevout txin) = None | Some x \<Rightarrow> a (prevout txin) = (if IsSpent x then None else Some x))"
      and "?Q q a' us b"
    then obtain x ys where x: "q = Some x" "us = x # ys" "b = a' |` (- prevout ` set ins)"
      and ys: "\<And>xs. distinct (map prevout ins) \<Longrightarrow> map (\<lambda>txin. a' (prevout txin)) ins = map Some xs \<Longrightarrow> ys = xs" by blast
    have "b = a |` (- prevout ` set (txin # ins))" using q x by (auto simp: restrict_map_def fun_eq_iff)
    moreover have "us = xs" if d: "distinct (map prevout (txin # ins))" and e: "map (\<lambda>txin. a (prevout txin)) (txin # ins) = map Some xs" for xs
    proof -
      obtain y zs where z: "xs = y # zs" "a (prevout txin) = Some y" "map (\<lambda>txin. a (prevout txin)) ins = map Some zs"
        using e by (cases xs) auto
      have "map (\<lambda>txin. a' (prevout txin)) ins = map (\<lambda>txin. a (prevout txin)) ins" using q d by (auto simp: image_iff)
      then have "ys = zs" using ys z(3) d by simp
      then show ?thesis using q x z by (auto split: if_splits)
    qed
    ultimately show "b = a |` (- prevout ` set (txin # ins))
        \<and> (\<forall>xs. distinct (map prevout (txin # ins)) \<longrightarrow> map (\<lambda>txin. a (prevout txin)) (txin # ins) = map Some xs \<longrightarrow> us = xs)" by blast
  qed
qed

lemma add_coins_loop_runs:
  assumes "\<And>j. j < length outs \<Longrightarrow> \<lparr>op_hash = txid, op_n = of_nat (i + j)\<rparr> \<in> P"
  shows "runs (settled_ok ok coins P) (coins_over coins) (add_coins_loop get False txid h cb i outs)
    (\<lambda>a _ b. (cb \<or> outputs_free txid h cb i outs a) \<and> b = add_outputs txid h cb i outs a)"
  using assms
proof (induction outs arbitrary: i)
  case Nil
  show ?case by (auto intro!: runs_return)
next
  case (Cons out outs)
  let ?p = "\<lparr>op_hash = txid, op_n = of_nat i\<rparr>"
  have p: "?p \<in> P" using Cons.prems [of 0] by simp
  have "\<lparr>op_hash = txid, op_n = of_nat (i + 1 + j)\<rparr> \<in> P" if "j < length outs" for j
    using Cons.prems [of "Suc j"] that by simp
  note IH = Cons.IH [OF this]
  have "runs (settled_ok ok coins P) (coins_over coins)
      (bindV (AddCoin ?p (mkCoin out h cb) cb) (\<lambda>_. add_coins_loop get False txid h cb (i + 1) outs))
    (\<lambda>a _ b. (cb \<or> outputs_free txid h cb i (out # outs) a) \<and> b = add_outputs txid h cb i (out # outs) a)"
    by (rule runs_bind [OF AddCoin_runs [OF p] IH]) (auto simp: mkCoin_def split: if_splits)
  then show ?case by (simp only: add_coins_loop.simps if_False bindV_return)
qed

lemma UpdateCoins_runs:
  assumes "outpoints tx \<subseteq> P"
  shows "runs (settled_ok ok coins P) (coins_over coins) (UpdateCoins get tx h)
    (\<lambda>a us b. if IsCoinBase tx then us = [] \<and> b = add_outputs (GetHash tx) h True 0 (vout tx) a
       else (\<forall>xs. distinct (map prevout (vin tx)) \<longrightarrow> map (\<lambda>txin. a (prevout txin)) (vin tx) = map Some xs \<longrightarrow> us = xs)
         \<and> outputs_free (GetHash tx) h False 0 (vout tx) (a |` (- spends tx))
         \<and> b = add_outputs (GetHash tx) h False 0 (vout tx) (a |` (- spends tx)))"
proof -
  let ?I = "settled_ok ok coins P" and ?A = "coins_over coins"
  have "runs ?I ?A (AddCoins get tx h False)
    (\<lambda>a _ b. (IsCoinBase tx \<or> outputs_free (GetHash tx) h (IsCoinBase tx) 0 (vout tx) a) \<and> b = add_outputs (GetHash tx) h (IsCoinBase tx) 0 (vout tx) a)"
    unfolding AddCoins_def using assms by (intro add_coins_loop_runs) (auto simp: outpoints_def)
  then have add: "runs ?I ?A (bindV (AddCoins get tx h False) (\<lambda>_. returnV us)) (\<lambda>a r b. r = us
      \<and> (IsCoinBase tx \<or> outputs_free (GetHash tx) h (IsCoinBase tx) 0 (vout tx) a) \<and> b = add_outputs (GetHash tx) h (IsCoinBase tx) 0 (vout tx) a)" for us
    by (rule runs_bind [where ?Q2.0 = "\<lambda>_ a r b. r = us \<and> b = a"]) (auto intro!: runs_return)
  show ?thesis
  proof (cases "IsCoinBase tx")
    case True
    then show ?thesis unfolding UpdateCoins_def
      by (simp only: True not_True_eq_False if_False if_True)
        (rule runs_bind [OF runs_return [where Q = "\<lambda>a r b. r = [] \<and> b = a"] add], auto simp: True)
  next
    case False
    then show ?thesis unfolding UpdateCoins_def spends_def
      by (simp only: False not_False_eq_True if_False if_True)
        (rule runs_bind [OF spend_inputs_runs add], auto simp: False)
  qed
qed

text \<open>One transaction and all transactions of a block.\<close>

lemma connect_inputs_runs:
  "runs (settled_ok ok coins P) (coins_over coins) (connect_inputs get env hash h tx nFees)
     (\<lambda>a r b. b = a \<and> (\<forall>n. r = Inr n \<longrightarrow> (\<exists>xs v. map (\<lambda>txin. a (prevout txin)) (vin tx) = map Some xs
        \<and> GetValueOut tx = Some v \<and> v \<le> value_of xs \<and> n = nFees + (value_of xs - v))))"
  unfolding connect_inputs_def
  by (rule runs_bind [OF CheckTxInputs_runs, where ?Q2.0 = "\<lambda>q a r b. b = a \<and> (\<forall>n. r = Inr n \<longrightarrow> (\<exists>fee. q = Inr fee \<and> n = nFees + fee))"])
    (intro runs_intros runs_fail prev_heights_reads runs_return runs_pure, auto)

text \<open>What \<^verbatim>\<open>UpdateCoins\<close> does, when the checks before it have found the coins.\<close>

lemma UpdateCoins_applied:
  assumes "outpoints tx \<subseteq> P" "distinct (map prevout (vin tx))"
  shows "runs (settled_ok ok coins P) (coins_over coins) (UpdateCoins get tx h)
    (\<lambda>a u b. \<forall>fee. (if IsCoinBase tx then fee = 0
        else \<exists>xs v. map (\<lambda>txin. a (prevout txin)) (vin tx) = map Some xs \<and> GetValueOut tx = Some v \<and> v \<le> value_of xs \<and> fee = value_of xs - v)
      \<longrightarrow> tx_applied h tx a fee u b)"
  by (rule runs_mono [OF UpdateCoins_runs [OF assms(1)]]) (use assms(2) in \<open>auto simp: tx_applied_def split: if_splits\<close>)

lemma connect_tx_runs:
  assumes "outpoints tx \<subseteq> P" "distinct (map prevout (vin tx))"
  shows "runs (settled_ok ok coins P) (coins_over coins) (connect_tx get env sc hash h tx (nFees, cost))
    (\<lambda>a r b. \<forall>n k u. r = Inr ((n, k), u) \<longrightarrow> tx_applied h tx a (n - nFees) u b)"
proof -
  let ?I = "settled_ok ok coins P" and ?A = "coins_over coins"
  let ?fee = "\<lambda>a fee. if IsCoinBase tx then fee = 0
    else \<exists>xs v. map (\<lambda>txin. a (prevout txin)) (vin tx) = map Some xs \<and> GetValueOut tx = Some v \<and> v \<le> value_of xs \<and> fee = value_of xs - v"
  let ?Q = "\<lambda>q a r b. \<forall>n k u. r = Inr ((n, k), u) \<longrightarrow> q = Inr n \<and> (?fee a (n - nFees) \<longrightarrow> tx_applied h tx a (n - nFees) u b)"
  have inputs: "runs ?I ?A (if IsCoinBase tx then returnV (Inr nFees) else connect_inputs get env hash h tx nFees)
      (\<lambda>a r b. b = a \<and> (\<forall>n. r = Inr n \<longrightarrow> ?fee a (n - nFees)))"
    by (rule runs_if; (rule runs_return | rule runs_mono [OF connect_inputs_runs])) auto
  have update: "runs ?I ?A (bindV (UpdateCoins get tx h) (\<lambda>u. returnV (Inr ((n, k), u)))) (?Q (Inr n))" for n k
    by (rule runs_bind [OF UpdateCoins_applied [OF assms], where ?Q2.0 = "\<lambda>u a r b. b = a \<and> r = Inr ((n, k), u)"])
      (auto intro!: runs_return)
  show ?thesis unfolding connect_tx_def prod.case Let_def
  proof (rule runs_bind [OF inputs, where ?Q2.0 = ?Q], goal_cases)
    case (1 x)
    show ?case
    proof (cases x)
      case (Inr n)
      show ?thesis unfolding Inr sum.case
        by (intro runs_intros GetTransactionSigOpCost_reads CheckInputScripts_reads reads_return update; (rule runs_return, simp)?)
    qed (auto intro!: runs_return)
  qed blast
qed

lemma connect_txs_runs:
  assumes "\<forall>tx\<in>set txs. outpoints tx \<subseteq> P \<and> distinct (map prevout (vin tx))"
  shows "runs (settled_ok ok coins P) (coins_over coins) (connect_txs get env sc hash h txs (nFees, cost))
    (\<lambda>a r b. \<forall>n k us. r = Inr ((n, k), us) \<longrightarrow> txs_applied h txs a (n - nFees) us b)"
  using assms
proof (induction txs arbitrary: nFees cost)
  case Nil
  show ?case by (auto intro!: runs_return)
next
  case (Cons tx txs)
  let ?Q = "\<lambda>q a r b. \<forall>n k us. r = Inr ((n, k), us) \<longrightarrow> (\<exists>n' k' u us'. q = Inr ((n', k'), u) \<and> us = u # us' \<and> txs_applied h txs a (n - n') us' b)"
  have tx: "outpoints tx \<subseteq> P" "distinct (map prevout (vin tx))" using Cons.prems by simp_all
  have IH: "runs (settled_ok ok coins P) (coins_over coins) (connect_txs get env sc hash h txs (n', k'))
    (\<lambda>a r b. \<forall>n k us. r = Inr ((n, k), us) \<longrightarrow> txs_applied h txs a (n - n') us b)" for n' k'
    using Cons.IH [of n' k'] Cons.prems by simp
  show ?case unfolding connect_txs.simps
  proof (rule runs_bind [OF connect_tx_runs [OF tx], where ?Q2.0 = ?Q], goal_cases)
    case (1 q)
    show ?case
    proof (cases q)
      case (Inr z)
      obtain n' k' u where z: "z = ((n', k'), u)" by (cases z) auto
      show ?thesis unfolding Inr z sum.case prod.case
        by (rule runs_bind [OF IH, where ?Q2.0 = "\<lambda>q a r b. b = a \<and> (\<forall>n k us. r = Inr ((n, k), us) \<longrightarrow> (\<exists>us'. q = Inr ((n, k), us') \<and> us = u # us'))"])
          (auto intro!: runs_return split: sum.splits, fastforce?)
    qed (auto intro!: runs_return)
  next
    case (2 a q a' r b)
    then show ?case by (fastforce simp: algebra_simps)
  qed
qed

text \<open>The check against overwriting settles the outpoints of the block, and passes only if all are free.\<close>

lemma bip30_outputs_ok:
  assumes "settled_ok ok coins P c" "bip30_outputs get txid i outs bad c = Inr (r, c')"
  shows "settled_ok ok coins (P \<union> (\<lambda>k. \<lparr>op_hash = txid, op_n = of_nat k\<rparr>) ` {i..<i + length outs}) c'
    \<and> coins_over coins c' = coins_over coins c
    \<and> (\<not> r \<longrightarrow> \<not> bad \<and> (\<forall>k\<in>{i..<i + length outs}. coins_over coins c \<lparr>op_hash = txid, op_n = of_nat k\<rparr> = None))"
  using assms
proof (induction outs arbitrary: P c i bad)
  case Nil
  then show ?case by (simp add: returnV_def)
next
  case (Cons out outs)
  let ?p = "\<lparr>op_hash = txid, op_n = of_nat i\<rparr>"
  obtain b c1 where c1: "HaveCoin get ?p c = Inr (b, c1)" "bip30_outputs get txid (i + 1) outs (bad \<or> b) c1 = Inr (r, c')"
    using Cons.prems(2) by (auto simp: bindV_Inr)
  have b: "cache_ok ok coins c1" "coins_over coins c1 = coins_over coins c" "b = (coins_over coins c ?p \<noteq> None)"
    using runsD [OF HaveCoin_runs Cons.prems(1) c1(1)] by auto
  have "settled_ok ok coins (insert ?p P) c1" using b(1) reader_settled [OF Cons.prems(1)] c1(1) by blast
  note IH = Cons.IH [OF this c1(2)]
  have range: "{i..<i + length (out # outs)} = insert i {i + 1..<i + 1 + length outs}" by auto
  show ?case unfolding range image_insert ball_simps Un_insert_right using IH b(2,3) by auto
qed

lemma bip30_txs_ok:
  assumes "settled_ok ok coins P c" "bip30_txs get txs bad c = Inr (r, c')"
  shows "settled_ok ok coins (P \<union> (\<Union>tx\<in>set txs. outpoints tx)) c' \<and> coins_over coins c' = coins_over coins c
    \<and> (\<not> r \<longrightarrow> \<not> bad \<and> (\<forall>tx\<in>set txs. \<forall>q\<in>outpoints tx. coins_over coins c q = None))"
  using assms
proof (induction txs arbitrary: P c bad)
  case Nil
  then show ?case by (simp add: returnV_def)
next
  case (Cons tx txs)
  obtain b c1 where c1: "bip30_outputs get (GetHash tx) 0 (vout tx) bad c = Inr (b, c1)" "bip30_txs get txs b c1 = Inr (r, c')"
    using Cons.prems(2) by (auto simp: bindV_Inr)
  have o: "settled_ok ok coins (P \<union> outpoints tx) c1" "coins_over coins c1 = coins_over coins c"
    "\<not> b \<longrightarrow> \<not> bad \<and> (\<forall>q\<in>outpoints tx. coins_over coins c q = None)"
    using bip30_outputs_ok [OF Cons.prems(1) c1(1)] by (auto simp: outpoints_image)
  show ?case using Cons.IH [OF o(1) c1(2)] o(2,3) by (auto simp: Un_assoc)
qed

lemma connect_body_applied:
  assumes "cache_ok ok coins c" "enforce_bip30 env hash pindex prev" "vtx block = cb # txs" "IsCoinBase cb"
    "\<forall>tx\<in>set txs. \<not> IsCoinBase tx" "\<forall>tx\<in>set (cb # txs). tx_sane tx" "connect_body get env sc block hash pindex prev c = Inr (Inr undo, c')"
  shows "cache_ok ok coins c' \<and> block_applied (ce_params env) (nHeight pindex) block (coins_over coins c) undo (coins_over coins c')"
proof -
  have cb: "vtx block ! 0 = cb" using assms(3) by simp
  obtain bad c1 r c2 where c1: "bip30_txs get (vtx block) False c = Inr (bad, c1)"
    "(if bad then returnV (Inl (BLOCK_CONSENSUS, ''bad-txns-BIP30'')) else connect_txs get env sc hash (nHeight pindex) (vtx block) (0, 0)) c1 = Inr (r, c2)"
    "(case GetValueOut cb of None \<Rightarrow> (\<lambda>_. Inl Runtime_Error) | Some value_out \<Rightarrow> returnV (case r of Inl e \<Rightarrow> Inl e | Inr ((nFees, _), undos) \<Rightarrow>
        if value_out > nFees + GetBlockSubsidy (nHeight pindex) (ce_params env) then Inl (BLOCK_CONSENSUS, ''bad-cb-amount'') else Inr (tl undos))) c2 = Inr (Inr undo, c')"
    using assms(2,7) unfolding connect_body_def cb bindV_Inr by auto
  obtain n k us v where r: "r = Inr ((n, k), us)" "GetValueOut cb = Some v" "v \<le> n + GetBlockSubsidy (nHeight pindex) (ce_params env)" "undo = tl us" "c2 = c'"
    using c1(3) by (auto simp: returnV_def split: option.splits sum.splits if_splits)
  have nb: "\<not> bad" "connect_txs get env sc hash (nHeight pindex) (vtx block) (0, 0) c1 = Inr (Inr ((n, k), us), c')"
    using c1(2) r(1,5) by (auto simp: returnV_def split: if_splits)
  let ?P = "\<Union>tx\<in>set (vtx block). outpoints tx"
  have "settled_ok ok coins {} c" using assms(1) by (simp add: settled_def)
  from bip30_txs_ok [OF this c1(1)] nb(1) have b: "settled_ok ok coins ?P c1" "coins_over coins c1 = coins_over coins c"
    "\<forall>tx\<in>set (vtx block). \<forall>q\<in>outpoints tx. coins_over coins c q = None" by auto
  have "\<forall>tx\<in>set (vtx block). outpoints tx \<subseteq> ?P \<and> distinct (map prevout (vin tx))" using assms(3,6) by (auto simp: tx_sane_def)
  from runsD [OF connect_txs_runs [OF this] b(1) nb(2)]
  have t: "cache_ok ok coins c'" "txs_applied (nHeight pindex) (vtx block) (coins_over coins c) n us (coins_over coins c')" using b(2) by auto
  then have "us = [] # undo" using r(4) assms(3,4) by (auto simp: tx_applied_def)
  then have "txs_applied (nHeight pindex) (cb # txs) (coins_over coins c) n ([] # undo) (coins_over coins c')"
    "\<forall>tx\<in>set (cb # txs). \<forall>q\<in>outpoints tx. coins_over coins c q = None" using t(2) b(3) unfolding assms(3) by auto
  then show ?thesis unfolding block_applied_def using t(1) r(2,3) assms(3-6) by blast
qed

text \<open>A successful call of \<^verbatim>\<open>ConnectBlock\<close> applies the block to the ledger.\<close>

lemma ConnectBlock_applied:
  assumes "cache_ok ok coins c" "ce_index env hash = Some pindex" "pprev pindex = Some prev" "enforce_bip30 env hash pindex prev"
    "hash \<noteq> hashGenesisBlock (ce_params env)"
    "ConnectBlock get best env fuzz block hash fJustCheck st c = (Inr (Inr undo, c'), st')"
  shows "cache_ok ok coins c' \<and> block_applied (ce_params env) (nHeight pindex) block (coins_over coins c) undo (coins_over coins c')"
proof -
  obtain st1 where k: "CheckBlock fuzz block (ce_params env) (\<not> fJustCheck) (\<not> fJustCheck) st = (Inr (Inr ()), st1)"
    "connect_checked get best env block hash pindex fJustCheck c = Inr (Inr undo, c')"
    using assms(2,6) by (auto simp: ConnectBlock_def split: if_splits prod.splits sum.splits)
  obtain cb txs where v: "vtx block = cb # txs" "IsCoinBase cb" "\<forall>tx\<in>set txs. \<not> IsCoinBase tx" "\<forall>tx\<in>set (cb # txs). tx_sane tx"
    by (rule CheckBlock_sane [OF k(1)])
  obtain h1 c1 sc r c2 where c1: "GetBestBlock best c = Inr (h1, c1)" "connect_body get env sc block hash pindex prev c1 = Inr (r, c2)"
    "connect_finish env fJustCheck hash r c2 = Inr (Inr undo, c')"
    using k(2) assms(3,5) by (auto simp: connect_checked_def bindV_Inr split: if_splits sum.splits) metis?
  have r: "r = Inr undo" "c' = c2 \<or> c' = SetBestBlock hash c2"
    using c1(3) by (auto simp: connect_finish_def split: sum.splits if_splits option.splits)
  have b: "cache_ok ok coins c1" "coins_over coins c1 = coins_over coins c" using GetBestBlock_ok [OF assms(1)] c1(1) by auto
  from connect_body_applied [OF b(1) assms(4) v c1(2) [unfolded r(1)]] b(2)
  have "cache_ok ok coins c2 \<and> block_applied (ce_params env) (nHeight pindex) block (coins_over coins c) undo (coins_over coins c2)" by simp
  then show ?thesis using r(2) SetBestBlock_ok [of hash c2] by auto
qed

end

section \<open>An example\<close>

text \<open>A block with a coinbase only on top of the genesis block, with the mainnet parameters but for the genesis hash.\<close>

definition coinbase_block :: CBlock where
  "coinbase_block = \<lparr>header = \<lparr>nVersion = 1, hashPrevBlock = replicate 32 1, hashMerkleRoot = replicate 32 0, nTime = 0, nBits = 0, nNonce = 0\<rparr>,
     vtx = [example_coinbase]\<rparr>"

abbreviation coinbase_params :: Params where
  "coinbase_params \<equiv> CMainParams_consensus\<lparr>hashGenesisBlock := []\<rparr>"

definition coinbase_index :: CBlockIndex where
  "coinbase_index = (CBlockIndex_of (header coinbase_block))\<lparr>pprev := Some (replicate 32 1), nHeight := 1\<rparr>"

definition coinbase_env :: connect_env where
  "coinbase_env = \<lparr>ce_params = coinbase_params,
     ce_index = (\<lambda>q. Some (if q = BlockHash (header coinbase_block) then coinbase_index else coinbase_index\<lparr>pprev := None, nHeight := 0\<rparr>)),
     ce_exceptions = (\<lambda>_. None), ce_checker = (\<lambda>_ _ _. base_checker (\<lambda>_. False) (\<lambda>_ _ _ _. False)), ce_cached = (\<lambda>_ _. False), AssumedValidBlock = uint256_zero,
     m_best_header = replicate 32 1, MinimumChainWork = base_uint_of_u64 0, WriteBlockUndo = (\<lambda>_. None)\<rparr>"

definition coinbase_coins :: block_coins where
  "coinbase_coins = CCoinsViewCache_init (CCoinsViewCache_init \<lparr>db_coins = (\<lambda>_. None), db_best = replicate 32 1\<rparr>)"

lemma coinbase_check: "CheckTransaction example_coinbase False MIN_OUTPUT_VALUE_SAT = Inr ()"
  unfolding CheckTransaction_Inr using example_coinbase_facts(1-3)
  by (simp add: spendable_outs_def WITNESS_SCALE_FACTOR_def MAX_BLOCK_WEIGHT_def MAX_MONEY_def COIN_def example_coinbase_def allowed_def MoneyRange_def)

lemma coinbase_hash_nonempty: "BlockHash (header coinbase_block) \<noteq> []"
  using length_BlockHash [of "header coinbase_block"] by fastforce

lemma coinbase_block_checked: "CheckBlock fuzz coinbase_block coinbase_params False False st = (Inr (Inr ()), st)"
proof -
  have "length (SerializeBlock False coinbase_block) = 177" using example_coinbase_facts(2)
    by (simp add: coinbase_block_def SerializeBlock_def ser_header_def ser_vector_def ser_uint256_def ser_writedata32_def WriteCompactSize_def ser_writedata8_def)
  then show ?thesis using example_coinbase_facts coinbase_check coinbase_hash_nonempty
    by (simp add: CheckBlock_def CheckBlockHeader_def check_block_txs_def Let_def WITNESS_SCALE_FACTOR_def MAX_BLOCK_WEIGHT_def MAX_BLOCK_SIGOPS_COST_def)
      (simp add: coinbase_block_def CMainParams_consensus_def)
qed

lemma coinbase_bip30: "enforce_bip30 coinbase_env (BlockHash (header coinbase_block)) coinbase_index (replicate 32 1)"
  by (auto simp: enforce_bip30_def coinbase_env_def coinbase_index_def CMainParams_consensus_def IsBIP30Repeat_def GetAncestor_def ancestor_walk.simps split: option.splits)

lemma coinbase_coins_ok: "block_coins_ok coinbase_coins" "block_coins_of coinbase_coins = (\<lambda>_. None)"
  by (simp_all add: coinbase_coins_def cache_ok_init db_ok_def)

definition coinbase_ledger :: ledger where
  "coinbase_ledger = [\<lparr>op_hash = GetHash example_coinbase, op_n = 0\<rparr> \<mapsto> mkCoin (vout example_coinbase ! 0) 1 True]"

lemma coinbase_vout: "vout example_coinbase = [vout example_coinbase ! 0]" "nValue (vout example_coinbase ! 0) = 7"
  by (simp_all add: example_coinbase_def)

lemma coinbase_updated:
  assumes "block_coins_ok c" "block_coins_of c = (\<lambda>_. None)"
  shows "\<exists>c'. UpdateCoins (GetCoin DB_GetCoin) example_coinbase 1 c = Inr ([], c') \<and> block_coins_ok c' \<and> block_coins_of c' = coinbase_ledger"
proof -
  let ?out = "vout example_coinbase ! 0" and ?q = "\<lparr>op_hash = GetHash example_coinbase, op_n = 0\<rparr>"
  have "\<not> IsSpent (mkCoin ?out 1 True)" by (simp add: IsSpent_def mkCoin_def CTxOut_IsNull_def coinbase_vout(2))
  then obtain c' where c': "AddCoin ?q (mkCoin ?out 1 True) True c = Inr ((), c')" "block_coins_ok c'" "block_coins_of c' = coinbase_ledger"
    using tip.AddCoin_ok [OF assms(1), of "mkCoin ?out 1 True" True ?q] assms(2) example_coinbase_facts(4)
    by (auto simp: coinbase_ledger_def mkCoin_def)
  have "AddCoins (GetCoin DB_GetCoin) example_coinbase 1 False c = Inr ((), c')"
    unfolding AddCoins_def using c'(1) example_coinbase_facts(3)
    by (subst coinbase_vout(1)) (simp add: bindV_return, simp add: returnV_def)
  then show ?thesis using c'(2,3) example_coinbase_facts(3) by (simp add: UpdateCoins_def bindV_return returnV_def)
qed

lemma coinbase_connected:
  "\<exists>c'. ConnectBlock (GetCoin DB_GetCoin) (GetBestBlock DB_GetBestBlock) coinbase_env False coinbase_block (BlockHash (header coinbase_block)) True st coinbase_coins
     = (Inr (Inr [], c'), st) \<and> block_coins_ok c' \<and> block_coins_of c' = coinbase_ledger"
proof -
  let ?get = "GetCoin DB_GetCoin" and ?hash = "BlockHash (header coinbase_block)" and ?q = "\<lparr>op_hash = GetHash example_coinbase, op_n = 0\<rparr>"
  have null: "uint256_IsNull uint256_zero" "\<not> uint256_IsNull (replicate 32 1)" by (simp_all add: uint256_IsNull_def uint256_zero_def list_all_iff)
  obtain c1 where c1: "GetBestBlock (GetBestBlock DB_GetBestBlock) coinbase_coins = Inr (replicate 32 1, c1)" "block_coins_ok c1" "block_coins_of c1 = (\<lambda>_. None)"
    using tip.GetBestBlock_ok [OF coinbase_coins_ok(1)] coinbase_coins_ok(2)
    by (auto simp: coinbase_coins_def GetBestBlock_def CCoinsViewCache_init_def DB_GetBestBlock_def on_base_def bindV_def null)
  obtain c2 where c2: "HaveCoin ?get ?q c1 = Inr (False, c2)" "block_coins_ok c2" "block_coins_of c2 = (\<lambda>_. None)"
    using tip.readers_ok(2) [OF c1(2), of ?q] c1(3) by auto
  have "bip30_outputs ?get (GetHash example_coinbase) 0 (vout example_coinbase) False c1 = Inr (False, c2)"
    by (subst coinbase_vout(1)) (simp add: bindV_def c2(1) returnV_def)
  then have bip30: "bip30_txs ?get [example_coinbase] False c1 = Inr (False, c2)" by (simp add: bindV_def returnV_def)
  obtain c3 where c3: "UpdateCoins ?get example_coinbase 1 c2 = Inr ([], c3)" "block_coins_ok c3" "block_coins_of c3 = coinbase_ledger"
    using coinbase_updated [OF c2(2,3)] by blast
  have txs: "connect_txs ?get coinbase_env True ?hash 1 [example_coinbase] (0, 0) c2 = Inr (Inr ((0, 0), [[]]), c3)"
    using c3(1) example_coinbase_facts(3,5)
    by (simp add: connect_tx_def GetTransactionSigOpCost_def bindV_return Let_def MAX_BLOCK_SIGOPS_COST_def) (simp add: bindV_def returnV_def)
  have "GetValueOut example_coinbase = Some 7" by (simp add: GetValueOut_def example_coinbase_def MoneyRange_def MAX_MONEY_def COIN_def)
  moreover have "7 \<le> GetBlockSubsidy 1 coinbase_params"
    by (simp add: GetBlockSubsidy_def CMainParams_consensus_def EMISSION_TABLE_def const_defs)
  ultimately have "connect_body ?get coinbase_env True coinbase_block ?hash coinbase_index (replicate 32 1) c1 = Inr (Inr [], c3)"
    using coinbase_bip30 bip30 txs
    by (simp add: connect_body_def coinbase_block_def coinbase_index_def coinbase_env_def bindV_def returnV_def del: connect_txs.simps bip30_txs.simps)
  then have "connect_checked ?get (GetBestBlock DB_GetBestBlock) coinbase_env coinbase_block ?hash coinbase_index True coinbase_coins = Inr (Inr [], c3)"
    using c1(1) coinbase_hash_nonempty null
    by (auto simp: connect_checked_def bindV_def connect_finish_def script_check_reason_def coinbase_env_def coinbase_index_def)
  then show ?thesis using c3(2,3) coinbase_block_checked [of False st]
    by (simp add: ConnectBlock_def) (simp add: coinbase_env_def)
qed

end
