(* ===== verification/Connect_Supply.thy ===== *)
theory Connect_Supply
  imports Connect_Ledger
begin

text \<open>
  The coins in circulation: no block adds more value to the ledger than its subsidy, so that the coins of a chain never exceed what the
  emission table has released.
\<close>

section \<open>The value of a ledger\<close>

definition total_value :: "ledger \<Rightarrow> CAmount" where
  "total_value m = (\<Sum>q\<in>dom m. nValue (coin_out (the (m q))))"

definition ledger_ok :: "ledger \<Rightarrow> bool" where
  "ledger_ok m \<longleftrightarrow> finite (dom m) \<and> (\<forall>q x. m q = Some x \<longrightarrow> 0 \<le> nValue (coin_out x))"

lemma ledger_ok_upd: "ledger_ok m \<Longrightarrow> 0 \<le> nValue (coin_out x) \<Longrightarrow> ledger_ok (m(q \<mapsto> x))"
  and ledger_ok_del: "ledger_ok m \<Longrightarrow> ledger_ok (m(q := None))"
  by (auto simp: ledger_ok_def)

lemma total_value_del:
  assumes "ledger_ok m" "m q = Some x"
  shows "total_value m = total_value (m(q := None)) + nValue (coin_out x)"
proof -
  have "total_value (m(q := None)) = (\<Sum>q\<in>dom m - {q}. nValue (coin_out (the (m q))))"
    unfolding total_value_def by (rule sum.cong) auto
  moreover have "finite (dom m)" "q \<in> dom m" using assms by (auto simp: ledger_ok_def)
  ultimately show ?thesis unfolding total_value_def using assms(2) by (simp add: sum.remove [of "dom m" q])
qed

lemma total_value_upd:
  assumes "ledger_ok m" "0 \<le> nValue (coin_out x)"
  shows "total_value (m(q \<mapsto> x)) \<le> total_value m + nValue (coin_out x)"
proof -
  have "total_value (m(q \<mapsto> x)) = total_value ((m(q \<mapsto> x))(q := None)) + nValue (coin_out x)"
    by (rule total_value_del) (simp_all add: ledger_ok_upd assms)
  moreover have "total_value (m(q := None)) \<le> total_value m"
  proof (cases "m q")
    case None
    then show ?thesis by (simp add: fun_upd_idem)
  next
    case (Some y)
    then show ?thesis using total_value_del [OF assms(1) Some] assms(1) by (simp add: ledger_ok_def)
  qed
  ultimately show ?thesis by simp
qed

section \<open>Transactions and blocks\<close>

lemma add_outputs_value:
  assumes "ledger_ok m" "\<forall>out\<in>set outs. 0 \<le> nValue out"
  shows "ledger_ok (add_outputs txid h cb i outs m) \<and> total_value (add_outputs txid h cb i outs m) \<le> total_value m + (\<Sum>out\<leftarrow>outs. nValue out)"
  using assms
proof (induction outs arbitrary: i m)
  case (Cons out outs)
  let ?m = "if IsUnspendable (scriptPubKey out) then m else m(\<lparr>op_hash = txid, op_n = of_nat i\<rparr> \<mapsto> mkCoin out h cb)"
  have out: "coin_out (mkCoin out h cb) = out" by (simp add: mkCoin_def)
  have "ledger_ok ?m" using Cons.prems ledger_ok_upd [of m "mkCoin out h cb"] by (simp add: out)
  moreover have "total_value ?m \<le> total_value m + nValue out"
    using Cons.prems total_value_upd [OF Cons.prems(1), of "mkCoin out h cb"] by (simp add: out)
  ultimately show ?case using Cons.IH [of ?m "i + 1"] Cons.prems(2) by simp
qed simp

lemma spend_value:
  assumes "ledger_ok m" "distinct (map prevout ins)" "map (\<lambda>txin. m (prevout txin)) ins = map Some xs"
  shows "ledger_ok (m |` (- prevout ` set ins)) \<and> total_value (m |` (- prevout ` set ins)) = total_value m - value_of xs"
  using assms
proof (induction ins arbitrary: m xs)
  case Nil
  then show ?case by simp
next
  case (Cons txin ins)
  define m1 where "m1 = m(prevout txin := None)"
  obtain x ys where x: "xs = x # ys" "m (prevout txin) = Some x" "map (\<lambda>txin. m (prevout txin)) ins = map Some ys"
    using Cons.prems(3) by (cases xs) auto
  have d: "distinct (map prevout ins)" using Cons.prems(2) by simp
  have "map (\<lambda>txin. m1 (prevout txin)) ins = map Some ys" unfolding x(3) [symmetric] m1_def using Cons.prems(2) by (auto simp: image_iff)
  moreover have "ledger_ok m1" unfolding m1_def by (rule ledger_ok_del [OF Cons.prems(1)])
  ultimately have IH: "ledger_ok (m1 |` (- prevout ` set ins)) \<and> total_value (m1 |` (- prevout ` set ins)) = total_value m1 - value_of ys"
    using Cons.IH d by blast
  have "m |` (- prevout ` set (txin # ins)) = m1 |` (- prevout ` set ins)" by (auto simp: m1_def restrict_map_def fun_eq_iff)
  moreover have "total_value m = total_value m1 + nValue (coin_out x)" unfolding m1_def by (rule total_value_del [OF Cons.prems(1) x(2)])
  ultimately show ?case using IH x(1) by (simp only: value_of_simps) simp
qed

lemma GetValueOut_sum: "GetValueOut tx = Some v \<Longrightarrow> v = (\<Sum>out\<leftarrow>vout tx. nValue out)"
  unfolding GetValueOut_def value_out_loop_eq [OF order_refl] by (simp split: if_splits)

definition minted :: "CTransaction \<Rightarrow> CAmount" where
  "minted tx = (if IsCoinBase tx then \<Sum>out\<leftarrow>vout tx. nValue out else 0)"

lemma tx_applied_value:
  assumes "ledger_ok m" "tx_sane tx" "tx_applied h tx m fee undo m'"
  shows "ledger_ok m' \<and> total_value m' + fee \<le> total_value m + minted tx"
proof (cases "IsCoinBase tx")
  case True
  then show ?thesis using assms add_outputs_value [of m "vout tx" "GetHash tx" h True 0] by (simp add: tx_applied_def tx_sane_def minted_def)
next
  case False
  let ?m = "m |` (- spends tx)"
  obtain v where v: "map (\<lambda>txin. m (prevout txin)) (vin tx) = map Some undo" "GetValueOut tx = Some v" "fee = value_of undo - v"
    "m' = add_outputs (GetHash tx) h False 0 (vout tx) ?m"
    using assms(3) False by (auto simp: tx_applied_def)
  have "ledger_ok ?m" "total_value ?m = total_value m - value_of undo"
    using spend_value [OF assms(1) _ v(1)] assms(2) by (simp_all add: spends_def tx_sane_def)
  then show ?thesis using add_outputs_value [of ?m "vout tx" "GetHash tx" h False 0] v(3,4) GetValueOut_sum [OF v(2)] assms(2) False
    by (simp add: tx_sane_def minted_def)
qed

lemma txs_applied_value:
  assumes "ledger_ok m" "\<forall>tx\<in>set txs. tx_sane tx" "txs_applied h txs m fees undos m'"
  shows "ledger_ok m' \<and> total_value m' + fees \<le> total_value m + (\<Sum>tx\<leftarrow>txs. minted tx)"
  using assms
proof (induction txs arbitrary: m fees undos)
  case (Cons tx txs)
  then obtain fee undo undos' m1 where t: "tx_applied h tx m fee undo m1" "txs_applied h txs m1 (fees - fee) undos' m'" by auto
  have "ledger_ok m1 \<and> total_value m1 + fee \<le> total_value m + minted tx"
    using tx_applied_value [OF Cons.prems(1) _ t(1)] Cons.prems(2) by simp
  then show ?case using Cons.IH [OF _ _ t(2)] Cons.prems(2) by simp
qed simp

lemma block_applied_value:
  assumes "ledger_ok m" "block_applied p h block m undo m'"
  shows "ledger_ok m' \<and> total_value m' \<le> total_value m + GetBlockSubsidy h p"
proof -
  obtain cb txs fees v where b: "IsCoinBase cb" "\<forall>tx\<in>set txs. \<not> IsCoinBase tx" "\<forall>tx\<in>set (cb # txs). tx_sane tx"
    "txs_applied h (cb # txs) m fees ([] # undo) m'" "GetValueOut cb = Some v" "v \<le> fees + GetBlockSubsidy h p"
    using assms(2) unfolding block_applied_def by blast
  have "(\<Sum>tx\<leftarrow>txs. minted tx) = 0" using b(2) by (induction txs) (auto simp: minted_def)
  then have "(\<Sum>tx\<leftarrow>cb # txs. minted tx) = v" using b(1) GetValueOut_sum [OF b(5)] by (simp add: minted_def)
  then show ?thesis using txs_applied_value [OF assms(1) b(3,4)] b(6) by simp
qed

section \<open>Chains of blocks\<close>

text \<open>The ledgers at height \<open>h\<close>: the empty one of the genesis block, whose coinbase is not connected, and what a view shows after one more block
  has been connected through it, with the BIP30 check in force.  The view is the one the node uses, a cache over the cache of the tip over the database, in
  any valid state that shows the ledger before.\<close>

inductive utxo_reach :: "Params \<Rightarrow> int \<Rightarrow> ledger \<Rightarrow> bool" for p where
  genesis: "utxo_reach p 0 (\<lambda>_. None)"
| connect: "utxo_reach p h m \<Longrightarrow> block_coins_ok c \<Longrightarrow> block_coins_of c = m \<Longrightarrow> ce_params env = p \<Longrightarrow> ce_index env hash = Some pindex
    \<Longrightarrow> nHeight pindex = h + 1 \<Longrightarrow> pprev pindex = Some prev \<Longrightarrow> enforce_bip30 env hash pindex prev \<Longrightarrow> hash \<noteq> hashGenesisBlock p
    \<Longrightarrow> ConnectBlock (GetCoin DB_GetCoin) (GetBestBlock DB_GetBestBlock) env fuzz block hash fJustCheck st c = (Inr (Inr undo, c'), st')
    \<Longrightarrow> utxo_reach p (h + 1) (block_coins_of c')"

lemma utxo_reach_value: "utxo_reach p h m \<Longrightarrow> 0 \<le> h \<and> ledger_ok m \<and> total_value m \<le> supply_at h p"
proof (induction rule: utxo_reach.induct)
  case genesis
  show ?case by (simp add: ledger_ok_def total_value_def supply_at_def GetBlockSubsidy_def EMISSION_START_HEIGHT_def)
next
  case (connect h m c env hash pindex prev fuzz block fJustCheck st undo c' st')
  have "block_applied p (h + 1) block m undo (block_coins_of c')"
    using tip.ConnectBlock_applied [OF connect.hyps(2,5,7,8) _ connect.hyps(10)] connect.hyps(3,4,6,9) by simp
  then have "ledger_ok (block_coins_of c') \<and> total_value (block_coins_of c') \<le> total_value m + GetBlockSubsidy (h + 1) p"
    using block_applied_value connect.IH by blast
  moreover have "supply_at (h + 1) p = supply_at h p + GetBlockSubsidy (h + 1) p"
  proof -
    have "{0..h + 1} = insert (h + 1) {0..h}" using connect.IH by auto
    then show ?thesis by (simp add: supply_at_def)
  qed
  ultimately show ?case using connect.IH by simp
qed

text \<open>C1. No inflation.  The coins that exist after any sequence of blocks that \<^verbatim>\<open>ConnectBlock\<close> accepted are together worth at most what the
  emission table has released up to that height; with the table of mainnet they never exceed \<^verbatim>\<open>MAX_MONEY\<close>.  The blocks are those for which the check
  against overwriting outputs (BIP30) is in force.  This holds whatever the
  signature checker accepts, whether or not scripts are checked, and for every state of the caches.\<close>

theorem utxo_supply_bound:
  assumes "utxo_reach p h m"
  shows "total_value m \<le> supply_at h p
    \<and> (emissionTable p = EMISSION_TABLE \<and> emissionClosingDustSat p = EMISSION_CLOSING_DUST_SAT \<longrightarrow> total_value m \<le> MAX_MONEY)"
proof (intro conjI impI)
  show s: "total_value m \<le> supply_at h p" using utxo_reach_value [OF assms] by simp
  assume e: "emissionTable p = EMISSION_TABLE \<and> emissionClosingDustSat p = EMISSION_CLOSING_DUST_SAT"
  have wf: "EmissionTableWellFormed (emissionTable p) EMISSION_START_HEIGHT" using e mainnet_table_ok by simp
  note s
  also have "supply_at h p \<le> supply_at (max h (EmissionEndHeight p)) p"
    by (rule supply_mono [OF wf]) (simp_all add: e EMISSION_CLOSING_DUST_SAT_def)
  also have "\<dots> = EmissionTableTotalSat EMISSION_TABLE + EMISSION_CLOSING_DUST_SAT" using supply_closed_form [OF wf, of "max h (EmissionEndHeight p)"] e by simp
  also have "\<dots> = MAX_MONEY" by (rule mainnet_table_total)
  finally show "total_value m \<le> MAX_MONEY" .
qed

lemma coinbase_reach: "utxo_reach coinbase_params (0 + 1) coinbase_ledger"
proof -
  obtain c' where c': "ConnectBlock (GetCoin DB_GetCoin) (GetBestBlock DB_GetBestBlock) coinbase_env False coinbase_block (BlockHash (header coinbase_block)) True undefined coinbase_coins
     = (Inr (Inr [], c'), undefined)" "block_coins_of c' = coinbase_ledger" using coinbase_connected [of undefined] by blast
  show ?thesis unfolding c'(2) [symmetric]
    by (rule utxo_reach.connect [OF utxo_reach.genesis coinbase_coins_ok _ _ _ _ coinbase_bip30 _ c'(1)])
      (simp_all add: coinbase_env_def coinbase_index_def coinbase_hash_nonempty)
qed

theorem utxo_supply_bound_witness:
  "utxo_reach coinbase_params 1 coinbase_ledger \<and> total_value coinbase_ledger = 7
    \<and> total_value coinbase_ledger \<le> supply_at 1 coinbase_params \<and> total_value coinbase_ledger \<le> MAX_MONEY"
  using utxo_supply_bound [of coinbase_params 1 coinbase_ledger] coinbase_reach coinbase_vout(2)
  by (simp add: CMainParams_consensus_def total_value_def coinbase_ledger_def mkCoin_def)

end
