(* ===== verification/Connect_Undo.thy ===== *)
theory Connect_Undo
  imports Connect_Ledger
begin

text \<open>
  Reorganisations: \<^verbatim>\<open>DisconnectBlock\<close> with the undo data that \<^verbatim>\<open>ConnectBlock\<close> made restores the coins.  The undo data is taken as it was made;
  its encoding on disk is not modelled.
\<close>

section \<open>Ledgers that can be restored\<close>

text \<open>The coins of a ledger are unspent and spendable, and their heights are known.\<close>

definition coin_good :: "Coin \<Rightarrow> bool" where
  "coin_good x \<longleftrightarrow> \<not> IsSpent x \<and> \<not> IsUnspendable (scriptPubKey (coin_out x)) \<and> coin_nHeight x \<noteq> 0"

definition ledger_good :: "ledger \<Rightarrow> bool" where
  "ledger_good m \<longleftrightarrow> (\<forall>q x. m q = Some x \<longrightarrow> coin_good x)"

lemma mkCoin_good: "0 \<le> nValue out \<Longrightarrow> \<not> IsUnspendable (scriptPubKey out) \<Longrightarrow> 1 \<le> h \<Longrightarrow> h < 2 ^ 31 \<Longrightarrow> coin_good (mkCoin out h cb)"
  by (simp add: coin_good_def mkCoin_def IsSpent_def CTxOut_IsNull_def)

lemma ledger_good_restrict: "ledger_good m \<Longrightarrow> ledger_good (m |` S)"
  by (auto simp: ledger_good_def restrict_map_def split: if_splits)

lemma add_outputs_good:
  assumes "ledger_good m" "\<forall>out\<in>set outs. 0 \<le> nValue out" "1 \<le> h" "h < 2 ^ 31"
  shows "ledger_good (add_outputs txid h cb i outs m)"
  using assms(1,2)
proof (induction outs arbitrary: i m)
  case (Cons out outs)
  have "ledger_good (if IsUnspendable (scriptPubKey out) then m else m(\<lparr>op_hash = txid, op_n = of_nat i\<rparr> := Some (mkCoin out h cb)))"
    using Cons.prems mkCoin_good [OF _ _ assms(3,4)] by (auto simp: ledger_good_def)
  then show ?case using Cons.IH Cons.prems(2) by simp
qed simp

lemma tx_applied_good:
  assumes "ledger_good m" "tx_sane tx" "tx_applied h tx m fee undo m'" "1 \<le> h" "h < 2 ^ 31"
  shows "ledger_good m'"
  using assms add_outputs_good [OF _ _ assms(4,5)] ledger_good_restrict [OF assms(1)]
  by (auto simp: tx_applied_def tx_sane_def split: if_splits)

section \<open>Outputs\<close>

text \<open>Outputs added to free places overwrite nothing and can be taken away one by one.\<close>

lemma outputs_free_keep: "outputs_free txid h cb i outs m \<Longrightarrow> m q = Some x \<Longrightarrow> add_outputs txid h cb i outs m q = Some x"
proof (induction outs arbitrary: i m)
  case (Cons out outs)
  define m1 where "m1 = (if IsUnspendable (scriptPubKey out) then m else m(\<lparr>op_hash = txid, op_n = of_nat i\<rparr> \<mapsto> mkCoin out h cb))"
  have "m1 q = Some x" "outputs_free txid h cb (i + 1) outs m1" using Cons.prems by (auto simp: m1_def split: if_splits)
  from Cons.IH [OF this(2,1)] show ?case by (simp add: m1_def)
qed simp

lemma outputs_free_remove:
  assumes "outputs_free txid h cb i outs (m(q \<mapsto> x))"
  shows "(add_outputs txid h cb i outs (m(q \<mapsto> x)))(q := None) = add_outputs txid h cb i outs (m(q := None)) \<and> outputs_free txid h cb i outs (m(q := None))"
  using assms
proof (induction outs arbitrary: i m)
  case (Cons out outs)
  let ?q = "\<lparr>op_hash = txid, op_n = of_nat i\<rparr>"
  show ?case
  proof (cases "IsUnspendable (scriptPubKey out)")
    case True
    then show ?thesis using Cons.IH [of "i + 1" m] Cons.prems by simp
  next
    case False
    then have f: "?q \<noteq> q" "m ?q = None" "outputs_free txid h cb (i + 1) outs ((m(q \<mapsto> x))(?q \<mapsto> mkCoin out h cb))"
      using Cons.prems by (simp_all only: outputs_free.simps if_False) (auto simp: fun_upd_apply split: if_splits)
    have c: "(m(q \<mapsto> x))(?q \<mapsto> mkCoin out h cb) = (m(?q \<mapsto> mkCoin out h cb))(q \<mapsto> x)"
      "(m(q := None))(?q \<mapsto> mkCoin out h cb) = (m(?q \<mapsto> mkCoin out h cb))(q := None)" using f(1) by auto
    have e: "add_outputs txid h cb i (out # outs) (m(q \<mapsto> x)) = add_outputs txid h cb (i + 1) outs ((m(?q \<mapsto> mkCoin out h cb))(q \<mapsto> x))"
      "add_outputs txid h cb i (out # outs) (m(q := None)) = add_outputs txid h cb (i + 1) outs ((m(?q \<mapsto> mkCoin out h cb))(q := None))"
      by (simp_all only: add_outputs.simps False if_False c)
    have "(m(q := None)) ?q = None" using f(1,2) by simp
    then have g: "outputs_free txid h cb i (out # outs) (m(q := None)) = outputs_free txid h cb (i + 1) outs ((m(?q \<mapsto> mkCoin out h cb))(q := None))"
      by (simp only: outputs_free.simps False if_False c simp_thms)
    show ?thesis unfolding e g by (rule Cons.IH) (rule f(3) [unfolded c(1)])
  qed
qed simp

lemma outputs_free_absent:
  assumes "\<forall>k\<in>{i..<i + length outs}. m \<lparr>op_hash = txid, op_n = of_nat k\<rparr> = None" "i + length outs \<le> 2 ^ 32"
  shows "outputs_free txid h cb i outs m"
  using assms
proof (induction outs arbitrary: i m)
  case (Cons out outs)
  let ?q = "\<lparr>op_hash = txid, op_n = of_nat i :: u32\<rparr>"
  have "\<lparr>op_hash = txid, op_n = of_nat k\<rparr> \<noteq> ?q" if "k \<in> {i + 1..<i + 1 + length outs}" for k
  proof -
    have "unat (of_nat k :: u32) = k" "unat (of_nat i :: u32) = i" using that Cons.prems(2) by (auto simp: unat_of_nat)
    then show ?thesis using that by auto
  qed
  then have "\<forall>k\<in>{i + 1..<i + 1 + length outs}. (m(?q \<mapsto> mkCoin out h cb)) \<lparr>op_hash = txid, op_n = of_nat k\<rparr> = None"
    using Cons.prems(1) by auto
  with Cons.IH [of "i + 1" "m(?q \<mapsto> mkCoin out h cb)"] Cons.prems(2) have "outputs_free txid h cb (i + 1) outs (m(?q \<mapsto> mkCoin out h cb))"
    by (simp only: list.size add_Suc_right add_Suc)
  then show ?case using Cons.IH [of "i + 1" m] Cons.prems by simp
qed simp

section \<open>Undoing a block\<close>

lemma disconnect_txs_append:
  "disconnect_txs get h e xs f c = Inr (Some g, c1) \<Longrightarrow> disconnect_txs get h e (xs @ ys) f c = disconnect_txs get h e ys g c1"
  by (induction xs arbitrary: f c) (auto simp: returnV_def bindV_def split: sum.splits option.splits)

lemma txs_applied_length: "txs_applied h txs m fees undos m' \<Longrightarrow> length undos = length txs"
  by (induction txs arbitrary: m fees undos) fastforce+

context coins_view
begin

lemma undo_outputs_ok:
  assumes "cache_ok ok coins c" "coins_over coins c = add_outputs txid h cb i outs m" "outputs_free txid h cb i outs m" "0 \<le> h" "h < 2 ^ 31"
  shows "\<exists>c'. undo_outputs get txid h cb exc i outs f c = Inr (f, c') \<and> cache_ok ok coins c' \<and> coins_over coins c' = m"
  using assms(1-3)
proof (induction outs arbitrary: i c m)
  case Nil
  then show ?case by (simp add: returnV_def)
next
  case (Cons out outs)
  let ?q = "\<lparr>op_hash = txid, op_n = of_nat i\<rparr>" and ?x = "mkCoin out h cb"
  show ?case
  proof (cases "IsUnspendable (scriptPubKey out)")
    case True
    then show ?thesis using Cons.IH [of c "i + 1" m] Cons.prems by simp
  next
    case False
    then have free: "m ?q = None" "outputs_free txid h cb (i + 1) outs (m(?q \<mapsto> ?x))" using Cons.prems(3) by simp_all
    have now: "coins_over coins c = add_outputs txid h cb (i + 1) outs (m(?q \<mapsto> ?x))" using Cons.prems(2) False by simp
    have "coins_over coins c ?q = Some ?x" unfolding now by (rule outputs_free_keep [OF free(2)]) simp
    then obtain c1 where c1: "SpendCoin get ?q c = Inr (Some ?x, c1)" "cache_ok ok coins c1" "coins_over coins c1 = (coins_over coins c)(?q := None)"
      using SpendCoin_ok [OF Cons.prems(1), of ?q] by (auto split: option.splits if_splits)
    have "m(?q := None) = m" using free(1) by auto
    then have "coins_over coins c1 = add_outputs txid h cb (i + 1) outs m" "outputs_free txid h cb (i + 1) outs m"
      using outputs_free_remove [OF free(2)] c1(3) now by simp_all
    from Cons.IH [OF c1(2) this] obtain c' where "undo_outputs get txid h cb exc (i + 1) outs f c1 = Inr (f, c')" "cache_ok ok coins c'" "coins_over coins c' = m"
      by blast
    then show ?thesis using False c1(1) assms(4,5) by (simp add: bindV_def mkCoin_def Let_def)
  qed
qed

lemma ApplyTxInUndo_ok:
  assumes "cache_ok ok coins c" "coins_over coins c q = None" "coin_good x"
  shows "\<exists>c'. ApplyTxInUndo get x q c = Inr (DISCONNECT_OK, c') \<and> cache_ok ok coins c' \<and> coins_over coins c' = (coins_over coins c)(q \<mapsto> x)"
proof -
  obtain c1 where c1: "HaveCoin get q c = Inr (False, c1)" "cache_ok ok coins c1" "coins_over coins c1 = coins_over coins c"
    using readers_ok(2) [OF assms(1), of q] assms(2) by auto
  obtain c2 where "AddCoin q x False c1 = Inr ((), c2)" "cache_ok ok coins c2" "coins_over coins c2 = (coins_over coins c)(q \<mapsto> x)"
    using AddCoin_ok [OF c1(2), of x False q] c1(3) assms(2,3) by (auto simp: coin_good_def)
  then show ?thesis using c1(1) assms(3) by (simp add: ApplyTxInUndo_def bindV_def returnV_def coin_good_def)
qed

lemma undo_inputs_ok:
  assumes "cache_ok ok coins c" "ledger_good m" "\<forall>(txin, x)\<in>set zs. m (prevout txin) = Some x" "distinct (map (prevout \<circ> fst) zs)"
    "coins_over coins c = m |` (- (prevout \<circ> fst) ` set zs)"
  shows "\<exists>c'. undo_inputs get zs f c = Inr (Some f, c') \<and> cache_ok ok coins c' \<and> coins_over coins c' = m"
  using assms(1,3-5)
proof (induction zs arbitrary: c)
  case Nil
  then show ?case by (simp add: returnV_def)
next
  case (Cons z zs)
  obtain txin x where z: "z = (txin, x)" by (cases z) auto
  have x: "m (prevout txin) = Some x" "coin_good x" using Cons.prems(2) assms(2) z by (auto simp: ledger_good_def)
  have "coins_over coins c (prevout txin) = None" unfolding Cons.prems(4) z by simp
  from ApplyTxInUndo_ok [OF Cons.prems(1) this x(2)] obtain c1 where c1: "ApplyTxInUndo get x (prevout txin) c = Inr (DISCONNECT_OK, c1)" "cache_ok ok coins c1"
    "coins_over coins c1 = (coins_over coins c)(prevout txin \<mapsto> x)" by blast
  have "coins_over coins c1 = m |` (- (prevout \<circ> fst) ` set zs)"
    unfolding c1(3) Cons.prems(4) z using Cons.prems(3) x(1) z by (auto simp: restrict_map_def fun_eq_iff)
  with Cons.IH [OF c1(2)] Cons.prems(2,3) obtain c' where "undo_inputs get zs f c1 = Inr (Some f, c')" "cache_ok ok coins c'" "coins_over coins c' = m" by auto
  then show ?case using c1(1) by (simp add: z bindV_def)
qed

lemma disconnect_tx_ok:
  assumes "cache_ok ok coins c" "\<not> IsCoinBase tx" "tx_sane tx" "ledger_good m" "tx_applied h tx m fee undo (coins_over coins c)" "0 \<le> h" "h < 2 ^ 31"
  shows "\<exists>c'. disconnect_tx get h e (tx, Some undo) f c = Inr (Some f, c') \<and> cache_ok ok coins c' \<and> coins_over coins c' = m"
proof -
  let ?zs = "rev (zip (vin tx) undo)"
  have t: "map (\<lambda>txin. m (prevout txin)) (vin tx) = map Some undo" "outputs_free (GetHash tx) h False 0 (vout tx) (m |` (- spends tx))"
    "coins_over coins c = add_outputs (GetHash tx) h False 0 (vout tx) (m |` (- spends tx))"
    using assms(2,5) by (simp_all add: tx_applied_def)
  have len: "length undo = length (vin tx)" using arg_cong [OF t(1), of length] by simp
  obtain c1 where c1: "undo_outputs get (GetHash tx) h False (False \<and> \<not> e) 0 (vout tx) f c = Inr (f, c1)" "cache_ok ok coins c1" "coins_over coins c1 = m |` (- spends tx)"
    using undo_outputs_ok [OF assms(1) t(3,2) assms(6,7)] by metis
  have fst_zs: "map (prevout \<circ> fst) (zip (vin tx) undo) = map prevout (vin tx)" using len by (simp flip: map_map)
  have "m (prevout (vin tx ! i)) = Some (undo ! i)" if "i < length (vin tx)" for i
    using arg_cong [OF t(1), of "\<lambda>l. l ! i"] that len by simp
  then have "\<forall>(txin, x)\<in>set ?zs. m (prevout txin) = Some x" using len by (auto simp: in_set_zip)
  moreover have "distinct (map (prevout \<circ> fst) ?zs)" using assms(3) by (simp only: rev_map [symmetric] fst_zs distinct_rev) (simp add: tx_sane_def)
  moreover have "(prevout \<circ> fst) ` set ?zs = spends tx" using arg_cong [OF fst_zs, of set] by (simp add: spends_def)
  ultimately obtain c' where "undo_inputs get ?zs f c1 = Inr (Some f, c')" "cache_ok ok coins c'" "coins_over coins c' = m"
    using undo_inputs_ok [OF c1(2) assms(4), of ?zs f] c1(3) by auto
  then show ?thesis using c1(1) len assms(2) by (simp add: disconnect_tx_def bindV_def)
qed

lemma disconnect_txs_ok:
  assumes "cache_ok ok coins c" "\<forall>tx\<in>set txs. \<not> IsCoinBase tx \<and> tx_sane tx" "ledger_good m" "txs_applied h txs m fees undos (coins_over coins c)"
    "1 \<le> h" "h < 2 ^ 31"
  shows "\<exists>c'. disconnect_txs get h e (rev (zip txs (map Some undos))) f c = Inr (Some f, c') \<and> cache_ok ok coins c' \<and> coins_over coins c' = m"
  using assms(2-4)
proof (induction txs arbitrary: m fees undos)
  case Nil
  then show ?case using assms(1) by (simp add: returnV_def)
next
  case (Cons tx txs)
  then obtain fee u us m1 where u: "undos = u # us" "tx_applied h tx m fee u m1" "txs_applied h txs m1 (fees - fee) us (coins_over coins c)" by auto
  have "ledger_good m1" using tx_applied_good [OF Cons.prems(2) _ u(2) assms(5,6)] Cons.prems(1) by simp
  with Cons.IH [OF _ _ u(3)] Cons.prems(1) obtain c1 where c1: "disconnect_txs get h e (rev (zip txs (map Some us))) f c = Inr (Some f, c1)"
    "cache_ok ok coins c1" "coins_over coins c1 = m1" by auto
  obtain c' where "disconnect_tx get h e (tx, Some u) f c1 = Inr (Some f, c')" "cache_ok ok coins c'" "coins_over coins c' = m"
    using disconnect_tx_ok [OF c1(2) _ _ Cons.prems(2), of tx h fee u e f] Cons.prems(1) u(2) c1(3) assms(5,6) by auto
  then show ?case using disconnect_txs_append [OF c1(1), of "[(tx, Some u)]"] u(1) by (auto simp: bindV_def returnV_def)
qed

lemma DisconnectBlock_ok:
  assumes "cache_ok ok coins c" "ledger_good m" "block_applied p (nHeight pindex) block m undo (coins_over coins c)" "pprev pindex = Some prev"
    "1 \<le> nHeight pindex" "nHeight pindex < 2 ^ 31"
  shows "\<exists>c'. DisconnectBlock get block (Some undo) hash pindex c = Inr (DISCONNECT_OK, c') \<and> cache_ok ok coins c' \<and> coins_over coins c' = m \<and> hashBlock c' = prev"
proof -
  let ?h = "nHeight pindex" and ?e = "\<not> IsBIP30Unspendable hash (nHeight pindex)"
  obtain cb txs fees where b: "vtx block = cb # txs" "IsCoinBase cb" "\<forall>tx\<in>set txs. \<not> IsCoinBase tx" "\<forall>tx\<in>set (cb # txs). tx_sane tx"
    "\<forall>tx\<in>set (cb # txs). \<forall>q\<in>outpoints tx. m q = None" "txs_applied ?h (cb # txs) m fees ([] # undo) (coins_over coins c)"
    using assms(3) unfolding block_applied_def by blast
  obtain m1 fee where m1: "tx_applied ?h cb m fee [] m1" "txs_applied ?h txs m1 (fees - fee) undo (coins_over coins c)" using b(6) by auto
  have len: "length undo = length txs" by (rule txs_applied_length [OF m1(2)])
  have "ledger_good m1" using tx_applied_good [OF assms(2) _ m1(1) assms(5,6)] b(4) by simp
  with disconnect_txs_ok [OF assms(1) _ _ m1(2) assms(5,6)] b(3,4) obtain c1 where
    c1: "disconnect_txs get ?h ?e (rev (zip txs (map Some undo))) True c = Inr (Some True, c1)" "cache_ok ok coins c1" "coins_over coins c1 = m1" by auto
  have add: "coins_over coins c1 = add_outputs (GetHash cb) ?h True 0 (vout cb) m" using m1(1) b(2) c1(3) by (simp add: tx_applied_def)
  have free: "outputs_free (GetHash cb) ?h True 0 (vout cb) m" using b(4,5) by (intro outputs_free_absent) (auto simp: outpoints_image tx_sane_def)
  obtain c2 where c2: "undo_outputs get (GetHash cb) ?h True (True \<and> \<not> ?e) 0 (vout cb) True c1 = Inr (True, c2)" "cache_ok ok coins c2" "coins_over coins c2 = m"
    using undo_outputs_ok [OF c1(2) add free _ assms(6)] assms(5) by fastforce
  then have "disconnect_tx get ?h ?e (cb, None) True c1 = Inr (Some True, c2)" using b(2) by (simp add: disconnect_tx_def bindV_def returnV_def)
  then have "disconnect_txs get ?h ?e (rev (zip (vtx block) (None # map Some undo))) True c = Inr (Some True, c2)"
    using disconnect_txs_append [OF c1(1), of "[(cb, None)]"] b(1) by (simp add: bindV_def returnV_def)
  then show ?thesis using c2(2,3) len b(1) assms(4) SetBestBlock_ok [of prev c2]
    by (simp add: DisconnectBlock_def bindV_def)
qed

end

text \<open>C2. A reorganisation restores the coins.  After a block has been connected, disconnecting it with the undo data made then succeeds
  cleanly, and the view shows exactly the coins of before and the block before as the best one, whatever reads, evictions and
  writes to the layers below have happened in between.  The block has a height from 1 to \<open>2 ^ 31 - 1\<close> and is connected with the BIP30 check in
  force, and the coins of before are spendable and have heights.\<close>

theorem disconnect_undoes_connect:
  assumes "block_coins_ok c" "ce_index env hash = Some pindex" "pprev pindex = Some prev" "enforce_bip30 env hash pindex prev"
    and "hash \<noteq> hashGenesisBlock (ce_params env)" "1 \<le> nHeight pindex" "nHeight pindex < 2 ^ 31"
    and "\<forall>q x. block_coins_of c q = Some x \<longrightarrow> \<not> IsUnspendable (scriptPubKey (coin_out x)) \<and> coin_nHeight x \<noteq> 0"
    and "ConnectBlock (GetCoin DB_GetCoin) (GetBestBlock DB_GetBestBlock) env fuzz block hash fJustCheck st c = (Inr (Inr undo, c'), st')"
    and "block_coins_ok d" "block_coins_of d = block_coins_of c'"
  shows "\<exists>e. DisconnectBlock (GetCoin DB_GetCoin) block (Some undo) hash pindex d = Inr (DISCONNECT_OK, e)
    \<and> block_coins_ok e \<and> block_coins_of e = block_coins_of c \<and> hashBlock e = prev"
proof -
  have "block_applied (ce_params env) (nHeight pindex) block (block_coins_of c) undo (block_coins_of d)"
    using tip.ConnectBlock_applied [OF assms(1-5,9)] assms(11) by simp
  moreover have "ledger_good (block_coins_of c)"
    using assms(8) tip.coins_over_unspent [OF assms(1)] by (auto simp: ledger_good_def coin_good_def)
  ultimately show ?thesis using tip.DisconnectBlock_ok [OF assms(10) _ _ assms(3,6,7)] by blast
qed

theorem disconnect_undoes_connect_witness:
  "\<exists>st c' e. ConnectBlock (GetCoin DB_GetCoin) (GetBestBlock DB_GetBestBlock) coinbase_env False coinbase_block (BlockHash (header coinbase_block)) True st coinbase_coins
      = (Inr (Inr [], c'), st) \<and> block_coins_of c' = coinbase_ledger
    \<and> DisconnectBlock (GetCoin DB_GetCoin) coinbase_block (Some []) (BlockHash (header coinbase_block)) coinbase_index c' = Inr (DISCONNECT_OK, e)
    \<and> block_coins_of e = (\<lambda>_. None)"
proof -
  let ?hash = "BlockHash (header coinbase_block)"
  obtain c' where c': "ConnectBlock (GetCoin DB_GetCoin) (GetBestBlock DB_GetBestBlock) coinbase_env False coinbase_block ?hash True undefined coinbase_coins
     = (Inr (Inr [], c'), undefined)" "block_coins_ok c'" "block_coins_of c' = coinbase_ledger" using coinbase_connected [of undefined] by blast
  have env: "ce_index coinbase_env ?hash = Some coinbase_index" "pprev coinbase_index = Some (replicate 32 1)" "nHeight coinbase_index = 1"
    "?hash \<noteq> hashGenesisBlock (ce_params coinbase_env)"
    by (simp_all add: coinbase_env_def coinbase_index_def coinbase_hash_nonempty)
  have "\<exists>e. DisconnectBlock (GetCoin DB_GetCoin) coinbase_block (Some []) ?hash coinbase_index c' = Inr (DISCONNECT_OK, e)
    \<and> block_coins_ok e \<and> block_coins_of e = block_coins_of coinbase_coins \<and> hashBlock e = replicate 32 1"
    by (rule disconnect_undoes_connect [OF coinbase_coins_ok(1) env(1,2) coinbase_bip30 env(4) _ _ _ c'(1,2) refl])
      (simp_all add: env(3) coinbase_coins_ok(2))
  then show ?thesis using c' coinbase_coins_ok(2) by metis
qed

end
