(* ===== verification/Spec2Isabelle.thy ===== *)
theory Spec2Isabelle
  imports Emission Levy Pow Merkle Script_Softfork Script_Spend Script_Limits Connect_Supply Connect_Undo
begin

text \<open>
  A verification development of the consensus code of xCoin, a full node in C++ (file names below are relative to
  \<^verbatim>\<open>src/src\<close>).

  \<^bold>\<open>The program.\<close>  A node receives blocks of transactions.  The header of a block names its parent, commits to the
  transactions by a Merkle root and carries a proof of work whose difficulty follows from the headers before it.  A
  transaction spends outputs of earlier ones; every output carries a script, and a spend is valid when the interpreter
  accepts the spender's script and witness for it.  New coins come only from the emission table, and a settlement levy
  sets a minimum fee.  The theories follow these parts from the bottom up.

  \<^bold>\<open>Conventions.\<close>  Signed integers of the source are \<^typ>\<open>int\<close>, with the bounds proved where they matter; unsigned ones are
  words of their width, which wrap.  A \<^verbatim>\<open>uint256\<close> is a list of 32 bytes.  A class is a record and a method is a function
  of the record that returns the updated one.  A Boolean result with an error code, an exception and a failed assertion
  are values of a sum or option type.  Loops are recursive functions with a termination proof; there is no fuel.
  The loops that follow pointers of the block index are partial functions whose value \<open>None\<close> means that the loop does not
  end; on a well-formed index they are proved to return.
  Iterators into a script are the remaining bytes, and a stack is a list with its top first.  The names are those of
  the source; a function that models a part of a longer one (a loop, a branch) has a name of its own in lower case.
  The interfaces between the components are locales, interpreted on the model's definitions where these are defined.

  \<^bold>\<open>Parameters and amounts.\<close>
  \<^item> \<open>Prelude\<close>: bytes, little-endian numbers, truncating division, the collections \<open>const_defs\<close> and \<open>codec_simps\<close>.
  \<^item> \<open>Params\<close>: \<^verbatim>\<open>consensus/amount.h\<close>, \<^verbatim>\<open>consensus/consensus.h\<close>, \<^verbatim>\<open>consensus/params.h\<close> and the mainnet parameters of
    \<^verbatim>\<open>kernel/chainparams.cpp\<close>.
  \<^item> \<open>Emission\<close>: \<^verbatim>\<open>GetBlockSubsidy\<close> of \<^verbatim>\<open>validation.cpp\<close>.  The coins minted never exceed the maximal supply and reach it
    exactly.
  \<^item> \<open>Levy\<close>: \<^verbatim>\<open>consensus/levy.h\<close>.  The levy is exact without overflow, the levy computed from the inputs is the least fee
    that satisfies the rule, and a soft-fork-only schedule never lowers it.

  \<^bold>\<open>Arithmetic, hashes and encodings.\<close>
  \<^item> \<open>Arith_Uint256\<close>: \<^verbatim>\<open>arith_uint256.h\<close> and \<^verbatim>\<open>arith_uint256.cpp\<close> on eight 32-bit digits.  The operators refine
    arithmetic modulo \<open>2 ^ 256\<close> (the contract \<open>wide_arith\<close>), and the compact form of targets is decoded exactly.
  \<^item> \<open>Hash_Stream\<close>: the streaming interface that the hashers of \<^verbatim>\<open>crypto/\<close> share, as the contract \<open>block_hash\<close>.
    \<open>Sha256\<close>, \<open>Hash_Legacy\<close> (SHA-1, RIPEMD-160) interpret it on their transforms: however the input is cut into writes,
    the digest is that of the padded whole.  \<open>Sha256_D64\<close>: the hand-specialised double hash of 64 bytes is the generic one.
  \<^item> \<open>Serialize\<close>: \<^verbatim>\<open>serialize.h\<close>.  The contract \<open>codec\<close> states that reading inverts writing and that only what is written
    is accepted; every encoder of the development is an interpretation of it.
  \<^item> \<open>Transaction\<close>: \<^verbatim>\<open>primitives/transaction.h\<close>, \<^verbatim>\<open>primitives/block.h\<close>, the weights of \<^verbatim>\<open>consensus/validation.h\<close>.
    The encoding of a transaction is canonical; \<^verbatim>\<open>GetValueOut\<close> is the sum of the outputs or throws.

  \<^bold>\<open>Chain and proof of work.\<close>
  \<^item> \<open>Block_Chain\<close>: \<^verbatim>\<open>chain.h\<close>, \<^verbatim>\<open>chain.cpp\<close> and \<^verbatim>\<open>AddToBlockIndex\<close> of \<^verbatim>\<open>node/blockstorage.cpp\<close>.  The index is a map from
    hashes to entries.  Its invariant holds after every insertion; skip pointers, common ancestors, the active chain
    and locators agree with following the parents.
  \<^item> \<open>Metal_Dag\<close>: \<^verbatim>\<open>metaldag/metaldag.cpp\<close>.  Keccak agrees with its specification, every access is inside the dataset, and
    the resident caches (the contract \<open>memo_table\<close>) never change a hash.
  \<^item> \<open>Pow\<close>: \<^verbatim>\<open>pow.cpp\<close>.  The difficulty rule always yields a valid target, is monotone in the schedule error and passes the
    header-sync check; the proof-of-work check is characterised.
  \<^item> \<open>Merkle\<close>: \<^verbatim>\<open>consensus/merkle.cpp\<close>.  Two unflagged lists of one depth with one root are equal, or SHA-256 collides.

  \<^bold>\<open>Scripts.\<close>
  \<^item> \<open>Script_Core\<close>: \<^verbatim>\<open>script/script.h\<close>, \<^verbatim>\<open>script/script.cpp\<close>, \<^verbatim>\<open>script/solver.cpp\<close>: opcodes, script numbers, instructions,
    output templates.  Script numbers are canonical.
  \<^item> \<open>Script_Types\<close>: errors, flags, execution data and the signature checker, a record with one function per virtual
    method.
  \<^item> \<open>Condition_Stack\<close>: the class of that name refines a stack of Booleans (the contract \<open>condition_stack\<close>), up to
    \<open>2 ^ 32 - 2\<close> nested conditions.
  \<^item> \<open>Script_Interp\<close>: \<^verbatim>\<open>EvalScript\<close> of \<^verbatim>\<open>script/interpreter.cpp\<close> with every opcode.  \<open>Script_Verify\<close>: \<^verbatim>\<open>VerifyScript\<close> with
    every witness version, the commitments and the signature-operation counts.
  \<^item> \<open>Script_Softfork\<close>: every flag is a soft fork, proved by one rule per operation (\<open>permits_intros\<close>).
  \<^item> \<open>Script_Spend\<close>: what spending a post-quantum output requires, and that unspendable outputs cannot be spent.
  \<^item> \<open>Script_Limits\<close>: the loop of the interpreter as a step relation; every state of a run after its first instruction keeps the
    limit of the stacks (the initial stack is limited beforehand only under the tapscript rules), all keep the other limits, and
    in a post-quantum leaf hashing and signature checks are paid from the validation weight.

  \<^bold>\<open>Coins and transactions.\<close>
  \<^item> \<open>Coins\<close>: \<^verbatim>\<open>coins.h\<close>, \<^verbatim>\<open>coins.cpp\<close> and the database view of \<^verbatim>\<open>txdb.cpp\<close>.  The contract \<open>coins_view\<close> says what a view
    promises to a cache on top of it; a cache over a view is a view again, and the stack of two caches over the database
    is one map from outpoints to coins.  The database is a map that a batch changes at once.
  \<^item> \<open>Tx_Rules\<close>: \<^verbatim>\<open>consensus/tx_check.cpp\<close> and \<^verbatim>\<open>consensus/tx_verify.cpp\<close>, the rules for one transaction.  The transactions that
    pass the context-free check are characterised.

  \<^bold>\<open>Blocks.\<close>
  \<^item> \<open>Connect_Block\<close>: \<^verbatim>\<open>CheckBlock\<close>, \<^verbatim>\<open>ConnectBlock\<close>, \<^verbatim>\<open>DisconnectBlock\<close> and their parts from \<^verbatim>\<open>validation.cpp\<close>, \<^verbatim>\<open>coins.cpp\<close> and
    \<^verbatim>\<open>undo.h\<close>, composed of the rules, the interpreter and the coin caches above.  The block index, the script execution cache,
    the signature checkers and the outcome of writing undo data are given in a record.
  \<^item> \<open>Connect_Ledger\<close>: an abstract ledger, a map from outpoints to coins, and the effect of a transaction and a block on it.
    In the contract \<open>coins_view\<close> a successful \<^verbatim>\<open>ConnectBlock\<close> is shown to have this effect, by a small logic of relations
    between the ledgers before and after (\<open>runs\<close>).
  \<^item> \<open>Connect_Supply\<close>: the value of the ledger grows by at most the subsidy of each block, so that the coins never exceed the
    supply.  The theorem is about blocks for which the check against overwriting outputs is made; the code skips it only
    for two historical blocks and on a chain with the recorded block at the height of \<^verbatim>\<open>BIP34\<close>.
  \<^item> \<open>Connect_Undo\<close>: disconnecting a block with the undo data made when it was connected restores the coins, whatever the caches did in
    between.  How undo data is encoded on disk is not modelled.

  \<^bold>\<open>Not modelled.\<close>  Signatures and signature hashes: the interpreter takes the checker as an argument, and no theorem assumes
  anything of it.  The vectorised SHA-256 implementations.  The contextual checks
  of headers and blocks and the choice of the best chain.  Storage, databases, threads and locks: each call is a
  function of the state it is given.  The mempool, relay policy, network, wallet, RPC and start-up code, which are no part
  of the consensus rules.
\<close>

end
